(* ===== verification/Prelude.thy ===== *)
theory Prelude
  imports Main "HOL-Library.Word" "HOL-Library.List_Lexorder" "HOL-Library.Char_ord"
begin

text \<open>
  Shared vocabulary of the development: the machine types of an LP64 Linux/x86-64 build, the
  faults a C++ program can run into (undefined behaviour is a value of the model, never a HOL
  underspecified term), C strings, decimal formatting (\<^verbatim>\<open>%d\<close>, \<^verbatim>\<open>std::to_string\<close>), overwriting
  a region of an array, \<^verbatim>\<open>std::map\<close> as a strictly sorted association list, and the results of
  the socket calls, which are arguments of the components that issue them.
\<close>

unbundle bit_operations_syntax

section \<open>Machine types and faults\<close>

type_synonym byte = "8 word"
type_synonym u32 = "32 word"
type_synonym u64 = "64 word"

text \<open>What a C++ program can do that the language gives no meaning to, or that aborts it.\<close>

datatype fault =
    NullDeref
  | OutOfBounds
  | UseAfterFree
  | DoubleFree
  | DivByZero
  | SignedOverflow
  | Exited int
  | Thrown string

type_synonym 'a res = "fault + 'a"

definition bind_res :: "'a res \<Rightarrow> ('a \<Rightarrow> 'b res) \<Rightarrow> 'b res" where
  "bind_res r f = (case r of Inl e \<Rightarrow> Inl e | Inr x \<Rightarrow> f x)"

definition is_ok :: "'a res \<Rightarrow> bool" where
  "is_ok r = (case r of Inl _ \<Rightarrow> False | Inr _ \<Rightarrow> True)"

named_theorems model_defs \<open>unfolding equations of the model's plain definitions\<close>
named_theorems wf_intros \<open>an operation keeps the invariant of its component\<close>

lemma bind_res_simps [simp]:
  "bind_res (Inl e) f = Inl e"
  "bind_res (Inr x) f = f x"
  by (simp_all add: bind_res_def)

lemma is_ok_simps [simp]:
  "is_ok (Inl e) = False"
  "is_ok (Inr x) = True"
  by (simp_all add: is_ok_def)

lemma bind_res_eq_Inr: "bind_res r f = Inr y \<longleftrightarrow> (\<exists>x. r = Inr x \<and> f x = Inr y)"
  by (cases r) auto

lemma bind_res_assoc: "bind_res (bind_res r f) g = bind_res r (\<lambda>x. bind_res (f x) g)"
  by (cases r) auto

section \<open>C strings and arrays\<close>

text \<open>\<^verbatim>\<open>c_str\<close> is what a reader of a \<^verbatim>\<open>const char*\<close> sees: the characters before the first NUL.\<close>

definition c_str :: "string \<Rightarrow> string" where
  "c_str s = takeWhile (\<lambda>c. c \<noteq> CHR 0x00) s"

definition strlen :: "string \<Rightarrow> nat" where
  "strlen s = length (c_str s)"

definition nul_free :: "string \<Rightarrow> bool" where
  "nul_free s = list_all (\<lambda>c. c \<noteq> CHR 0x00) s"

text \<open>The same on raw bytes.\<close>

definition c_bytes :: "byte list \<Rightarrow> byte list" where
  "c_bytes bs = takeWhile (\<lambda>b. b \<noteq> 0) bs"

text \<open>\<^verbatim>\<open>memcpy(xs + i, ys, |ys|)\<close> on an array long enough for it.\<close>

definition overwrite :: "'a list \<Rightarrow> nat \<Rightarrow> 'a list \<Rightarrow> 'a list" where
  "overwrite xs i ys = take i xs @ ys @ drop (i + length ys) xs"

lemma c_str_nul_free [simp]: "nul_free s \<Longrightarrow> c_str s = s"
  by (simp add: c_str_def nul_free_def list_all_iff takeWhile_eq_all_conv)

lemma nul_free_c_str [simp]: "nul_free (c_str s)"
  by (auto simp: c_str_def nul_free_def list_all_iff dest: set_takeWhileD)

lemma c_str_idem [simp]: "c_str (c_str s) = c_str s"
  by simp

lemma nul_free_append [simp]: "nul_free (s @ t) \<longleftrightarrow> nul_free s \<and> nul_free t"
  by (simp add: nul_free_def)

lemma nul_free_simps [simp]:
  "nul_free []"
  "nul_free (c # s) \<longleftrightarrow> c \<noteq> CHR 0x00 \<and> nul_free s"
  by (simp_all add: nul_free_def)

lemma c_bytes_stop: "0 \<notin> set xs \<Longrightarrow> c_bytes (xs @ 0 # ys) = xs"
  by (induction xs) (auto simp: c_bytes_def)

lemma length_c_bytes: "length (c_bytes bs) \<le> length bs"
  by (simp add: c_bytes_def length_takeWhile_le)

lemma length_overwrite [simp]:
  "i + length ys \<le> length xs \<Longrightarrow> length (overwrite xs i ys) = length xs"
  by (simp add: overwrite_def)

lemma take_overwrite:
  "i + length ys \<le> length xs \<Longrightarrow> take (i + length ys) (overwrite xs i ys) = take i xs @ ys"
  by (simp add: overwrite_def)

lemma drop_overwrite_before:
  "\<lbrakk>r \<le> i; i + length ys \<le> length xs\<rbrakk> \<Longrightarrow>
     take (i + length ys - r) (drop r (overwrite xs i ys)) = take (i - r) (drop r xs) @ ys"
  by (simp add: overwrite_def drop_take)

section \<open>Decimal formatting\<close>

text \<open>\<^verbatim>\<open>sprintf("%d")\<close> and \<^verbatim>\<open>std::to_string\<close>.\<close>

definition digit :: "nat \<Rightarrow> char" where
  "digit d = char_of (48 + d)"

fun dec_nat :: "nat \<Rightarrow> string" where
  "dec_nat n = (if n < 10 then [digit n] else dec_nat (n div 10) @ [digit (n mod 10)])"

declare dec_nat.simps [simp del]

definition dec_int :: "int \<Rightarrow> string" where
  "dec_int i = (if i < 0 then CHR ''-'' # dec_nat (nat (- i)) else dec_nat (nat i))"

definition undigit :: "char \<Rightarrow> nat" where
  "undigit c = of_char c - 48"

definition undec :: "string \<Rightarrow> nat" where
  "undec s = foldl (\<lambda>a c. 10 * a + undigit c) 0 s"

lemma undigit_digit [simp]: "d < 10 \<Longrightarrow> undigit (digit d) = d"
  by (simp add: undigit_def digit_def)

lemma undec_snoc: "undec (s @ [c]) = 10 * undec s + undigit c"
  by (simp add: undec_def)

lemma undec_dec_nat [simp]: "undec (dec_nat n) = n"
proof (induction n rule: dec_nat.induct)
  case (1 n)
  show ?case
  proof (cases "n < 10")
    case True
    then show ?thesis by (simp add: dec_nat.simps[of n] undec_def)
  next
    case False
    with 1 show ?thesis by (simp add: dec_nat.simps[of n] undec_snoc)
  qed
qed

lemma dec_nat_inject [simp]: "dec_nat m = dec_nat n \<longleftrightarrow> m = n"
  by (metis undec_dec_nat)

lemma dec_nat_nonempty [simp]: "dec_nat n \<noteq> []"
  by (subst dec_nat.simps) simp

lemma of_char_digit: "d < 10 \<Longrightarrow> of_char (digit d) = 48 + d"
  by (simp add: digit_def)

lemma dec_nat_digits: "c \<in> set (dec_nat n) \<Longrightarrow> 48 \<le> (of_char c :: nat) \<and> of_char c < (58 :: nat)"
proof (induction n rule: dec_nat.induct)
  case (1 n)
  then show ?case
    by (cases "n < 10") (auto simp: dec_nat.simps[of n] of_char_digit)
qed

lemma dec_nat_no_minus: "CHR ''-'' \<notin> set (dec_nat n)"
  using dec_nat_digits[of "CHR ''-''" n] by auto

lemma dec_nat_nul_free [simp]: "nul_free (dec_nat n)"
  using dec_nat_digits[of _ n] by (fastforce simp: nul_free_def list_all_iff)

lemma dec_int_nul_free [simp]: "nul_free (dec_int i)"
  by (simp add: dec_int_def)

lemma dec_int_inject [simp]: "dec_int i = dec_int j \<longleftrightarrow> i = j"
proof -
  have "\<And>m n. CHR ''-'' # dec_nat m \<noteq> dec_nat n"
    using dec_nat_no_minus by (metis list.set_intros(1))
  then show ?thesis
    by (auto simp: dec_int_def dest: sym)
qed

lemma length_dec_nat: "n < 10 ^ Suc k \<Longrightarrow> length (dec_nat n) \<le> Suc k"
proof (induction k arbitrary: n)
  case 0
  then show ?case by (simp add: dec_nat.simps)
next
  case (Suc k)
  from Suc.prems have "n div 10 < 10 ^ Suc k"
    by (simp add: less_mult_imp_div_less mult.commute)
  from Suc.IH[OF this] show ?case
    by (subst dec_nat.simps) auto
qed

section \<open>The ordered map \<close>

text \<open>
  \<^verbatim>\<open>std::map\<close> iterates in key order, and the code's loops depend on it, so a map is the list of
  its entries in strictly increasing key order. \<open>map_put\<close> is \<^verbatim>\<open>m[k] = v\<close>, \<open>map_of\<close> the lookup
  and \<open>map_erase\<close> is \<^verbatim>\<open>m.erase(k)\<close>. The order of \<^typ>\<open>string\<close> is lexicographic on unsigned
  characters, as \<^verbatim>\<open>std::string\<close> compares.
\<close>

type_synonym ('k, 'v) std_map = "('k \<times> 'v) list"

fun map_put :: "'k::linorder \<Rightarrow> 'v \<Rightarrow> ('k, 'v) std_map \<Rightarrow> ('k, 'v) std_map" where
  "map_put k v [] = [(k, v)]"
| "map_put k v ((k', v') # m) =
     (if k < k' then (k, v) # (k', v') # m
      else if k = k' then (k, v) # m
      else (k', v') # map_put k v m)"

definition map_erase :: "'k \<Rightarrow> ('k, 'v) std_map \<Rightarrow> ('k, 'v) std_map" where
  "map_erase k m = filter (\<lambda>e. fst e \<noteq> k) m"

definition map_wf :: "('k::linorder, 'v) std_map \<Rightarrow> bool" where
  "map_wf m = sorted_wrt (<) (map fst m)"

definition map_puts :: "('k::linorder \<times> 'v) list \<Rightarrow> ('k, 'v) std_map \<Rightarrow> ('k, 'v) std_map" where
  "map_puts kvs m = fold (\<lambda>(k, v). map_put k v) kvs m"

lemma fst_set_map_put: "fst ` set (map_put k v m) = insert k (fst ` set m)"
  by (induction k v m rule: map_put.induct) auto

lemma map_wf_Nil [simp, wf_intros]: "map_wf []"
  by (simp add: map_wf_def)

lemma map_wf_Cons: "map_wf (e # m) \<longleftrightarrow> (\<forall>k \<in> fst ` set m. fst e < k) \<and> map_wf m"
  by (auto simp: map_wf_def)

lemma map_wf_put [simp, wf_intros]: "map_wf m \<Longrightarrow> map_wf (map_put k v m)"
  by (induction k v m rule: map_put.induct) (auto simp: map_wf_Cons fst_set_map_put)

lemma map_of_notin: "k \<notin> fst ` set m \<Longrightarrow> map_of m k = None"
  by (simp add: map_of_eq_None_iff)

lemma map_of_put [simp]: "map_wf m \<Longrightarrow> map_of (map_put k v m) = (map_of m)(k \<mapsto> v)"
proof (induction k v m rule: map_put.induct)
  case (2 k v k' v' m)
  then show ?case by (auto simp: map_wf_Cons fun_eq_iff)
qed auto

lemma map_wf_erase [simp, wf_intros]: "map_wf m \<Longrightarrow> map_wf (map_erase k m)"
  by (induction m) (auto simp: map_wf_Cons map_erase_def)

lemma map_of_erase [simp]: "map_of (map_erase k m) = (map_of m)(k := None)"
  by (induction m) (auto simp: map_erase_def fun_eq_iff)

lemma map_wf_hd_less: "\<lbrakk>map_wf (e # m); k \<in> fst ` set m\<rbrakk> \<Longrightarrow> fst e < k"
  by (auto simp: map_wf_Cons)

lemma map_wf_ext: "\<lbrakk>map_wf m; map_wf m'; map_of m = map_of m'\<rbrakk> \<Longrightarrow> m = m'"
proof (induction m arbitrary: m')
  case Nil
  then show ?case by (cases m') (auto simp: fun_eq_iff split: if_splits)
next
  case (Cons e m)
  have dom_eq: "fst ` set (e # m) = fst ` set m'"
    using Cons.prems(3) by (metis dom_map_of_conv_image_fst)
  then obtain e' t where m': "m' = e' # t" by (cases m') auto
  have "fst e = fst e'"
    using dom_eq Cons.prems(1,2) unfolding m' map_wf_Cons
    by (auto intro!: antisym) (metis image_iff insert_iff less_imp_le order_refl)+
  moreover have "snd e = snd e'"
    using Cons.prems(3) calculation unfolding m'
    by (cases e; cases e') (auto simp: fun_eq_iff split: if_splits)
  ultimately have e: "e = e'" by (simp add: prod_eq_iff)
  have nin: "fst e \<notin> fst ` set m" "fst e \<notin> fst ` set t"
    using Cons.prems(1,2) e unfolding m' map_wf_Cons by auto
  have "map_of m = map_of t"
  proof
    fix k show "map_of m k = map_of t k"
      using Cons.prems(3) nin e unfolding m'
      by (cases "k = fst e") (auto simp: map_of_notin fun_eq_iff split: if_splits)
  qed
  with Cons.IH[of t] Cons.prems(1,2) show ?case
    unfolding m' e by (simp add: map_wf_Cons)
qed

lemma map_puts_simps [simp]:
  "map_puts [] m = m"
  "map_puts ((k, v) # kvs) m = map_puts kvs (map_put k v m)"
  by (simp_all add: map_puts_def)

lemma map_puts_append: "map_puts (xs @ ys) m = map_puts ys (map_puts xs m)"
  by (simp add: map_puts_def)

lemma map_wf_puts [simp, wf_intros]: "map_wf m \<Longrightarrow> map_wf (map_puts kvs m)"
  by (induction kvs arbitrary: m) auto

lemma map_of_puts: "map_wf m \<Longrightarrow> map_of (map_puts kvs m) = map_of m ++ map_of (rev kvs)"
  by (induction kvs arbitrary: m) (auto simp: map_add_def fun_eq_iff split: option.splits)

lemma map_wf_distinct: "map_wf m \<Longrightarrow> distinct (map fst m)"
  by (simp add: map_wf_def strict_sorted_iff)

lemma map_of_rev_distinct: "distinct (map fst m) \<Longrightarrow> map_of (rev m) = map_of m"
  by (subst map_of_inject_set) (auto simp: rev_map[symmetric])

text \<open>Copying a map entry by entry gives the same map.\<close>

lemma map_puts_copy: "map_wf m \<Longrightarrow> map_puts m [] = m"
  by (rule map_wf_ext) (simp_all add: map_of_puts map_wf_distinct map_of_rev_distinct)

section \<open>Socket results\<close>

text \<open>
  The operating system is not part of the repository: every function that calls it takes the
  call as an argument over a state \<open>'w\<close> of the outside world. \<open>RecvData\<close> carries the bytes
  that the call stored, \<open>RecvEof\<close> is the return value 0 and \<open>RecvErr e\<close> is -1 with \<^verbatim>\<open>errno\<close> = \<open>e\<close>.
\<close>

datatype recv_result = RecvData "byte list" | RecvEof | RecvErr int

type_synonym 'w recv_call = "int \<Rightarrow> nat \<Rightarrow> 'w \<Rightarrow> recv_result \<times> 'w"

type_synonym 'w send_call = "int \<Rightarrow> byte list \<Rightarrow> 'w \<Rightarrow> int \<times> 'w"

text \<open>
  The documented contract of \<^verbatim>\<open>recv(2)\<close> on a stream socket: a positive count never exceeds the
  room offered, and data is never a zero count (a call with no room returns 0).
\<close>

definition recv_documented :: "'w recv_call \<Rightarrow> bool" where
  "recv_documented recv =
     (\<forall>fd n w bs w'. recv fd n w = (RecvData bs, w') \<longrightarrow> 0 < length bs \<and> length bs \<le> n)"

text \<open>\<^verbatim>\<open>send(2)\<close>: -1, or the number of bytes taken, at most the number offered.\<close>

definition send_documented :: "'w send_call \<Rightarrow> bool" where
  "send_documented send =
     (\<forall>fd bs w r w'. send fd bs w = (r, w') \<longrightarrow> - 1 \<le> r \<and> r \<le> int (length bs))"

lemma recv_documentedD:
  assumes "recv_documented recv" and "recv fd n w = (RecvData bs, w')"
  shows "0 < length bs" and "length bs \<le> n"
  using assms unfolding recv_documented_def by blast+

lemma send_documentedD:
  assumes "send_documented send" and "send fd bs w = (r, w')"
  shows "- 1 \<le> r" and "r \<le> int (length bs)"
  using assms unfolding send_documented_def by blast+

text \<open>
  A scripted peer, for concrete runs: the world is the list of chunks still to come; each call
  hands over the next chunk, cut to the room offered, and then reports \<^verbatim>\<open>EAGAIN\<close> (11).
\<close>

fun scripted_recv :: "(byte list list) recv_call" where
  "scripted_recv fd n [] = (RecvErr 11, [])"
| "scripted_recv fd n (c # cs) =
     (if n = 0 \<or> c = [] then (RecvEof, c # cs)
      else (RecvData (take n c), (if n < length c then drop n c # cs else cs)))"

lemma scripted_recv_documented: "recv_documented scripted_recv"
  unfolding recv_documented_def
proof (intro allI impI)
  fix fd n w bs w'
  assume "scripted_recv fd n w = (RecvData bs, w')"
  then show "0 < length bs \<and> length bs \<le> n"
    by (induction fd n w rule: scripted_recv.induct) (auto split: if_splits)
qed

section \<open>Runs that may fail or not return\<close>

text \<open>\<open>None\<close>: does not return. \<open>Some (Inl e)\<close>: fault. \<open>Some (Inr x)\<close>: normal result.\<close>

type_synonym 'a run = "'a res option"

definition bind_run :: "'a run \<Rightarrow> ('a \<Rightarrow> 'b run) \<Rightarrow> 'b run" where
  "bind_run r f = (case r of None \<Rightarrow> None | Some (Inl e) \<Rightarrow> Some (Inl e) | Some (Inr x) \<Rightarrow> f x)"

lemma bind_run_simps [simp]:
  "bind_run None f = None"
  "bind_run (Some (Inl e)) f = Some (Inl e)"
  "bind_run (Some (Inr x)) f = f x"
  by (simp_all add: bind_run_def)

lemma bind_run_mono [partial_function_mono]:
  assumes "mono_option B" and "\<And>y. mono_option (\<lambda>f. C y f)"
  shows "mono_option (\<lambda>f. bind_run (B f) (\<lambda>y. C y f))"
proof (rule monotoneI)
  fix f g :: "'a \<Rightarrow> 'b option"
  assume fg: "fun_ord option_ord f g"
  with assms have b: "option_ord (B f) (B g)" and c: "option_ord (C y f) (C y g)" for y
    by (auto dest: monotoneD)
  show "option_ord (bind_run (B f) (\<lambda>y. C y f)) (bind_run (B g) (\<lambda>y. C y g))"
  proof (cases "B f")
    case None
    then show ?thesis by (simp add: flat_ord_def)
  next
    case (Some r)
    with b have "B g = Some r" by (auto simp: flat_ord_def)
    with Some c show ?thesis by (cases r) (simp_all add: flat_ord_def)
  qed
qed

text \<open>A run that returns, with no fault but those of \<open>F\<close>, and establishes \<open>Q\<close> when it ends normally.\<close>

definition safe_run :: "fault set \<Rightarrow> ('a \<Rightarrow> bool) \<Rightarrow> 'a run \<Rightarrow> bool" where
  "safe_run F Q r \<longleftrightarrow> (case r of None \<Rightarrow> False | Some (Inl e) \<Rightarrow> e \<in> F | Some (Inr x) \<Rightarrow> Q x)"

lemma safe_run_simps [simp]:
  "\<not> safe_run F Q None"
  "safe_run F Q (Some (Inl e)) \<longleftrightarrow> e \<in> F"
  "safe_run F Q (Some (Inr x)) \<longleftrightarrow> Q x"
  by (simp_all add: safe_run_def)

lemma safe_run_bind:
  assumes "safe_run F P r" and "\<And>x. P x \<Longrightarrow> safe_run F Q (f x)"
  shows "safe_run F Q (bind_run r f)"
proof (cases r)
  case (Some x)
  with assms show ?thesis by (cases x) auto
qed (use assms(1) in simp)

lemma safe_run_mono: "safe_run F P r \<Longrightarrow> (\<And>x. P x \<Longrightarrow> Q x) \<Longrightarrow> safe_run F Q r"
  by (auto simp: safe_run_def split: option.splits sum.splits)

end
