(* ===== verification/NetBuffer.thy ===== *)
theory NetBuffer
  imports Prelude
begin

text \<open>
  The receive/send buffer of the ccnet library (ccnet/net/Buffer.h, Buffer.cc): a byte vector
  with a read and a write index. The model keeps the vector and both indices; the abstraction
  \<open>buf_bytes\<close> is the list of readable bytes. The lemmas show that the operations keep
  \<open>8 \<le> read \<le> write \<le> size\<close> and implement a byte FIFO, stated once as the locale
  \<open>byte_queue\<close> and interpreted on the buffer, and that \<open>readFd\<close> terminates, appends exactly
  what the socket delivered and never reports an error to its caller.
\<close>

section \<open>The byte queue interface\<close>

datatype queue_op = QPut "byte list" | QTake int

fun queue_run ::
  "('b \<Rightarrow> byte list) \<Rightarrow> (byte list \<Rightarrow> 'b \<Rightarrow> 'b) \<Rightarrow> (int \<Rightarrow> 'b \<Rightarrow> 'b) \<Rightarrow> queue_op list \<Rightarrow> 'b \<Rightarrow> byte list \<times> 'b"
where
  "queue_run bytes put get [] b = ([], b)"
| "queue_run bytes put get (QPut d # ops) b = queue_run bytes put get ops (put d b)"
| "queue_run bytes put get (QTake n # ops) b =
     (let (out, b') = queue_run bytes put get ops (get n b)
      in (take (nat n) (bytes b) @ out, b'))"

fun queue_fed :: "queue_op list \<Rightarrow> byte list" where
  "queue_fed [] = []"
| "queue_fed (QPut d # ops) = d @ queue_fed ops"
| "queue_fed (QTake n # ops) = queue_fed ops"

definition queue_ops_ok :: "queue_op list \<Rightarrow> bool" where
  "queue_ops_ok ops = list_all (\<lambda>x. case x of QPut _ \<Rightarrow> True | QTake n \<Rightarrow> 0 \<le> n) ops"

locale byte_queue =
  fixes ok :: "'b \<Rightarrow> bool"
    and bytes :: "'b \<Rightarrow> byte list"
    and readable :: "'b \<Rightarrow> int"
    and put :: "byte list \<Rightarrow> 'b \<Rightarrow> 'b"
    and get :: "int \<Rightarrow> 'b \<Rightarrow> 'b"
  assumes readable_eq: "ok b \<Longrightarrow> readable b = int (length (bytes b))"
    and bytes_put: "ok b \<Longrightarrow> bytes (put d b) = bytes b @ d"
    and bytes_get: "ok b \<Longrightarrow> 0 \<le> n \<Longrightarrow> bytes (get n b) = drop (nat n) (bytes b)"
    and ok_put: "ok b \<Longrightarrow> ok (put d b)"
    and ok_get: "ok b \<Longrightarrow> 0 \<le> n \<Longrightarrow> ok (get n b)"
begin

lemma readable_nonneg: "ok b \<Longrightarrow> 0 \<le> readable b"
  by (simp add: readable_eq)

lemma run_fifo:
  assumes "ok b" and "queue_ops_ok ops" and "queue_run bytes put get ops b = (out, b')"
  shows "out @ bytes b' = bytes b @ queue_fed ops \<and> ok b'"
  using assms
proof (induction ops arbitrary: b out)
  case Nil
  then show ?case by simp
next
  case (Cons x ops)
  show ?case
  proof (cases x)
    case (QPut d)
    with Cons.IH[of "put d b" out] Cons.prems show ?thesis
      by (simp add: queue_ops_ok_def ok_put bytes_put)
  next
    case (QTake n)
    with Cons.prems obtain out' where r: "queue_run bytes put get ops (get n b) = (out', b')"
      and out: "out = take (nat n) (bytes b) @ out'"
      by (auto split: prod.splits)
    from QTake Cons.prems have n: "0 \<le> n" and ops: "queue_ops_ok ops"
      by (auto simp: queue_ops_ok_def)
    from Cons.IH[OF ok_get[OF Cons.prems(1) n] ops r]
    show ?thesis using QTake out bytes_get[OF Cons.prems(1) n] by simp
  qed
qed

end

section \<open>The buffer\<close>

record buffer =
  buffer_vec :: "byte list"
  write_index :: int
  read_index :: int

definition kInitialHeadSize :: int where
  "kInitialHeadSize = 8"

definition kInitialSize :: int where
  "kInitialSize = 1024"

definition mk_Buffer :: "int \<Rightarrow> buffer" where
  "mk_Buffer initialsize =
     \<lparr>buffer_vec = replicate (nat (kInitialHeadSize + initialsize)) 0,
      write_index = kInitialHeadSize, read_index = kInitialHeadSize\<rparr>"

definition readableBytes :: "buffer \<Rightarrow> int" where
  "readableBytes b = write_index b - read_index b"

definition writableBytes :: "buffer \<Rightarrow> int" where
  "writableBytes b = int (length (buffer_vec b)) - write_index b"

text \<open>A \<^verbatim>\<open>char*\<close> into the vector is the part of the vector from that position on.\<close>

definition peek :: "buffer \<Rightarrow> byte list" where
  "peek b = drop (nat (read_index b)) (buffer_vec b)"

definition retrieveAll :: "buffer \<Rightarrow> buffer" where
  "retrieveAll b = b\<lparr>read_index := kInitialHeadSize, write_index := kInitialHeadSize\<rparr>"

definition retrieve :: "int \<Rightarrow> buffer \<Rightarrow> buffer" where
  "retrieve len b =
     (if len < readableBytes b then b\<lparr>read_index := read_index b + len\<rparr> else retrieveAll b)"

text \<open>\<^verbatim>\<open>begin\<close> is position 0; \<^verbatim>\<open>beginWrite\<close> is the position the next byte goes to.\<close>

definition beginWrite :: "buffer \<Rightarrow> nat" where
  "beginWrite b = nat (write_index b)"

text \<open>\<^verbatim>\<open>std::vector::resize\<close>: cut, or extend with zero bytes.\<close>

definition resize :: "nat \<Rightarrow> byte list \<Rightarrow> byte list" where
  "resize n xs = take n xs @ replicate (n - length xs) 0"

definition makeSpace :: "int \<Rightarrow> buffer \<Rightarrow> buffer" where
  "makeSpace len b =
     (if writableBytes b < len
      then b\<lparr>buffer_vec := resize (nat (write_index b + len)) (buffer_vec b)\<rparr>
      else b)"

text \<open>The body of \<^verbatim>\<open>append\<close> once \<^verbatim>\<open>[data, data + len)\<close> is known to be readable.\<close>

definition append_bytes :: "byte list \<Rightarrow> buffer \<Rightarrow> buffer" where
  "append_bytes d b =
     (let b1 = makeSpace (int (length d)) b
      in b1\<lparr>buffer_vec := overwrite (buffer_vec b1) (beginWrite b1) d,
            write_index := write_index b1 + int (length d)\<rparr>)"

definition append :: "byte list \<Rightarrow> int \<Rightarrow> buffer \<Rightarrow> buffer res" where
  "append data len b =
     (if len < 0 \<or> int (length data) < len then Inl OutOfBounds
      else Inr (append_bytes (take (nat len) data) b))"

text \<open>
  The loop of \<^verbatim>\<open>readFd\<close>. The result is \<^verbatim>\<open>n\<close>, what was stored through \<^verbatim>\<open>savedErr\<close> (\<open>None\<close>: the
  stale \<^verbatim>\<open>errno\<close>, after a return value of 0) and the buffer. The kernel stores at most the
  \<^verbatim>\<open>writeable\<close> bytes it was offered.
\<close>

partial_function (option) readFd_loop ::
  "'w recv_call \<Rightarrow> int \<Rightarrow> buffer \<Rightarrow> int \<Rightarrow> 'w \<Rightarrow> ((int \<times> int option) \<times> buffer \<times> 'w) option"
where
  "readFd_loop recv fd b n w =
     (let writeable = writableBytes b
      in case recv fd (nat writeable) w of
           (RecvErr e, w') \<Rightarrow> Some ((n, Some e), b, w')
         | (RecvEof, w') \<Rightarrow> Some ((n, None), b, w')
         | (RecvData bs, w') \<Rightarrow>
             (let l = int (length bs);
                  b1 = b\<lparr>buffer_vec := overwrite (buffer_vec b) (beginWrite b) (take (nat writeable) bs)\<rparr>;
                  b2 = (if l \<le> writeable then b1\<lparr>write_index := write_index b1 + l\<rparr>
                        else b1\<lparr>write_index := int (length (buffer_vec b1))\<rparr>)
              in if l \<le> 0 then Some ((n, None), b, w') else readFd_loop recv fd b2 (n + l) w'))"

definition readFd ::
  "'w recv_call \<Rightarrow> int \<Rightarrow> buffer \<Rightarrow> 'w \<Rightarrow> ((int \<times> int option) \<times> buffer \<times> 'w) option" where
  "readFd recv fd b w = readFd_loop recv fd b 0 w"

section \<open>Invariant and abstraction\<close>

definition buf_ok :: "buffer \<Rightarrow> bool" where
  "buf_ok b \<longleftrightarrow> kInitialHeadSize \<le> read_index b \<and> read_index b \<le> write_index b
     \<and> write_index b \<le> int (length (buffer_vec b))"

definition buf_bytes :: "buffer \<Rightarrow> byte list" where
  "buf_bytes b = take (nat (readableBytes b)) (peek b)"

lemmas buffer_defs [model_defs] =
  kInitialHeadSize_def kInitialSize_def mk_Buffer_def readableBytes_def writableBytes_def
  peek_def retrieveAll_def retrieve_def beginWrite_def resize_def makeSpace_def
  buf_ok_def buf_bytes_def

lemma buf_ok_mk [simp, wf_intros]: "0 \<le> n \<Longrightarrow> buf_ok (mk_Buffer n)"
  by (simp add: buffer_defs)

lemma buf_bytes_mk [simp]: "buf_bytes (mk_Buffer n) = []"
  by (simp add: buffer_defs)

lemma buf_ok_nonneg: "buf_ok b \<Longrightarrow> 0 \<le> readableBytes b \<and> 0 \<le> writableBytes b"
  by (simp add: buffer_defs)

lemma length_buf_bytes: "buf_ok b \<Longrightarrow> int (length (buf_bytes b)) = readableBytes b"
  by (auto simp: buffer_defs min_def)

lemma buf_ok_retrieve [wf_intros]: "buf_ok b \<Longrightarrow> 0 \<le> n \<Longrightarrow> buf_ok (retrieve n b)"
  by (auto simp: buffer_defs)

lemma buf_ok_retrieveAll [simp, wf_intros]: "buf_ok b \<Longrightarrow> buf_ok (retrieveAll b)"
  by (auto simp: buffer_defs)

lemma buf_bytes_retrieveAll [simp]: "buf_bytes (retrieveAll b) = []"
  by (simp add: buffer_defs)

lemma buf_bytes_retrieve:
  assumes "buf_ok b" and "0 \<le> n"
  shows "buf_bytes (retrieve n b) = drop (nat n) (buf_bytes b)"
proof (cases "n < readableBytes b")
  case True
  with assms have "nat (read_index b + n) = nat n + nat (read_index b)"
    and "nat (write_index b - (read_index b + n)) = nat (write_index b - read_index b) - nat n"
    by (auto simp: buffer_defs nat_add_distrib nat_diff_distrib)
  with True show ?thesis by (simp add: buffer_defs drop_take)
next
  case False
  with assms show ?thesis by (simp add: buffer_defs)
qed

lemma buf_ok_makeSpace [wf_intros]: "buf_ok b \<Longrightarrow> buf_ok (makeSpace n b)"
  by (auto simp: buffer_defs)

lemma buf_bytes_makeSpace [simp]: "buf_ok b \<Longrightarrow> buf_bytes (makeSpace n b) = buf_bytes b"
  by (auto simp: buffer_defs min_def)

lemma makeSpace_indices [simp]:
  "write_index (makeSpace n b) = write_index b"
  "read_index (makeSpace n b) = read_index b"
  by (simp_all add: makeSpace_def)

lemma makeSpace_room: "buf_ok b \<Longrightarrow> n \<le> writableBytes (makeSpace n b)"
  by (auto simp: buffer_defs)

text \<open>Storing bytes behind the write index and advancing it, which \<open>append\<close> and \<open>readFd\<close> share.\<close>

definition store :: "byte list \<Rightarrow> buffer \<Rightarrow> buffer" where
  "store d b = b\<lparr>buffer_vec := overwrite (buffer_vec b) (beginWrite b) d,
                 write_index := write_index b + int (length d)\<rparr>"

lemma store_room:
  assumes "buf_ok b" and "int (length d) \<le> writableBytes b"
  shows "buf_ok (store d b)" and "buf_bytes (store d b) = buf_bytes b @ d"
    and "writableBytes (store d b) = writableBytes b - int (length d)"
proof -
  let ?r = "nat (read_index b)" and ?w = "nat (write_index b)"
  have rw: "?r \<le> ?w" "?w + length d \<le> length (buffer_vec b)" "0 \<le> read_index b" "0 \<le> write_index b"
    using assms by (auto simp: buffer_defs)
  then show "buf_ok (store d b)" and "writableBytes (store d b) = writableBytes b - int (length d)"
    using assms(1) by (auto simp: buffer_defs store_def)
  have "nat (write_index b + int (length d) - read_index b) = ?w + length d - ?r"
    using rw assms(1) by (auto simp: buffer_defs)
  then show "buf_bytes (store d b) = buf_bytes b @ d"
    using rw drop_overwrite_before[OF rw(1,2)]
    by (simp add: buffer_defs store_def nat_diff_distrib)
qed

lemma append_bytes_store: "append_bytes d b = store d (makeSpace (int (length d)) b)"
  by (simp add: append_bytes_def store_def Let_def)

lemma append_bytes_ok:
  assumes "buf_ok b"
  shows "buf_ok (append_bytes d b)" and "buf_bytes (append_bytes d b) = buf_bytes b @ d"
  using store_room[OF buf_ok_makeSpace[OF assms] makeSpace_room[OF assms], of d] assms
  by (simp_all add: append_bytes_store)

interpretation ccbuf: byte_queue buf_ok buf_bytes readableBytes append_bytes retrieve
  by unfold_locales
    (simp_all add: length_buf_bytes append_bytes_ok buf_bytes_retrieve buf_ok_retrieve)

text \<open>
  C8. Over any sequence of appends and (non-negative) retrieves a well-formed ccnet buffer is a
  FIFO: the bytes taken out, followed by the bytes still readable, are the bytes it held
  followed by everything appended, and the index invariant still holds. In particular growing
  the vector and resetting both indices to the head lose and invent nothing.
\<close>

theorem buffer_is_fifo:
  assumes "buf_ok b" and "queue_ops_ok ops"
    and "queue_run buf_bytes append_bytes retrieve ops b = (out, b')"
  shows "out @ buf_bytes b' = buf_bytes b @ queue_fed ops \<and> buf_ok b'"
  using assms by (rule ccbuf.run_fifo)

theorem buffer_is_fifo_witness:
  "buf_bytes (snd (queue_run buf_bytes append_bytes retrieve
      [QPut [1, 2, 3], QTake 2, QPut [4]] (mk_Buffer 1))) = [3, 4]"
proof -
  let ?ops = "[QPut [1, 2, 3], QTake 2, QPut [4]]"
  obtain out b' where r: "queue_run buf_bytes append_bytes retrieve ?ops (mk_Buffer 1) = (out, b')"
    by force
  have "out = [1, 2]"
    using r by (auto simp: append_bytes_ok buf_bytes_retrieve)
  with buffer_is_fifo[OF _ _ r] r show ?thesis
    by (simp add: queue_ops_ok_def)
qed

section \<open>Reading a socket into the buffer\<close>

text \<open>
  What the socket hands over while there is room: the specification of \<^verbatim>\<open>readFd\<close>, which knows
  nothing of indices or vectors.
\<close>

function drain :: "'w recv_call \<Rightarrow> int \<Rightarrow> nat \<Rightarrow> 'w \<Rightarrow> byte list \<times> int option \<times> 'w" where
  "drain recv fd room w =
     (case recv fd room w of
        (RecvErr e, w') \<Rightarrow> ([], Some e, w')
      | (RecvEof, w') \<Rightarrow> ([], None, w')
      | (RecvData bs, w') \<Rightarrow>
          (if 0 < length bs \<and> length bs \<le> room
           then (case drain recv fd (room - length bs) w' of
                   (ds, e, w'') \<Rightarrow> (bs @ ds, e, w''))
           else ([], None, w')))"
  by pat_completeness auto
termination
  by (relation "measure (\<lambda>(recv, fd, room, w). room)") (auto simp: length_greater_0_conv[symmetric] simp del: length_greater_0_conv)

declare drain.simps [simp del]

lemma readFd_loop_data:
  assumes "buf_ok b" and "recv fd (nat (writableBytes b)) w = (RecvData bs, w')"
    and "0 < length bs" and "length bs \<le> nat (writableBytes b)"
  shows "readFd_loop recv fd b n w = readFd_loop recv fd (store bs b) (n + int (length bs)) w'"
proof -
  have "int (length bs) \<le> writableBytes b" using assms(3,4) by linarith
  with assms show ?thesis
    by (subst readFd_loop.simps) (simp add: Let_def store_def)
qed

lemma readFd_loop_drain:
  "recv_documented recv \<Longrightarrow> buf_ok b \<Longrightarrow> drain recv fd (nat (writableBytes b)) w = (ds, e, w') \<Longrightarrow>
    \<exists>b'. readFd_loop recv fd b n w = Some ((n + int (length ds), e), b', w')
       \<and> buf_ok b' \<and> buf_bytes b' = buf_bytes b @ ds"
proof (induction recv fd "nat (writableBytes b)" w arbitrary: b n ds e w' rule: drain.induct)
  case (1 recv fd w)
  let ?room = "nat (writableBytes b)"
  obtain r w1 where rw: "recv fd ?room w = (r, w1)" by fastforce
  show ?case
  proof (cases r)
    case (RecvData bs)
    show ?thesis
    proof (cases "0 < length bs \<and> length bs \<le> ?room")
      case fits: True
      obtain ds1 e1 w2 where d1: "drain recv fd (?room - length bs) w1 = (ds1, e1, w2)"
        by (metis prod_cases3)
      have ds: "ds = bs @ ds1" "e = e1" "w' = w2"
        using "1.prems"(3) rw RecvData fits d1 by (simp_all add: drain.simps[of recv fd ?room])
      have room: "int (length bs) \<le> writableBytes b" using fits by linarith
      note st = store_room[OF "1.prems"(2) room]
      have "?room - length bs = nat (writableBytes (store bs b))"
        by (simp add: st(3) nat_diff_distrib')
      from "1.hyps"[OF rw[symmetric] RecvData fits this "1.prems"(1) st(1), of ds1 e1 w2 "n + int (length bs)"] d1 this
      show ?thesis
        using readFd_loop_data[of b recv fd w bs w1 n] "1.prems"(2) rw RecvData fits ds st(2)
        by (auto simp: add.assoc)
    next
      case False
      with recv_documentedD[OF "1.prems"(1)] rw RecvData show ?thesis by blast
    qed
  qed (use "1.prems" rw in \<open>auto simp: drain.simps[of recv fd ?room] readFd_loop.simps[of recv fd b]\<close>)
qed

text \<open>
  C9. Against a socket that behaves as documented, \<open>readFd\<close> on a well-formed buffer always
  returns, and it returns exactly what draining the socket into the free room gives: the
  readable bytes grow by the delivered bytes in order, the returned count is their number (so it
  is never negative, also when \<^verbatim>\<open>recv\<close> failed at once), the saved error is that of the last
  call, and the index invariant holds again.
\<close>

theorem readFd_refines_drain:
  assumes "recv_documented recv" and "buf_ok b"
    and "drain recv fd (nat (writableBytes b)) w = (ds, e, w')"
  shows "\<exists>b'. readFd recv fd b w = Some ((int (length ds), e), b', w')
     \<and> buf_ok b' \<and> buf_bytes b' = buf_bytes b @ ds"
  using readFd_loop_drain[OF assms, of 0] by (simp add: readFd_def)

theorem readFd_refines_drain_witness:
  "\<exists>b'. readFd scripted_recv 5 (mk_Buffer 4) [[1, 2, 3], [4, 5]] = Some ((4, None), b', [[5]])
     \<and> buf_ok b' \<and> buf_bytes b' = [1, 2, 3, 4]"
proof -
  have "drain scripted_recv 5 (nat (writableBytes (mk_Buffer 4))) [[1, 2, 3], [4, 5]]
      = ([1, 2, 3, 4], None, [[5]])"
    by (simp add: buffer_defs drain.simps)
  from readFd_refines_drain[OF scripted_recv_documented _ this] show ?thesis
    by simp
qed

text \<open>A failed first call is reported as the count 0, exactly like an orderly close.\<close>

lemma readFd_error_is_zero:
  assumes "recv fd (nat (writableBytes b)) w = (RecvErr e, w')"
  shows "readFd recv fd b w = Some ((0, Some e), b, w')"
  using assms by (simp add: readFd_def readFd_loop.simps)

lemma readFd_eof_is_zero:
  assumes "recv fd (nat (writableBytes b)) w = (RecvEof, w')"
  shows "readFd recv fd b w = Some ((0, None), b, w')"
  using assms by (simp add: readFd_def readFd_loop.simps)

end
