(* ===== verification/Machines.thy ===== *)
theory Machines
  imports Prelude
begin

text \<open>
  State machines: the loops and threads of the repository are step relations on their states, and what is
  proved of them is proved of every state they reach. The two locales are the contract that a component
  has to meet, one step at a time: a step keeps the invariant, and it moves along a preorder (nothing is
  ever taken back). Their lemmas carry both over to whole runs.
\<close>

locale machine =
  fixes step :: "'s \<Rightarrow> 's \<Rightarrow> bool"
    and inv :: "'s \<Rightarrow> bool"
  assumes inv_step: "inv s \<Longrightarrow> step s s' \<Longrightarrow> inv s'"
begin

lemma inv_run: "step\<^sup>*\<^sup>* s s' \<Longrightarrow> inv s \<Longrightarrow> inv s'"
  by (induction rule: rtranclp_induct) (auto intro: inv_step)

end

locale growing_machine = machine +
  fixes le :: "'a \<Rightarrow> 'a \<Rightarrow> bool"
  assumes le_refl: "le s s"
    and le_trans: "le s t \<Longrightarrow> le t u \<Longrightarrow> le s u"
    and le_step: "inv s \<Longrightarrow> step s s' \<Longrightarrow> le s s'"
begin

lemma le_run: "step\<^sup>*\<^sup>* s s' \<Longrightarrow> inv s \<Longrightarrow> le s s'"
proof (induction rule: rtranclp_induct)
  case base
  then show ?case by (simp add: le_refl)
next
  case (step t u)
  then have "inv t" using inv_run by blast
  with step show ?case using le_trans le_step by blast
qed

end

end
