(* ===== verification/LoopPool.thy ===== *)
theory LoopPool
  imports Machines
begin

text \<open>
  The I/O threads of ccnet: \<open>EventLoopThread\<close> (ccnet/net/EventLoopThread.cc), a handshake
  between the thread that calls \<open>startLoop\<close> and the thread that owns the loop, as a step
  relation whose steps are the regions under \<^verbatim>\<open>mutex_\<close>; and \<open>EventLoopThreadPool\<close>
  (EventLoopThreadPool.cc) as state-passing functions over loops of a type \<open>'l\<close>. The lemmas
  show that the handshake hands over the thread's own loop and cannot get stuck, that
  \<open>getNextLoop\<close> is a fair round robin, and what \<open>getLoopFroHash\<close> really computes.
\<close>

section \<open>EventLoopThread\<close>

text \<open>Where \<^verbatim>\<open>threadFunc\<close> and \<^verbatim>\<open>startLoop\<close> stand. \<open>AtWait\<close> is inside \<^verbatim>\<open>cond_.wait\<close>.\<close>

datatype loop_pc = Constructing | CallbackDone | Looping | LoopLeft | Finished

datatype 'l start_pc = AtCheck | AtWait | Returned 'l

record 'l loop_thread =
  own_loop :: 'l
  loop_ptr :: "'l option"
  ready :: bool
  thread_at :: loop_pc
  starter_at :: "'l start_pc"

definition mk_EventLoopThread :: "'l \<Rightarrow> 'l loop_thread" where
  "mk_EventLoopThread l =
     \<lparr>own_loop = l, loop_ptr = None, ready = False, thread_at = Constructing, starter_at = AtCheck\<rparr>"

inductive elt_step :: "'l loop_thread \<Rightarrow> 'l loop_thread \<Rightarrow> bool" where
  run_callback: "thread_at t = Constructing \<Longrightarrow> elt_step t (t\<lparr>thread_at := CallbackDone\<rparr>)"
| publish: "thread_at t = CallbackDone \<Longrightarrow>
    elt_step t (t\<lparr>loop_ptr := Some (own_loop t), ready := True, thread_at := Looping\<rparr>)"
| leave_loop: "thread_at t = Looping \<Longrightarrow> elt_step t (t\<lparr>thread_at := LoopLeft\<rparr>)"
| clear_loop: "thread_at t = LoopLeft \<Longrightarrow> elt_step t (t\<lparr>loop_ptr := None, thread_at := Finished\<rparr>)"
| check_null: "starter_at t = AtCheck \<Longrightarrow> loop_ptr t = None \<Longrightarrow> elt_step t (t\<lparr>starter_at := AtWait\<rparr>)"
| wake: "starter_at t = AtWait \<Longrightarrow> ready t \<Longrightarrow> elt_step t (t\<lparr>starter_at := AtCheck\<rparr>)"
| check_set: "starter_at t = AtCheck \<Longrightarrow> loop_ptr t = Some l \<Longrightarrow>
    elt_step t (t\<lparr>starter_at := Returned l\<rparr>)"

abbreviation elt_reach :: "'l \<Rightarrow> 'l loop_thread \<Rightarrow> bool" where
  "elt_reach l \<equiv> elt_step\<^sup>*\<^sup>* (mk_EventLoopThread l)"

definition elt_inv :: "'l \<Rightarrow> 'l loop_thread \<Rightarrow> bool" where
  "elt_inv l t \<longleftrightarrow>
     own_loop t = l
     \<and> (ready t \<longleftrightarrow> thread_at t \<in> {Looping, LoopLeft, Finished})
     \<and> loop_ptr t = (if thread_at t \<in> {Looping, LoopLeft} then Some l else None)
     \<and> (case starter_at t of Returned r \<Rightarrow> r = l \<and> ready t | _ \<Rightarrow> True)"

lemma elt_inv_init: "elt_inv l (mk_EventLoopThread l)"
  by (simp add: elt_inv_def mk_EventLoopThread_def)

lemma elt_step_inv: "elt_step t t' \<Longrightarrow> elt_inv l t \<Longrightarrow> elt_inv l t'"
  by (induction rule: elt_step.induct) (auto simp: elt_inv_def split: start_pc.splits if_splits)

interpretation elt: machine elt_step "elt_inv l" for l
  by unfold_locales (rule elt_step_inv)

lemma elt_reach_inv: "elt_reach l t \<Longrightarrow> elt_inv l t"
  by (erule elt.inv_run) (rule elt_inv_init)



text \<open>
  \<^verbatim>\<open>EventLoopThread::~EventLoopThread\<close> joins the thread: \<open>None\<close> while \<^verbatim>\<open>threadFunc\<close> has not returned. The pool's destructor
  destroys its threads one after the other.
\<close>

definition elt_destroy :: "'l loop_thread \<Rightarrow> unit option" where
  "elt_destroy t = (if thread_at t = Finished then Some () else None)"

fun pool_destroy :: "'l loop_thread list \<Rightarrow> unit option" where
  "pool_destroy [] = Some ()"
| "pool_destroy (t # ts) = (case elt_destroy t of None \<Rightarrow> None | Some _ \<Rightarrow> pool_destroy ts)"

text \<open>
  A step in which \<^verbatim>\<open>loop_->loop()\<close> does not return. Nothing in ccnet sets \<^verbatim>\<open>quit_\<close>, so these are all the steps there are,
  and a pool that has started a thread is never destroyed: the destructor waits for ever.
\<close>

definition serving_step :: "'l loop_thread \<Rightarrow> 'l loop_thread \<Rightarrow> bool" where
  "serving_step t t' \<longleftrightarrow> elt_step t t' \<and> thread_at t' \<noteq> LoopLeft"

interpretation serving: machine serving_step "\<lambda>t. thread_at t \<notin> {LoopLeft, Finished}"
  by unfold_locales (auto simp: serving_step_def elim!: elt_step.cases)

lemma serving_never_destroyed:
  assumes "\<And>t. t \<in> set ts \<Longrightarrow> \<exists>l. serving_step\<^sup>*\<^sup>* (mk_EventLoopThread l) t" and "ts \<noteq> []"
  shows "pool_destroy ts = None"
proof -
  have "thread_at t \<noteq> Finished" if t: "t \<in> set ts" for t
    using serving.inv_run assms(1)[OF t] by (fastforce simp: mk_EventLoopThread_def)
  with assms(2) show ?thesis by (cases ts) (auto simp: elt_destroy_def)
qed

section \<open>EventLoopThreadPool\<close>

record 'l loop_pool =
  base_loop :: 'l
  pool_name :: string
  started :: bool
  num_threads :: int
  next_index :: int
  loops :: "'l list"

definition mk_EventLoopThreadPool :: "'l \<Rightarrow> string \<Rightarrow> 'l loop_pool" where
  "mk_EventLoopThreadPool loop name =
     \<lparr>base_loop = loop, pool_name = name, started = False, num_threads = 0, next_index = 0, loops = []\<rparr>"

definition setThreadNum :: "int \<Rightarrow> 'l loop_pool \<Rightarrow> 'l loop_pool" where
  "setThreadNum n p = p\<lparr>num_threads := n\<rparr>"

text \<open>
  \<open>spawn i\<close> is the loop the \<open>i\<close>-th new thread returns from \<open>startLoop\<close>; the name of the thread, printed with \<^verbatim>\<open>%s\<close> from a
  string object, is left out. The result names the loops
  the initialisation callback (if there is one) runs on.
\<close>

definition pool_start :: "(nat \<Rightarrow> 'l) \<Rightarrow> bool \<Rightarrow> 'l loop_pool \<Rightarrow> 'l list \<times> 'l loop_pool" where
  "pool_start spawn has_cb p =
     (let new = map spawn [0..<nat (num_threads p)]
      in ((if has_cb then (if num_threads p = 0 then [base_loop p] else new) else []),
          p\<lparr>loops := loops p @ new, started := True\<rparr>))"

text \<open>
  The pool over the handshakes: when \<open>start\<close> has come through, every new thread's \<open>startLoop\<close> has returned, and the loops
  the pool has gained are the loops those threads run, in order.
\<close>

lemma pool_start_own_loops:
  assumes "\<And>i. i < nat (num_threads p) \<Longrightarrow> elt_reach (own i) (ts i) \<and> starter_at (ts i) = Returned (spawn i)"
  shows "loops (snd (pool_start spawn cb p)) = loops p @ map own [0..<nat (num_threads p)]"
proof -
  have "spawn i = own i" if "i < nat (num_threads p)" for i
    using elt_reach_inv[of "own i" "ts i"] assms[OF that] by (auto simp: elt_inv_def)
  then show ?thesis by (simp add: pool_start_def Let_def)
qed

definition getNextLoop :: "'l loop_pool \<Rightarrow> 'l res \<times> 'l loop_pool" where
  "getNextLoop p =
     (if loops p = [] then (Inr (base_loop p), p)
      else if next_index p < 0 \<or> int (length (loops p)) \<le> next_index p then (Inl OutOfBounds, p)
      else (Inr (loops p ! nat (next_index p)),
            p\<lparr>next_index := (if int (length (loops p)) \<le> next_index p + 1 then 0 else next_index p + 1)\<rparr>))"

definition getLoopFroHash :: "nat \<Rightarrow> 'l loop_pool \<Rightarrow> 'l res" where
  "getLoopFroHash hash_code p =
     (if loops p = [] then
        (if length (loops p) = 0 then Inl DivByZero
         else Inr (loops p ! (hash_code mod length (loops p))))
      else Inr (base_loop p))"

definition getAllLoops :: "'l loop_pool \<Rightarrow> 'l list" where
  "getAllLoops p = (if loops p = [] then [base_loop p] else loops p)"

fun next_loops :: "nat \<Rightarrow> 'l loop_pool \<Rightarrow> 'l res list \<times> 'l loop_pool" where
  "next_loops 0 p = ([], p)"
| "next_loops (Suc k) p =
     (let (l, p1) = getNextLoop p; (ls, p2) = next_loops k p1 in (l # ls, p2))"

definition pool_ok :: "'l loop_pool \<Rightarrow> bool" where
  "pool_ok p \<longleftrightarrow> 0 \<le> next_index p \<and> (loops p \<noteq> [] \<longrightarrow> next_index p < int (length (loops p)))"

lemma pool_ok_start [wf_intros]:
  "pool_ok p \<Longrightarrow> loops p \<noteq> [] \<or> next_index p = 0 \<Longrightarrow> pool_ok (snd (pool_start spawn cb p))"
  by (cases "loops p = []") (auto simp: pool_start_def pool_ok_def Let_def add_pos_nonneg)

lemma getNextLoop_round:
  assumes "pool_ok p" and "loops p \<noteq> []"
  shows "getNextLoop p = (Inr (loops p ! nat (next_index p)),
    p\<lparr>next_index := (next_index p + 1) mod int (length (loops p))\<rparr>)"
proof -
  have "(if int (length (loops p)) \<le> next_index p + 1 then 0 else next_index p + 1)
      = (next_index p + 1) mod int (length (loops p))"
    using assms by (cases "next_index p + 1 = int (length (loops p))") (auto simp: pool_ok_def)
  with assms show ?thesis by (auto simp: getNextLoop_def pool_ok_def)
qed

lemma pool_ok_next [wf_intros]:
  "pool_ok p \<Longrightarrow> loops p \<noteq> [] \<Longrightarrow> pool_ok (p\<lparr>next_index := i mod int (length (loops p))\<rparr>)"
  by (simp add: pool_ok_def)

lemma next_loops_round:
  assumes "pool_ok p" and "loops p \<noteq> []"
  shows "fst (next_loops k p)
    = map (\<lambda>j. Inr (loops p ! (nat (next_index p + int j) mod length (loops p)))) [0..<k]"
  using assms
proof (induction k arbitrary: p)
  case (Suc k)
  let ?n = "length (loops p)"
  let ?p' = "p\<lparr>next_index := (next_index p + 1) mod int ?n\<rparr>"
  have n0: "0 < ?n" using Suc.prems(2) by simp
  have i: "0 \<le> next_index p" "nat (next_index p) < ?n" using Suc.prems by (auto simp: pool_ok_def)
  have shift: "nat ((next_index p + 1) mod int ?n + int j) mod ?n = nat (next_index p + int (Suc j)) mod ?n" for j
    using i(1) n0
    by (simp add: nat_add_distrib nat_mod_distrib mod_simps flip: of_nat_Suc)
  have "fst (next_loops k ?p') = map (\<lambda>j. Inr (loops p ! (nat (next_index p + int (Suc j)) mod ?n))) [0..<k]"
    using Suc.IH[of ?p'] pool_ok_next[OF Suc.prems] Suc.prems(2) shift by simp
  then show ?case
    using getNextLoop_round[OF Suc.prems] i
    by (simp add: Let_def split_beta map_Suc_upt[symmetric] upt_conv_Cons del: upt_Suc)
qed simp

text \<open>
  \<open>getNextLoop\<close> deals loops out in turn: from a pool with \<open>n\<close> loops, the \<open>j\<close>-th of any number of
  calls returns loop \<open>(next + j) mod n\<close>, so within any \<open>n\<close> calls every loop is returned once, and no
  call reads outside the vector.
\<close>

theorem getNextLoop_round_robin:
  assumes "pool_ok p" and "loops p \<noteq> []" and "j < k"
  shows "fst (next_loops k p) ! j = Inr (loops p ! (nat (next_index p + int j) mod length (loops p)))"
  using assms by (simp add: next_loops_round)

theorem getNextLoop_round_robin_witness:
  "fst (next_loops 5 (snd (pool_start (\<lambda>i. 10 + i) False
      (setThreadNum 3 (mk_EventLoopThreadPool (0 :: nat) ''p''))))) ! 4 = Inr 11"
  using getNextLoop_round_robin[of "snd (pool_start (\<lambda>i. 10 + i) False
      (setThreadNum 3 (mk_EventLoopThreadPool (0 :: nat) ''p'')))" 4 5]
  by (simp add: pool_start_def setThreadNum_def mk_EventLoopThreadPool_def pool_ok_def Let_def
      upt_rec[of _ 3])

text \<open>
  \<open>getLoopFroHash\<close> tests for emptiness the wrong way round: on a pool without loops it divides by
  the size 0, and on a pool with loops it ignores the hash and returns the base loop.
\<close>

lemma getLoopFroHash_inverted:
  "getLoopFroHash h p = (if loops p = [] then Inl DivByZero else Inr (base_loop p))"
  by (simp add: getLoopFroHash_def)

end
