(* ===== verification/NetServer.thy ===== *)
theory NetServer
  imports NetBuffer Reactor LoopPool
begin

text \<open>
  The TCP server of ccnet: \<open>TcpAddr\<close>, \<open>Socket\<close>, \<open>Acceptor\<close>, \<open>TcpConnection\<close>, \<open>TcpServer\<close> (under
  ccnet/net) and the echo application (ccnet/example). The state is one server with the
  connection objects in an explicit heap: \<^verbatim>\<open>shared_ptr\<close> ownership is the connection table plus the
  guard of the event being handled, and reaching a freed object is \<open>UseAfterFree\<close>. Everything runs
  in one loop thread, as \<^verbatim>\<open>newConnection\<close> hands every connection to the base loop and \<^verbatim>\<open>runInLoop\<close>
  calls its functor at once. The application callbacks and the operating system are arguments.
\<close>

section \<open>Addresses and sockets\<close>

record sock_addr =
  sin_family :: int
  sin_port :: "16 word"
  sin_addr :: u32

definition zero_addr :: sock_addr where
  "zero_addr = \<lparr>sin_family = 0, sin_port = 0, sin_addr = 0\<rparr>"

definition htons :: "16 word \<Rightarrow> 16 word" where
  "htons x = push_bit 8 x OR drop_bit 8 x"

definition AF_INET :: int where
  "AF_INET = 2"

definition mk_TcpAddr :: "16 word \<Rightarrow> sock_addr" where
  "mk_TcpAddr port = zero_addr\<lparr>sin_addr := 0, sin_family := AF_INET, sin_port := htons port\<rparr>"

text \<open>
  The system calls, over a world \<open>'w\<close>. \<open>os_accept\<close> and \<open>os_getsockname\<close> take the room offered for an
  address and return what was stored there, if anything.
\<close>

record 'w os =
  os_socket :: "int \<Rightarrow> 'w \<Rightarrow> int \<times> 'w"
  os_bind :: "int \<Rightarrow> sock_addr \<Rightarrow> 'w \<Rightarrow> int \<times> 'w"
  os_listen :: "int \<Rightarrow> int \<Rightarrow> 'w \<Rightarrow> int \<times> 'w"
  os_accept :: "int \<Rightarrow> nat \<Rightarrow> 'w \<Rightarrow> (int \<times> sock_addr option) \<times> 'w"
  os_getsockname :: "int \<Rightarrow> nat \<Rightarrow> 'w \<Rightarrow> (int \<times> sock_addr option) \<times> 'w"
  os_recv :: "'w recv_call"
  os_send :: "'w send_call"

record socket =
  sock_addr :: sock_addr
  sock_fd :: int

definition createSocket :: "'w os \<Rightarrow> socket \<Rightarrow> 'w \<Rightarrow> int \<times> socket \<times> 'w" where
  "createSocket os sk w =
     (let (fd, w') = os_socket os (sin_family (sock_addr sk)) w
      in (if fd = - 1 then - 1 else 0, sk\<lparr>sock_fd := fd\<rparr>, w'))"

definition socket_bind :: "'w os \<Rightarrow> socket \<Rightarrow> 'w \<Rightarrow> int \<times> 'w" where
  "socket_bind os sk w =
     (let (r, w') = os_bind os (sock_fd sk) (sock_addr sk) w in (if r = - 1 then - 1 else 0, w'))"

definition socket_listen :: "'w os \<Rightarrow> socket \<Rightarrow> 'w \<Rightarrow> int \<times> 'w" where
  "socket_listen os sk w =
     (let (r, w') = os_listen os (sock_fd sk) 5 w in (if r = - 1 then - 1 else 0, w'))"

text \<open>\<^verbatim>\<open>Socket::accept\<close> offers room for 0 bytes of address; the address was cleared before.\<close>

definition socket_accept :: "'w os \<Rightarrow> int \<Rightarrow> sock_addr \<Rightarrow> 'w \<Rightarrow> (int \<times> sock_addr) \<times> 'w" where
  "socket_accept os fd per_addr w =
     (case os_accept os fd 0 w of
        ((connfd, stored), w') \<Rightarrow>
          let addr = (case stored of None \<Rightarrow> zero_addr | Some a \<Rightarrow> a)
          in ((connfd, if 0 \<le> connfd then addr else per_addr), w'))"

text \<open>\<^verbatim>\<open>TcpServer::getSockAddr\<close> (and the identical \<^verbatim>\<open>Socket::getSockAddr\<close>); a failure is only printed.\<close>

definition getSockAddr :: "'w os \<Rightarrow> int \<Rightarrow> 'w \<Rightarrow> sock_addr \<times> 'w" where
  "getSockAddr os sockfd w =
     (case os_getsockname os sockfd 16 w of
        ((r, stored), w') \<Rightarrow> (case stored of None \<Rightarrow> zero_addr | Some a \<Rightarrow> a, w'))"

section \<open>Connections and the server\<close>

datatype conn_state = kDisconnected | kConnecting | kConnected | kDisconnecting

datatype chan_ptr = AcceptChan | ConnChan nat

datatype sys_call = SysShutdownWr int | SysClose int | SysSend int "byte list"

record tcp_conn =
  conn_name :: string
  conn_fd :: int
  cstate :: conn_state
  local_addr :: sock_addr
  peer_addr :: sock_addr
  input_buffer :: buffer
  output_buffer :: buffer
  chan :: channel
  tied :: bool
  conn_socket :: "int option"

record tcp_server =
  srv_name :: string
  next_conn_id :: int
  connections :: "(string, nat) std_map"
  heap :: "nat \<rightharpoonup> tcp_conn"
  next_obj :: nat
  srv_poller :: "chan_ptr poller"
  listen_sock :: socket
  accept_chan :: channel
  newconn_cb :: bool
  srv_pool :: "nat loop_pool"
  sys_log :: "sys_call list"

text \<open>The two callbacks an application installs; a connection is named by its heap address.\<close>

record app =
  on_connect :: "nat \<Rightarrow> tcp_server \<Rightarrow> tcp_server res"
  on_message :: "nat \<Rightarrow> tcp_server \<Rightarrow> tcp_server res"

definition get_conn :: "nat \<Rightarrow> tcp_server \<Rightarrow> tcp_conn res" where
  "get_conn i s = (case heap s i of None \<Rightarrow> Inl UseAfterFree | Some c \<Rightarrow> Inr c)"

definition put_conn :: "nat \<Rightarrow> tcp_conn \<Rightarrow> tcp_server \<Rightarrow> tcp_server" where
  "put_conn i c s = s\<lparr>heap := (heap s)(i \<mapsto> c)\<rparr>"

text \<open>A channel operation of connection \<open>i\<close>: change \<^verbatim>\<open>events_\<close>, then \<^verbatim>\<open>update()\<close> through the loop.\<close>

definition conn_channel :: "(channel \<Rightarrow> channel) \<Rightarrow> nat \<Rightarrow> tcp_server \<Rightarrow> tcp_server res" where
  "conn_channel f i s =
     bind_res (get_conn i s) (\<lambda>c.
       let c' = c\<lparr>chan := f (chan c)\<rparr>
       in Inr ((put_conn i c' s)\<lparr>srv_poller := updateChannel (ConnChan i) (chan c') (srv_poller s)\<rparr>))"

text \<open>The constructor leaves \<^verbatim>\<open>conn_state_\<close> uninitialised (\<open>junk\<close>) and never creates \<^verbatim>\<open>socket_\<close>.\<close>

definition mk_TcpConnection ::
  "conn_state \<Rightarrow> string \<Rightarrow> int \<Rightarrow> sock_addr \<Rightarrow> sock_addr \<Rightarrow> tcp_conn" where
  "mk_TcpConnection junk name sockfd localaddr peeraddr =
     \<lparr>conn_name = name, conn_fd = sockfd, cstate = junk, local_addr = localaddr,
      peer_addr = peeraddr, input_buffer = mk_Buffer kInitialSize,
      output_buffer = mk_Buffer kInitialSize, chan = mk_Channel sockfd, tied = False,
      conn_socket = None\<rparr>"

definition connectEstablished :: "app \<Rightarrow> nat \<Rightarrow> tcp_server \<Rightarrow> tcp_server res" where
  "connectEstablished ap i s =
     bind_res (get_conn i s) (\<lambda>c.
     bind_res (conn_channel ev_enableReading i (put_conn i (c\<lparr>cstate := kConnected\<rparr>) s)) (\<lambda>s1.
     bind_res (get_conn i s1) (\<lambda>c1. on_connect ap i (put_conn i (c1\<lparr>tied := True\<rparr>) s1))))"

definition connectDestroyed :: "app \<Rightarrow> nat \<Rightarrow> tcp_server \<Rightarrow> tcp_server res" where
  "connectDestroyed ap i s =
     bind_res (get_conn i s) (\<lambda>c.
       if cstate c = kConnected
       then bind_res (conn_channel ev_disableAll i (put_conn i (c\<lparr>cstate := kDisconnected\<rparr>) s)) (on_connect ap i)
       else Inr s)"

definition sendInLoop :: "nat \<Rightarrow> byte list \<Rightarrow> int \<Rightarrow> tcp_server \<Rightarrow> tcp_server res" where
  "sendInLoop i data len s =
     bind_res (get_conn i s) (\<lambda>c.
       if cstate c = kConnected
       then bind_res (append data len (output_buffer c)) (\<lambda>b.
              let s1 = put_conn i (c\<lparr>output_buffer := b\<rparr>) s
              in if isWriting (chan c) then Inr s1 else conn_channel ev_enableWriting i s1)
       else Inr s)"

definition tcp_send :: "nat \<Rightarrow> buffer \<Rightarrow> tcp_server \<Rightarrow> tcp_server res" where
  "tcp_send i msg s =
     bind_res (get_conn i s) (\<lambda>c.
       if cstate c = kConnected then sendInLoop i (peek msg) (readableBytes msg) s else Inr s)"

definition shutdownInLoop :: "nat \<Rightarrow> tcp_server \<Rightarrow> tcp_server res" where
  "shutdownInLoop i s =
     bind_res (get_conn i s) (\<lambda>c.
       if isWriting (chan c) then Inr s
       else (case conn_socket c of
               None \<Rightarrow> Inl NullDeref
             | Some fd \<Rightarrow> Inr (s\<lparr>sys_log := sys_log s @ [SysShutdownWr fd]\<rparr>)))"

definition tcp_shutdown :: "nat \<Rightarrow> tcp_server \<Rightarrow> tcp_server res" where
  "tcp_shutdown i s =
     bind_res (get_conn i s) (\<lambda>c.
       if cstate c = kConnected
       then shutdownInLoop i (put_conn i (c\<lparr>cstate := kDisconnecting\<rparr>) s)
       else Inr s)"

definition removeConnectionInLoop :: "app \<Rightarrow> nat \<Rightarrow> tcp_server \<Rightarrow> tcp_server res" where
  "removeConnectionInLoop ap i s =
     bind_res (get_conn i s) (\<lambda>c.
       connectDestroyed ap i (s\<lparr>connections := map_erase (conn_name c) (connections s)\<rparr>))"

text \<open>\<^verbatim>\<open>close_callback_\<close> is \<^verbatim>\<open>TcpServer::removeConnection\<close>, which calls \<^verbatim>\<open>removeConnectionInLoop\<close> in place.\<close>

definition handleClose :: "app \<Rightarrow> nat \<Rightarrow> tcp_server \<Rightarrow> tcp_server res" where
  "handleClose ap i s =
     bind_res (get_conn i s) (\<lambda>c.
     bind_res (conn_channel ev_disableAll i (put_conn i (c\<lparr>cstate := kDisconnected\<rparr>) s))
       (removeConnectionInLoop ap i))"

definition handleRead :: "app \<Rightarrow> 'w os \<Rightarrow> nat \<Rightarrow> tcp_server \<times> 'w \<Rightarrow> (tcp_server \<times> 'w) run" where
  "handleRead ap os i sw =
     (let (s, w) = sw
      in bind_run (Some (get_conn i s)) (\<lambda>c.
           case readFd (os_recv os) (ch_fd (chan c)) (input_buffer c) w of
             None \<Rightarrow> None
           | Some ((n, saved), b, w') \<Rightarrow>
               (let s1 = put_conn i (c\<lparr>input_buffer := b\<rparr>) s
                in if 0 < n then bind_run (Some (on_message ap i s1)) (\<lambda>s2. Some (Inr (s2, w')))
                   else if n = 0 then bind_run (Some (handleClose ap i s1)) (\<lambda>s2. Some (Inr (s2, w')))
                   else Some (Inr (s1, w')))))"

definition handleWrite :: "'w os \<Rightarrow> nat \<Rightarrow> tcp_server \<times> 'w \<Rightarrow> (tcp_server \<times> 'w) run" where
  "handleWrite os i sw =
     (let (s, w) = sw
      in bind_run (Some (get_conn i s)) (\<lambda>c.
           if isWriting (chan c)
           then (let out = take (nat (readableBytes (output_buffer c))) (peek (output_buffer c));
                     (n, w') = os_send os (ch_fd (chan c)) out w
                 in if 0 < n
                    then (let b = retrieve n (output_buffer c);
                              s1 = (put_conn i (c\<lparr>output_buffer := b\<rparr>) s)
                                     \<lparr>sys_log := sys_log s @ [SysSend (ch_fd (chan c)) (take (nat n) out)]\<rparr>
                          in if readableBytes b = 0
                             then bind_run (Some (conn_channel ev_disableWriting i s1)) (\<lambda>s2. Some (Inr (s2, w')))
                             else Some (Inr (s1, w')))
                    else Some (Inr (s, w')))
           else Some (Inr (s, w))))"

text \<open>
  \<^verbatim>\<open>TcpServer::newConnection\<close>. The counter \<^verbatim>\<open>nextConnId_\<close> is an \<^verbatim>\<open>int\<close>, whose increment overflows at its maximum.
  Storing under a name that is in use drops the last owner of the old connection.
\<close>

definition newConnection ::
  "conn_state \<Rightarrow> app \<Rightarrow> 'w os \<Rightarrow> int \<Rightarrow> sock_addr \<Rightarrow> tcp_server \<times> 'w \<Rightarrow> (tcp_server \<times> 'w) res" where
  "newConnection junk ap os sockfd peerAddr sw =
     (let (s, w) = sw;
          (localaddr, w') = getSockAddr os sockfd w;
          connName = srv_name s @ '':'' @ dec_int (next_conn_id s);
          i = next_obj s;
          old = map_of (connections s) connName;
          hp = (case old of None \<Rightarrow> heap s | Some j \<Rightarrow> (heap s)(j := None));
          s1 = s\<lparr>next_conn_id := next_conn_id s + 1, next_obj := Suc i,
                 connections := map_put connName i (connections s),
                 heap := hp(i \<mapsto> mk_TcpConnection junk connName sockfd localaddr peerAddr)\<rparr>
      in if 2 ^ 31 \<le> next_conn_id s + 1 then Inl SignedOverflow
         else bind_res (connectEstablished ap i s1) (\<lambda>s2. Inr (s2, w')))"

text \<open>\<^verbatim>\<open>Acceptor::handleRead\<close>; without a callback it closes the listening socket.\<close>

definition acceptor_handleRead ::
  "conn_state \<Rightarrow> app \<Rightarrow> 'w os \<Rightarrow> tcp_server \<times> 'w \<Rightarrow> (tcp_server \<times> 'w) res" where
  "acceptor_handleRead junk ap os sw =
     (let (s, w) = sw
      in case socket_accept os (sock_fd (listen_sock s)) zero_addr w of
           ((connfd, peer), w') \<Rightarrow>
             if 0 \<le> connfd
             then (if newconn_cb s then newConnection junk ap os connfd peer (s, w')
                   else Inr (s\<lparr>sys_log := sys_log s @ [SysClose (sock_fd (listen_sock s))]\<rparr>, w'))
             else Inr (s, w'))"

section \<open>Event dispatch\<close>

text \<open>Dropping the guard of \<^verbatim>\<open>handleEvent\<close>: the object dies unless the table still owns it.\<close>

definition release :: "nat \<Rightarrow> tcp_server \<Rightarrow> tcp_server" where
  "release i s = (if i \<in> snd ` set (connections s) then s else s\<lparr>heap := (heap s)(i := None)\<rparr>)"

definition handleEvent_conn :: "app \<Rightarrow> 'w os \<Rightarrow> nat \<Rightarrow> tcp_server \<times> 'w \<Rightarrow> (tcp_server \<times> 'w) run" where
  "handleEvent_conn ap os i sw =
     bind_run (Some (get_conn i (fst sw))) (\<lambda>c.
       let rev = revents (chan c)
       in bind_run (if has rev EPOLLHUP \<and> \<not> has rev EPOLLIN
                    then bind_run (Some (handleClose ap i (fst sw))) (\<lambda>s1. Some (Inr (s1, snd sw)))
                    else Some (Inr sw)) (\<lambda>sw1.
          bind_run (if has rev (EPOLLIN OR EPOLLPRI OR EPOLLRDHUP) then handleRead ap os i sw1
                    else Some (Inr sw1)) (\<lambda>sw2.
          bind_run (if has rev EPOLLOUT then handleWrite os i sw2 else Some (Inr sw2)) (\<lambda>sw3.
            Some (Inr (release i (fst sw3), snd sw3))))))"

definition handleEvent ::
  "conn_state \<Rightarrow> app \<Rightarrow> 'w os \<Rightarrow> chan_ptr \<Rightarrow> tcp_server \<times> 'w \<Rightarrow> (tcp_server \<times> 'w) run" where
  "handleEvent junk ap os ptr sw =
     (case ptr of
        AcceptChan \<Rightarrow>
          (if has (revents (accept_chan (fst sw))) (EPOLLIN OR EPOLLPRI OR EPOLLRDHUP)
           then Some (acceptor_handleRead junk ap os sw) else Some (Inr sw))
      | ConnChan i \<Rightarrow> handleEvent_conn ap os i sw)"

text \<open>\<^verbatim>\<open>channel->setEvents\<close> for every reported channel, as \<^verbatim>\<open>EPollPoller::poll\<close> does.\<close>

fun set_revents :: "(u32 \<times> chan_ptr) list \<Rightarrow> tcp_server \<Rightarrow> tcp_server res" where
  "set_revents [] s = Inr s"
| "set_revents ((ev, AcceptChan) # evs) s =
     set_revents evs (s\<lparr>accept_chan := setEvents ev (accept_chan s)\<rparr>)"
| "set_revents ((ev, ConnChan i) # evs) s =
     bind_res (get_conn i s) (\<lambda>c. set_revents evs (put_conn i (c\<lparr>chan := setEvents ev (chan c)\<rparr>) s))"

fun run_active ::
  "conn_state \<Rightarrow> app \<Rightarrow> 'w os \<Rightarrow> chan_ptr list \<Rightarrow> tcp_server \<times> 'w \<Rightarrow> (tcp_server \<times> 'w) run" where
  "run_active junk ap os [] sw = Some (Inr sw)"
| "run_active junk ap os (ptr # ptrs) sw =
     bind_run (handleEvent junk ap os ptr sw) (run_active junk ap os ptrs)"

text \<open>One pass of the body of \<^verbatim>\<open>EventLoop::loop\<close>; \<open>wait\<close> is what \<^verbatim>\<open>epoll_wait\<close> returned.\<close>

definition loop_round ::
  "conn_state \<Rightarrow> app \<Rightarrow> 'w os \<Rightarrow> int + (u32 \<times> chan_ptr) list \<Rightarrow> tcp_server \<times> 'w \<Rightarrow> (tcp_server \<times> 'w) run" where
  "loop_round junk ap os wait sw =
     (let (active, p) = poll wait (srv_poller (fst sw))
      in bind_run (Some (set_revents active ((fst sw)\<lparr>srv_poller := p\<rparr>))) (\<lambda>s1.
           run_active junk ap os (map snd active) (s1, snd sw)))"

section \<open>Construction and start\<close>

text \<open>\<^verbatim>\<open>TcpServer\<close>'s constructor with the \<^verbatim>\<open>Acceptor\<close> it creates; failures of socket and bind go unnoticed.\<close>

definition mk_TcpServer :: "'w os \<Rightarrow> nat \<Rightarrow> sock_addr \<Rightarrow> string \<Rightarrow> 'w \<Rightarrow> tcp_server \<times> 'w" where
  "mk_TcpServer os loop addr name w =
     (let (r, sk, w1) = createSocket os \<lparr>sock_addr = addr, sock_fd = 0\<rparr> w;
          (r2, w2) = socket_bind os sk w1
      in (\<lparr>srv_name = name, next_conn_id = 0, connections = [], heap = Map.empty, next_obj = 0,
           srv_poller = mk_EPollPoller, listen_sock = sk, accept_chan = mk_Channel (sock_fd sk),
           newconn_cb = True, srv_pool = mk_EventLoopThreadPool loop name, sys_log = []\<rparr>, w2))"

definition setNumThreads :: "int \<Rightarrow> tcp_server \<Rightarrow> tcp_server" where
  "setNumThreads n s = s\<lparr>srv_pool := setThreadNum n (srv_pool s)\<rparr>"

definition acceptor_listen :: "'w os \<Rightarrow> tcp_server \<times> 'w \<Rightarrow> tcp_server \<times> 'w" where
  "acceptor_listen os sw =
     (let (s, w) = sw;
          (r, w') = socket_listen os (listen_sock s) w;
          ch = ev_enableConnecting (accept_chan s)
      in (s\<lparr>accept_chan := ch, srv_poller := updateChannel AcceptChan ch (srv_poller s)\<rparr>, w'))"

definition server_start :: "'w os \<Rightarrow> (nat \<Rightarrow> nat) \<Rightarrow> tcp_server \<times> 'w \<Rightarrow> tcp_server \<times> 'w" where
  "server_start os spawn sw =
     acceptor_listen os ((fst sw)\<lparr>srv_pool := snd (pool_start spawn False (srv_pool (fst sw)))\<rparr>, snd sw)"

text \<open>\<^verbatim>\<open>Acceptor::~Acceptor\<close>.\<close>

definition acceptor_destroy :: "tcp_server \<Rightarrow> tcp_server" where
  "acceptor_destroy s =
     (let ch = ev_disableAll (accept_chan s)
      in s\<lparr>accept_chan := ch,
           srv_poller := removeChannel AcceptChan ch (updateChannel AcceptChan ch (srv_poller s))\<rparr>)"

section \<open>Applications\<close>

text \<open>The default callbacks only print.\<close>

definition default_app :: app where
  "default_app = \<lparr>on_connect = (\<lambda>i s. Inr s), on_message = (\<lambda>i s. Inr s)\<rparr>"

text \<open>
  \<^verbatim>\<open>EchoServer::onMessage\<close>: the \<^verbatim>\<open>printf\<close> with \<^verbatim>\<open>%s\<close> reads from \<^verbatim>\<open>peek()\<close> up to a NUL, which must come before the
  end of the vector; then the readable bytes are sent back and dropped.
\<close>

definition echo_onMessage :: "nat \<Rightarrow> tcp_server \<Rightarrow> tcp_server res" where
  "echo_onMessage i s =
     bind_res (get_conn i s) (\<lambda>c.
       if 0 \<notin> set (peek (input_buffer c)) then Inl OutOfBounds
       else bind_res (tcp_send i (input_buffer c) s) (\<lambda>s1.
            bind_res (get_conn i s1) (\<lambda>c1.
              Inr (put_conn i (c1\<lparr>input_buffer := retrieveAll (input_buffer c1)\<rparr>) s1))))"

definition echo_app :: app where
  "echo_app = \<lparr>on_connect = (\<lambda>i s. Inr s), on_message = echo_onMessage\<rparr>"

definition echo_main :: "'w os \<Rightarrow> (nat \<Rightarrow> nat) \<Rightarrow> 'w \<Rightarrow> tcp_server \<times> 'w" where
  "echo_main os spawn w =
     (let (s, w1) = mk_TcpServer os 0 (mk_TcpAddr 8883) ''EchoServer'' w
      in server_start os spawn (setNumThreads 4 s, w1))"

end
