(* ===== verification/NetServerInv.thy ===== *)
theory NetServerInv
  imports NetServer
begin

text \<open>
  Correctness of the ccnet server: the invariant that ties the connection table, the heap of
  connection objects and the poller together; that every event keeps it, so that no event of a
  loop round reaches a freed connection; uniqueness of connection names; what closing does; and
  the end-to-end behaviour of the echo application. The application callbacks enter through the
  locale \<open>server_app\<close>, interpreted on the default and on the echo application.
\<close>

section \<open>The server invariant\<close>

definition conn_ok :: "nat \<Rightarrow> tcp_conn \<Rightarrow> tcp_server \<Rightarrow> bool" where
  "conn_ok i c s \<longleftrightarrow>
     cstate c \<in> {kConnected, kDisconnecting}
     \<and> ch_fd (chan c) = conn_fd c \<and> isReading (chan c)
     \<and> buf_ok (input_buffer c) \<and> buf_ok (output_buffer c)
     \<and> (buf_bytes (output_buffer c) \<noteq> [] \<longrightarrow> isWriting (chan c))
     \<and> channels (srv_poller s) (conn_fd c) = Some (ConnChan i)
     \<and> map_of (connections s) (conn_name c) = Some i \<and> i < next_obj s"

definition srv_inv :: "tcp_server \<Rightarrow> bool" where
  "srv_inv s \<longleftrightarrow>
     map_wf (connections s) \<and> 0 \<le> next_conn_id s
     \<and> (\<forall>i c. heap s i = Some c \<longrightarrow> conn_ok i c s)
     \<and> (\<forall>n i. map_of (connections s) n = Some i \<longrightarrow> (\<exists>c. heap s i = Some c \<and> conn_name c = n))
     \<and> (\<forall>fd i. channels (srv_poller s) fd = Some (ConnChan i) \<longrightarrow> (\<exists>c. heap s i = Some c \<and> conn_fd c = fd))
     \<and> (\<forall>n i. map_of (connections s) n = Some i \<longrightarrow>
          (\<exists>k. 0 \<le> k \<and> k < next_conn_id s \<and> n = srv_name s @ '':'' @ dec_int k))"

definition forget :: "nat \<Rightarrow> tcp_server \<Rightarrow> tcp_server" where
  "forget i s = s\<lparr>heap := (heap s)(i := None)\<rparr>"

text \<open>Connection \<open>i\<close> has been closed during the event that is being handled and only the guard keeps it.\<close>

definition closing :: "nat \<Rightarrow> tcp_server \<Rightarrow> bool" where
  "closing i s \<longleftrightarrow> srv_inv (forget i s)
     \<and> (\<exists>c. heap s i = Some c \<and> cstate c = kDisconnected \<and> \<not> isWriting (chan c))"

lemma srv_invD:
  assumes "srv_inv s"
  shows "map_wf (connections s)" and "0 \<le> next_conn_id s"
    and "heap s i = Some c \<Longrightarrow> conn_ok i c s"
    and "map_of (connections s) n = Some i \<Longrightarrow> \<exists>c. heap s i = Some c \<and> conn_name c = n"
    and "channels (srv_poller s) fd = Some (ConnChan i) \<Longrightarrow> \<exists>c. heap s i = Some c \<and> conn_fd c = fd"
    and "map_of (connections s) n = Some i \<Longrightarrow>
      \<exists>k. 0 \<le> k \<and> k < next_conn_id s \<and> n = srv_name s @ '':'' @ dec_int k"
  using assms unfolding srv_inv_def by blast+

lemma srv_inv_frame [simp]:
  "srv_inv (s\<lparr>sys_log := l\<rparr>) = srv_inv s"
  "srv_inv (s\<lparr>accept_chan := ch\<rparr>) = srv_inv s"
  "srv_inv (s\<lparr>srv_pool := q\<rparr>) = srv_inv s"
  by (simp_all add: srv_inv_def conn_ok_def)

lemma srv_inv_unowned:
  assumes "srv_inv s" and "heap s i = None"
  shows "i \<notin> snd ` set (connections s)"
proof
  assume "i \<in> snd ` set (connections s)"
  then obtain n where "(n, i) \<in> set (connections s)" by auto
  then have "map_of (connections s) n = Some i"
    using map_wf_distinct[OF srv_invD(1)[OF assms(1)]] by simp
  with srv_invD(4)[OF assms(1)] assms(2) show False by force
qed

lemma release_closing: "closing i s \<Longrightarrow> release i s = forget i s"
proof -
  assume "closing i s"
  then have "srv_inv (forget i s)" by (simp add: closing_def)
  from srv_inv_unowned[OF this, of i] show ?thesis by (simp add: forget_def release_def)
qed

lemma release_live: "srv_inv s \<Longrightarrow> heap s i = Some c \<Longrightarrow> release i s = s"
  using srv_invD(3)[of s i c] by (force simp: release_def conn_ok_def dest: map_of_SomeD)

text \<open>Replacing a connection by one that is as good as it was.\<close>

lemma srv_inv_put:
  assumes inv: "srv_inv s" and c: "heap s i = Some c"
    and "conn_name c' = conn_name c" and "conn_fd c' = conn_fd c"
    and "cstate c' \<in> {kConnected, kDisconnecting}"
    and "ch_fd (chan c') = conn_fd c" and "isReading (chan c')"
    and "buf_ok (input_buffer c')" and "buf_ok (output_buffer c')"
    and "buf_bytes (output_buffer c') \<noteq> [] \<longrightarrow> isWriting (chan c')"
    and p: "channels p = channels (srv_poller s)"
  shows "srv_inv ((put_conn i c' s)\<lparr>srv_poller := p\<rparr>)"
proof -
  have ok: "conn_ok i c s" using inv c by (rule srv_invD(3))
  have "conn_ok j d ((put_conn i c' s)\<lparr>srv_poller := p\<rparr>)"
    if "((heap s)(i \<mapsto> c')) j = Some d" for j d
    using that srv_invD(3)[OF inv, of j d] ok assms(3-)
    by (auto simp: conn_ok_def put_conn_def split: if_splits)
  then show ?thesis
    using inv c assms(3,4) p
    unfolding srv_inv_def by (simp add: put_conn_def) (metis option.inject)
qed

lemma srv_inv_put_same:
  assumes "srv_inv s" and "heap s i = Some c"
    and "conn_name c' = conn_name c" and "conn_fd c' = conn_fd c"
    and "cstate c' \<in> {kConnected, kDisconnecting}"
    and "ch_fd (chan c') = conn_fd c" and "isReading (chan c')"
    and "buf_ok (input_buffer c')" and "buf_ok (output_buffer c')"
    and "buf_bytes (output_buffer c') \<noteq> [] \<longrightarrow> isWriting (chan c')"
  shows "srv_inv (put_conn i c' s)"
  using srv_inv_put[OF assms, of "srv_poller s"] by (simp add: put_conn_def)

lemma updateChannel_registered:
  assumes "channels p (ch_fd ch) = Some ptr" and "\<not> isNoEvent ch"
  shows "channels (updateChannel ptr ch p) = channels p"
  using epoll_reg.update_on[of p ch ptr] assms by (simp add: fun_upd_idem)

text \<open>An operation on the channel of a live connection that leaves it reading.\<close>

lemma conn_channel_inv:
  assumes inv: "srv_inv s" and c: "heap s i = Some c"
    and f: "\<And>ch. ch_fd (f ch) = ch_fd ch" "isReading (f (chan c))"
    and w: "buf_bytes (output_buffer c) \<noteq> [] \<longrightarrow> isWriting (f (chan c))"
  shows "\<exists>s'. conn_channel f i s = Inr s' \<and> srv_inv s' \<and> heap s' = (heap s)(i \<mapsto> c\<lparr>chan := f (chan c)\<rparr>)
     \<and> channels (srv_poller s') = channels (srv_poller s) \<and> connections s' = connections s
     \<and> sys_log s' = sys_log s"
proof -
  have ok: "conn_ok i c s" using inv c by (rule srv_invD(3))
  let ?p = "updateChannel (ConnChan i) (f (chan c)) (srv_poller s)"
  have ch: "channels ?p = channels (srv_poller s)"
    using ok f isReading_not_NoEvent[OF f(2)] by (intro updateChannel_registered) (auto simp: conn_ok_def)
  have "srv_inv ((put_conn i (c\<lparr>chan := f (chan c)\<rparr>) s)\<lparr>srv_poller := ?p\<rparr>)"
    using ok f w ch by (intro srv_inv_put[OF inv c]) (auto simp: conn_ok_def)
  with c ch show ?thesis by (simp add: conn_channel_def get_conn_def put_conn_def Let_def)
qed


section \<open>Closing a connection\<close>

definition closed_state :: "nat \<Rightarrow> tcp_conn \<Rightarrow> tcp_server \<Rightarrow> tcp_server" where
  "closed_state i c s =
     s\<lparr>heap := (heap s)(i \<mapsto> c\<lparr>cstate := kDisconnected, chan := ev_disableAll (chan c)\<rparr>),
       srv_poller := updateChannel (ConnChan i) (ev_disableAll (chan c)) (srv_poller s),
       connections := map_erase (conn_name c) (connections s)\<rparr>"

lemma handleClose_eq: "heap s i = Some c \<Longrightarrow> handleClose ap i s = Inr (closed_state i c s)"
  by (simp add: handleClose_def conn_channel_def removeConnectionInLoop_def connectDestroyed_def
      get_conn_def put_conn_def closed_state_def Let_def)

lemma closed_channels:
  assumes "srv_inv s" and "heap s i = Some c"
  shows "channels (srv_poller (closed_state i c s)) = (channels (srv_poller s))(conn_fd c := None)"
proof -
  have "conn_ok i c s" using assms by (rule srv_invD(3))
  with epoll_reg.disable_unregisters[of "srv_poller s" "chan c" "ConnChan i"] show ?thesis
    by (simp add: closed_state_def conn_ok_def)
qed

lemma closed_forget:
  assumes inv: "srv_inv s" and c: "heap s i = Some c"
  shows "srv_inv (forget i (closed_state i c s))"
proof -
  let ?t = "forget i (closed_state i c s)"
  have ok: "conn_ok i c s" using inv c by (rule srv_invD(3))
  have heap: "heap ?t = (heap s)(i := None)" by (simp add: forget_def closed_state_def)
  have conns: "connections ?t = map_erase (conn_name c) (connections s)"
    by (simp add: forget_def closed_state_def)
  have chans: "channels (srv_poller ?t) = (channels (srv_poller s))(conn_fd c := None)"
    using closed_channels[OF inv c] by (simp add: forget_def)
  have "conn_ok j d ?t" if j: "heap ?t j = Some d" for j d
  proof -
    have "j \<noteq> i" "conn_ok j d s" using j heap srv_invD(3)[OF inv] by (auto split: if_splits)
    with ok chans conns show ?thesis
      by (auto simp: conn_ok_def forget_def closed_state_def)
  qed
  moreover have "\<exists>d. heap ?t j = Some d \<and> conn_name d = n" if "map_of (connections ?t) n = Some j" for n j
    using that conns heap ok srv_invD(4)[OF inv, of n j] c by (auto split: if_splits)
  moreover have "\<exists>d. heap ?t j = Some d \<and> conn_fd d = fd" if "channels (srv_poller ?t) fd = Some (ConnChan j)" for fd j
    using that chans heap ok srv_invD(5)[OF inv, of fd j] c by (auto split: if_splits)
  moreover have "\<exists>k. 0 \<le> k \<and> k < next_conn_id ?t \<and> n = srv_name ?t @ '':'' @ dec_int k"
    if "map_of (connections ?t) n = Some j" for n j
    using that conns srv_invD(6)[OF inv, of n j] by (auto simp: forget_def closed_state_def split: if_splits)
  moreover have "map_wf (connections ?t)" "0 \<le> next_conn_id ?t"
    using conns srv_invD(1,2)[OF inv] by (auto simp: forget_def closed_state_def)
  ultimately show ?thesis unfolding srv_inv_def by blast
qed

lemma closed_closing: "srv_inv s \<Longrightarrow> heap s i = Some c \<Longrightarrow> closing i (closed_state i c s)"
  using closed_forget[of s i c] by (simp add: closing_def closed_state_def)


section \<open>The environment and the application\<close>

text \<open>
  What the system calls promise about the descriptors that are open in a world: none of the calls
  the server makes closes one, and \<^verbatim>\<open>accept(2)\<close> returns a descriptor that was not open.
\<close>

definition os_documented :: "'w os \<Rightarrow> ('w \<Rightarrow> int set) \<Rightarrow> bool" where
  "os_documented os opn \<longleftrightarrow>
     recv_documented (os_recv os) \<and> send_documented (os_send os)
     \<and> (\<forall>fd n w r w'. os_recv os fd n w = (r, w') \<longrightarrow> opn w \<subseteq> opn w')
     \<and> (\<forall>fd bs w r w'. os_send os fd bs w = (r, w') \<longrightarrow> opn w \<subseteq> opn w')
     \<and> (\<forall>fd n w r w'. os_getsockname os fd n w = (r, w') \<longrightarrow> opn w \<subseteq> opn w')
     \<and> (\<forall>fd n w r a w'. os_accept os fd n w = ((r, a), w') \<longrightarrow>
          opn w \<subseteq> opn w' \<and> (0 \<le> r \<longrightarrow> r \<notin> opn w \<and> r \<in> opn w'))"

lemma os_documentedD:
  assumes "os_documented os opn"
  shows "recv_documented (os_recv os)" and "send_documented (os_send os)"
    and "os_recv os fd n w = (r, w') \<Longrightarrow> opn w \<subseteq> opn w'"
    and "os_send os fd bs w = (l, w') \<Longrightarrow> opn w \<subseteq> opn w'"
    and "os_getsockname os fd n w = (g, w') \<Longrightarrow> opn w \<subseteq> opn w'"
    and "os_accept os fd n w = ((l, a), w') \<Longrightarrow> opn w \<subseteq> opn w'"
    and "os_accept os fd n w = ((l, a), w') \<Longrightarrow> 0 \<le> l \<Longrightarrow> l \<notin> opn w \<and> l \<in> opn w'"
  using assms unfolding os_documented_def by metis+

definition live :: "nat \<Rightarrow> tcp_server \<Rightarrow> bool" where
  "live i s \<longleftrightarrow> srv_inv s \<and> heap s i \<noteq> None"

definition watched_fds :: "tcp_server \<Rightarrow> int set" where
  "watched_fds s = dom (channels (srv_poller s))"

definition revents_of :: "tcp_server \<Rightarrow> nat \<Rightarrow> u32 option" where
  "revents_of s j = map_option (\<lambda>c. revents (chan c)) (heap s j)"

text \<open>
  Nothing but connection \<open>i\<close> can have died or lost the events \<^verbatim>\<open>poll\<close> stored for it, and no descriptor but
  those of \<open>N\<close> was added.
\<close>

definition keeps :: "nat option \<Rightarrow> int set \<Rightarrow> tcp_server \<Rightarrow> tcp_server \<Rightarrow> bool" where
  "keeps i N s s' \<longleftrightarrow>
     (\<forall>j. heap s j \<noteq> None \<and> Some j \<noteq> i \<longrightarrow> revents_of s' j = revents_of s j)
     \<and> watched_fds s' \<subseteq> watched_fds s \<union> N"

lemma keeps_refl [simp, intro]: "keeps i N s s"
  by (simp add: keeps_def)

lemma keeps_trans: "keeps i N s t \<Longrightarrow> keeps i N t u \<Longrightarrow> keeps i N s u"
  unfolding keeps_def
proof (intro conjI allI impI)
  fix j
  assume a: "(\<forall>j. heap s j \<noteq> None \<and> Some j \<noteq> i \<longrightarrow> revents_of t j = revents_of s j) \<and> watched_fds t \<subseteq> watched_fds s \<union> N"
    and b: "(\<forall>j. heap t j \<noteq> None \<and> Some j \<noteq> i \<longrightarrow> revents_of u j = revents_of t j) \<and> watched_fds u \<subseteq> watched_fds t \<union> N"
    and j: "heap s j \<noteq> None \<and> Some j \<noteq> i"
  then have r: "revents_of t j = revents_of s j" by simp
  with j have "heap t j \<noteq> None" by (auto simp: revents_of_def)
  with b j r show "revents_of u j = revents_of s j" by simp
qed blast

lemma keeps_weaken: "keeps None {} s t \<Longrightarrow> keeps i N s t"
  by (auto simp: keeps_def)

lemma keeps_live: "keeps i N s s' \<Longrightarrow> heap s j \<noteq> None \<Longrightarrow> Some j \<noteq> i \<Longrightarrow> heap s' j \<noteq> None"
  unfolding keeps_def revents_of_def by (metis option.map_disc_iff)

text \<open>
  The contract of an application: run on a live connection, a callback keeps the server invariant,
  destroys no connection and registers no descriptor; its faults are those of \<open>F\<close>, to which the server adds the
  overflow of its connection counter.
\<close>

locale server_app =
  fixes ap :: app and F :: "fault set"
  assumes on_message_ok: "live i s \<Longrightarrow>
      safe_run F (\<lambda>s'. srv_inv s' \<and> keeps None {} s s') (Some (on_message ap i s))"
    and on_connect_ok: "live i s \<Longrightarrow>
      safe_run F (\<lambda>s'. srv_inv s' \<and> keeps None {} s s') (Some (on_connect ap i s))"
    and counter_fault: "SignedOverflow \<in> F"

interpretation default_server: server_app default_app "{SignedOverflow}"
  by unfold_locales (simp_all add: default_app_def live_def)

section \<open>Handlers\<close>

text \<open>Between the steps of one event on connection \<open>i\<close>: it is live, or closed but still guarded.\<close>

definition mid :: "nat \<Rightarrow> tcp_server \<Rightarrow> bool" where
  "mid i s \<longleftrightarrow> live i s \<or> closing i s"

lemma mid_heap: "mid i s \<Longrightarrow> heap s i \<noteq> None"
  by (auto simp: mid_def live_def closing_def)

lemma mid_release: "mid i s \<Longrightarrow> srv_inv (release i s)"
  by (auto simp: mid_def live_def release_live release_closing) (simp add: closing_def)

lemma release_keeps: "keeps (Some i) N s (release i s)"
  by (auto simp: keeps_def release_def watched_fds_def revents_of_def)

lemma closed_keeps:
  "srv_inv s \<Longrightarrow> heap s i = Some c \<Longrightarrow> keeps (Some i) N s (closed_state i c s)"
  unfolding keeps_def watched_fds_def by (simp add: closed_channels) (auto simp: closed_state_def revents_of_def)

lemma put_conn_keeps:
  "heap s i = Some d \<Longrightarrow> revents (chan c) = revents (chan d) \<Longrightarrow> keeps None {} s (put_conn i c s)"
  by (auto simp: keeps_def put_conn_def watched_fds_def revents_of_def)

lemma drain_opn:
  "os_documented os opn \<Longrightarrow> drain (os_recv os) fd room w = (ds, e, w') \<Longrightarrow> opn w \<subseteq> opn w'"
proof (induction "os_recv os" fd room w arbitrary: ds e w' rule: drain.induct)
  case (1 fd room w)
  obtain r w1 where rw: "os_recv os fd room w = (r, w1)" by fastforce
  have step: "opn w \<subseteq> opn w1" using os_documentedD(3)[OF "1.prems"(1) rw] .
  show ?case
  proof (cases r)
    case (RecvData bs)
    show ?thesis
    proof (cases "0 < length bs \<and> length bs \<le> room")
      case True
      obtain ds1 e1 w2 where d: "drain (os_recv os) fd (room - length bs) w1 = (ds1, e1, w2)"
        by (metis prod_cases3)
      have "w' = w2" using "1.prems"(2) rw RecvData True d by (simp add: drain.simps[of _ fd room])
      with "1.hyps"[OF rw[symmetric] RecvData True "1.prems"(1) d] step show ?thesis by blast
    qed (use "1.prems"(2) rw RecvData step in \<open>auto simp: drain.simps[of _ fd room]\<close>)
  qed (use "1.prems"(2) rw step in \<open>simp_all add: drain.simps[of _ fd room]\<close>)
qed

lemma handleRead_cases:
  assumes os: "os_documented os opn" and "live i s"
  obtains c ds e w' b where "heap s i = Some c"
    and "drain (os_recv os) (conn_fd c) (nat (writableBytes (input_buffer c))) w = (ds, e, w')"
    and "buf_ok b" and "buf_bytes b = buf_bytes (input_buffer c) @ ds" and "opn w \<subseteq> opn w'"
    and "live i (put_conn i (c\<lparr>input_buffer := b\<rparr>) s)"
    and "handleRead ap os i (s, w) =
       (let s1 = put_conn i (c\<lparr>input_buffer := b\<rparr>) s
        in bind_run (Some (if ds = [] then handleClose ap i s1 else on_message ap i s1)) (\<lambda>s2. Some (Inr (s2, w'))))"
proof -
  from assms(2) obtain c where inv: "srv_inv s" and c: "heap s i = Some c" by (auto simp: live_def)
  have ok: "conn_ok i c s" using inv c by (rule srv_invD(3))
  obtain ds e w' where d: "drain (os_recv os) (conn_fd c) (nat (writableBytes (input_buffer c))) w = (ds, e, w')"
    by (metis prod_cases3)
  obtain b where b: "readFd (os_recv os) (conn_fd c) (input_buffer c) w = Some ((int (length ds), e), b, w')"
    "buf_ok b" "buf_bytes b = buf_bytes (input_buffer c) @ ds"
    using readFd_loop_drain[OF os_documentedD(1)[OF os] _ d, of 0] ok by (auto simp: conn_ok_def readFd_def)
  have "live i (put_conn i (c\<lparr>input_buffer := b\<rparr>) s)"
    using srv_inv_put_same[OF inv c] ok b(2) by (auto simp: live_def conn_ok_def put_conn_def)
  moreover have "handleRead ap os i (s, w) =
       (let s1 = put_conn i (c\<lparr>input_buffer := b\<rparr>) s
        in bind_run (Some (if ds = [] then handleClose ap i s1 else on_message ap i s1)) (\<lambda>s2. Some (Inr (s2, w'))))"
    using c b(1) ok by (simp add: handleRead_def get_conn_def conn_ok_def Let_def)
  ultimately show thesis using that c d b(2,3) drain_opn[OF os d] by blast
qed

context server_app
begin

lemma handleRead_safe:
  assumes "os_documented os opn" and "live i s"
  shows "safe_run F (\<lambda>(s', w'). mid i s' \<and> keeps (Some i) {} s s' \<and> opn w \<subseteq> opn w') (handleRead ap os i (s, w))"
  using assms
proof (rule handleRead_cases[where ap = ap and w = w])
  fix c ds e w' b
  assume c: "heap s i = Some c" and opn: "opn w \<subseteq> opn w'"
    and l: "live i (put_conn i (c\<lparr>input_buffer := b\<rparr>) s)"
    and eq: "handleRead ap os i (s, w) =
       (let s1 = put_conn i (c\<lparr>input_buffer := b\<rparr>) s
        in bind_run (Some (if ds = [] then handleClose ap i s1 else on_message ap i s1)) (\<lambda>s2. Some (Inr (s2, w'))))"
  let ?s1 = "put_conn i (c\<lparr>input_buffer := b\<rparr>) s"
  have k: "keeps None {} s ?s1" using c by (intro put_conn_keeps) simp_all
  have "safe_run F (\<lambda>s'. mid i s' \<and> keeps (Some i) {} ?s1 s')
      (Some (if ds = [] then handleClose ap i ?s1 else on_message ap i ?s1))"
  proof (cases "ds = []")
    case True
    obtain d where d: "heap ?s1 i = Some d" and inv: "srv_inv ?s1" using l by (auto simp: live_def)
    from closed_closing[OF inv d] closed_keeps[OF inv d] handleClose_eq[OF d] True show ?thesis
      by (simp add: mid_def)
  next
    case False
    have "mid i t \<and> keeps (Some i) {} ?s1 t" if "srv_inv t \<and> keeps None {} ?s1 t" for t
      using that l keeps_weaken[of ?s1 t] keeps_live[of None "{}" ?s1 t i] unfolding mid_def live_def by simp
    with False show ?thesis using safe_run_mono[OF on_message_ok[OF l]] by simp
  qed
  then show ?thesis
    unfolding eq Let_def
    by (rule safe_run_bind) (use keeps_trans[OF keeps_weaken[OF k]] opn in auto)
qed

end


text \<open>Writing: the bytes the kernel takes leave the front of the output buffer.\<close>

lemma handleWrite_idle:
  "heap s i = Some c \<Longrightarrow> \<not> isWriting (chan c) \<Longrightarrow> handleWrite os i (s, w) = Some (Inr (s, w))"
  by (simp add: handleWrite_def get_conn_def)

lemma handleWrite_live:
  assumes os: "os_documented os opn" and inv: "srv_inv s" and c: "heap s i = Some c"
    and w: "isWriting (chan c)" and send: "os_send os (conn_fd c) (buf_bytes (output_buffer c)) w = (n, w')"
  shows "\<exists>s' c'. handleWrite os i (s, w) = Some (Inr (s', w')) \<and> srv_inv s'
     \<and> heap s' = (heap s)(i \<mapsto> c') \<and> channels (srv_poller s') = channels (srv_poller s)
     \<and> conn_fd c' = conn_fd c \<and> cstate c' = cstate c \<and> input_buffer c' = input_buffer c
     \<and> buf_bytes (output_buffer c') = drop (nat n) (buf_bytes (output_buffer c))
     \<and> sys_log s' = sys_log s @ (if 0 < n then [SysSend (conn_fd c) (take (nat n) (buf_bytes (output_buffer c)))] else [])"
proof (cases "0 < n")
  case False
  with assms srv_invD(3)[OF inv c] show ?thesis
    by (intro exI[of _ s] exI[of _ c])
      (auto simp: handleWrite_def get_conn_def conn_ok_def buf_bytes_def Let_def fun_upd_idem)
next
  case True
  have ok: "conn_ok i c s" using inv c by (rule srv_invD(3))
  define b where "b = retrieve n (output_buffer c)"
  define d where "d = c\<lparr>output_buffer := b\<rparr>"
  define t where "t = (put_conn i d s)
      \<lparr>sys_log := sys_log s @ [SysSend (conn_fd c) (take (nat n) (buf_bytes (output_buffer c)))]\<rparr>"
  have b: "buf_ok b" "buf_bytes b = drop (nat n) (buf_bytes (output_buffer c))"
    using ok True by (auto simp: b_def conn_ok_def buf_ok_retrieve buf_bytes_retrieve)
  have t: "srv_inv t" "heap t i = Some d"
    using srv_inv_put_same[OF inv c, of d] ok b(1) w by (auto simp: t_def d_def conn_ok_def put_conn_def)
  have eq: "handleWrite os i (s, w) =
      (if readableBytes b = 0 then bind_run (Some (conn_channel ev_disableWriting i t)) (\<lambda>s2. Some (Inr (s2, w')))
       else Some (Inr (t, w')))"
    using True c w send ok
    by (simp add: handleWrite_def get_conn_def conn_ok_def buf_bytes_def Let_def t_def d_def b_def)
  have heap: "heap t = (heap s)(i \<mapsto> d)" "channels (srv_poller t) = channels (srv_poller s)"
    by (simp_all add: t_def put_conn_def)
  show ?thesis
  proof (cases "readableBytes b = 0")
    case zero: True
    have "buf_bytes (output_buffer d) = []" using zero by (simp add: d_def buf_bytes_def)
    then obtain u where u: "conn_channel ev_disableWriting i t = Inr u" "srv_inv u"
      "heap u = (heap t)(i \<mapsto> d\<lparr>chan := ev_disableWriting (chan d)\<rparr>)"
      "channels (srv_poller u) = channels (srv_poller t)" "sys_log u = sys_log t"
      using conn_channel_inv[OF t, of ev_disableWriting] ok by (auto simp: d_def conn_ok_def)
    then show ?thesis using True eq zero heap b(2)
      by (intro exI[of _ u] exI[of _ "d\<lparr>chan := ev_disableWriting (chan d)\<rparr>"]) (simp add: d_def t_def)
  next
    case False
    then show ?thesis using True eq heap b(2) t(1)
      by (intro exI[of _ t] exI[of _ d]) (simp add: d_def t_def)
  qed
qed

lemma handleWrite_safe:
  assumes os: "os_documented os opn" and "mid i s"
  shows "safe_run F (\<lambda>(s', w'). mid i s' \<and> keeps (Some i) {} s s' \<and> opn w \<subseteq> opn w') (handleWrite os i (s, w))"
proof -
  obtain c where c: "heap s i = Some c" using mid_heap[OF assms(2)] by auto
  show ?thesis
  proof (cases "isWriting (chan c)")
    case False
    from handleWrite_idle[OF c this, of os w] assms(2) show ?thesis by simp
  next
    case True
    then have inv: "srv_inv s" using assms(2) c by (auto simp: mid_def live_def closing_def)
    obtain n w' where send: "os_send os (conn_fd c) (buf_bytes (output_buffer c)) w = (n, w')" by fastforce
    from handleWrite_live[OF os inv c True send] obtain s' c' where
      "handleWrite os i (s, w) = Some (Inr (s', w'))" "srv_inv s'" "heap s' = (heap s)(i \<mapsto> c')"
      "channels (srv_poller s') = channels (srv_poller s)" by blast
    with os_documentedD(4)[OF os send] show ?thesis
      by (simp add: mid_def live_def keeps_def watched_fds_def revents_of_def)
  qed
qed

section \<open>Events\<close>

text \<open>
  A channel that asked for \<^verbatim>\<open>EPOLLIN\<close>, \<^verbatim>\<open>EPOLLPRI\<close> and \<^verbatim>\<open>EPOLLOUT\<close> is not told of \<^verbatim>\<open>EPOLLRDHUP\<close>, and a stream socket
  that hung up is readable; what remains is that a hang-up without \<^verbatim>\<open>EPOLLIN\<close> carries no read event.
\<close>

definition plain_event :: "u32 \<Rightarrow> bool" where
  "plain_event ev \<longleftrightarrow> (has ev EPOLLHUP \<and> \<not> has ev EPOLLIN \<longrightarrow> \<not> has ev (EPOLLIN OR EPOLLPRI OR EPOLLRDHUP))"

context server_app
begin

lemma handleEvent_conn_safe:
  assumes os: "os_documented os opn" and l: "live i s"
    and plain: "\<forall>c. heap s i = Some c \<longrightarrow> plain_event (revents (chan c))"
  shows "safe_run F (\<lambda>(s', w'). srv_inv s' \<and> keeps (Some i) {} s s' \<and> opn w \<subseteq> opn w')
     (handleEvent_conn ap os i (s, w))"
proof -
  obtain c where c: "heap s i = Some c" and inv: "srv_inv s" using l by (auto simp: live_def)
  define rev where "rev = revents (chan c)"
  let ?hup = "has rev EPOLLHUP \<and> \<not> has rev EPOLLIN"
  let ?in = "has rev (EPOLLIN OR EPOLLPRI OR EPOLLRDHUP)"
  have p: "?hup \<longrightarrow> \<not> ?in" using plain c by (auto simp: plain_event_def rev_def)
  let ?A = "\<lambda>(s1, w1). mid i s1 \<and> keeps (Some i) {} s s1 \<and> opn w \<subseteq> opn w1"
  have 1: "safe_run F (\<lambda>sw1. ?A sw1 \<and> (?in \<longrightarrow> sw1 = (s, w)))
     (if ?hup then bind_run (Some (handleClose ap i s)) (\<lambda>s1. Some (Inr (s1, w))) else Some (Inr (s, w)))"
    using l p closed_closing[OF inv c] closed_keeps[OF inv c] handleClose_eq[OF c] by (simp add: mid_def)
  have 2: "safe_run F ?A (if ?in then handleRead ap os i sw1 else Some (Inr sw1))"
    if "?A sw1 \<and> (?in \<longrightarrow> sw1 = (s, w))" for sw1
    using that handleRead_safe[OF os l, of w] by (cases sw1) auto
  have 3: "safe_run F ?A (if has rev EPOLLOUT then handleWrite os i sw2 else Some (Inr sw2))" if "?A sw2" for sw2
    using that keeps_trans
    by (cases sw2) (auto intro!: safe_run_mono[OF handleWrite_safe[OF os]])
  have 4: "srv_inv (release i s3) \<and> keeps (Some i) {} s (release i s3)" if "?A (s3, w3)" for s3 w3
    using that mid_release release_keeps keeps_trans by blast
  have eq: "handleEvent_conn ap os i (s, w) =
     bind_run (if ?hup then bind_run (Some (handleClose ap i s)) (\<lambda>s1. Some (Inr (s1, w))) else Some (Inr (s, w)))
      (\<lambda>sw1. bind_run (if ?in then handleRead ap os i sw1 else Some (Inr sw1))
      (\<lambda>sw2. bind_run (if has rev EPOLLOUT then handleWrite os i sw2 else Some (Inr sw2))
      (\<lambda>sw3. Some (Inr (release i (fst sw3), snd sw3)))))"
    using c by (simp add: handleEvent_conn_def get_conn_def Let_def rev_def)
  show ?thesis
    unfolding eq
    by (rule safe_run_bind[OF 1], rule safe_run_bind[OF 2], assumption, rule safe_run_bind[OF 3], assumption)
      (use 4 in auto)
qed

end


section \<open>Accepting\<close>

definition next_name :: "tcp_server \<Rightarrow> string" where
  "next_name s = srv_name s @ '':'' @ dec_int (next_conn_id s)"

definition fresh_conn :: "string \<Rightarrow> int \<Rightarrow> sock_addr \<Rightarrow> sock_addr \<Rightarrow> tcp_conn" where
  "fresh_conn name fd la pa = (mk_TcpConnection kConnected name fd la pa)
     \<lparr>chan := ev_enableReading (mk_Channel fd), tied := True\<rparr>"

text \<open>The state in which \<^verbatim>\<open>connect_callback_\<close> is called for a new connection.\<close>

definition accepted :: "int \<Rightarrow> sock_addr \<Rightarrow> sock_addr \<Rightarrow> tcp_server \<Rightarrow> tcp_server" where
  "accepted fd la pa s =
     s\<lparr>next_conn_id := next_conn_id s + 1, next_obj := Suc (next_obj s),
       connections := map_put (next_name s) (next_obj s) (connections s),
       srv_poller := updateChannel (ConnChan (next_obj s)) (ev_enableReading (mk_Channel fd)) (srv_poller s),
       heap := (heap s)(next_obj s \<mapsto> fresh_conn (next_name s) fd la pa)\<rparr>"

lemma next_name_free: "srv_inv s \<Longrightarrow> map_of (connections s) (next_name s) = None"
  using srv_invD(6)[of s "next_name s"] by (fastforce simp: next_name_def)

lemma next_obj_free: "srv_inv s \<Longrightarrow> next_obj s \<le> i \<Longrightarrow> heap s i = None"
  using srv_invD(3)[of s i] by (cases "heap s i") (auto simp: conn_ok_def)

lemma newConnection_eq:
  assumes "srv_inv s" and "getSockAddr os fd w = (la, w')"
  shows "newConnection junk ap os fd pa (s, w) =
     (if 2 ^ 31 \<le> next_conn_id s + 1 then Inl SignedOverflow
      else bind_res (on_connect ap (next_obj s) (accepted fd la pa s)) (\<lambda>s2. Inr (s2, w')))"
  using next_name_free[OF assms(1)] assms(2)
  by (simp add: newConnection_def connectEstablished_def conn_channel_def get_conn_def put_conn_def
      mk_TcpConnection_def accepted_def fresh_conn_def next_name_def Let_def)

lemma accepted_channels:
  "fd \<notin> watched_fds s \<Longrightarrow>
     channels (srv_poller (accepted fd la pa s)) = (channels (srv_poller s))(fd \<mapsto> ConnChan (next_obj s))"
  using epoll_reg.reading_registers[of "srv_poller s" "mk_Channel fd" "ConnChan (next_obj s)"]
  by (auto simp: accepted_def watched_fds_def dom_def)

lemma accepted_inv:
  assumes inv: "srv_inv s" and fd: "fd \<notin> watched_fds s"
  shows "srv_inv (accepted fd la pa s)"
proof -
  let ?t = "accepted fd la pa s" and ?i = "next_obj s"
  have heap: "heap ?t = (heap s)(?i \<mapsto> fresh_conn (next_name s) fd la pa)" by (simp add: accepted_def)
  have conns: "map_of (connections ?t) = (map_of (connections s))(next_name s \<mapsto> ?i)"
    using srv_invD(1)[OF inv] by (simp add: accepted_def)
  note chans = accepted_channels[OF fd, of la pa]
  have fr: "heap s ?i = None" "channels (srv_poller s) fd = None"
    using next_obj_free[OF inv, of ?i] fd by (auto simp: watched_fds_def)
  have "conn_ok j d ?t" if j: "heap ?t j = Some d" for j d
  proof (cases "j = ?i")
    case True
    with j heap conns chans show ?thesis
      by (auto simp: conn_ok_def fresh_conn_def mk_TcpConnection_def kInitialSize_def accepted_def)
  next
    case False
    with j heap have "conn_ok j d s" using srv_invD(3)[OF inv] by simp
    with conns chans fr next_name_free[OF inv] show ?thesis
      by (auto simp: conn_ok_def accepted_def)
  qed
  moreover have "\<exists>d. heap ?t j = Some d \<and> conn_name d = n" if "map_of (connections ?t) n = Some j" for n j
    using that conns heap fr srv_invD(4)[OF inv, of n j]
    by (auto simp: fresh_conn_def mk_TcpConnection_def split: if_splits)
  moreover have "\<exists>d. heap ?t j = Some d \<and> conn_fd d = x" if "channels (srv_poller ?t) x = Some (ConnChan j)" for x j
    using that chans heap fr srv_invD(5)[OF inv, of x j]
    by (auto simp: fresh_conn_def mk_TcpConnection_def split: if_splits)
  moreover have "\<exists>k. 0 \<le> k \<and> k < next_conn_id ?t \<and> n = srv_name ?t @ '':'' @ dec_int k"
    if "map_of (connections ?t) n = Some j" for n j
  proof (cases "n = next_name s")
    case True
    then show ?thesis using srv_invD(2)[OF inv] by (auto simp: accepted_def next_name_def)
  next
    case False
    with that conns obtain k where "0 \<le> k" "k < next_conn_id s" "n = srv_name s @ '':'' @ dec_int k"
      using srv_invD(6)[OF inv, of n j] by auto
    then show ?thesis by (intro exI[of _ k]) (simp add: accepted_def)
  qed
  moreover have "map_wf (connections ?t)" "0 \<le> next_conn_id ?t"
    using srv_invD(1,2)[OF inv] by (auto simp: accepted_def)
  ultimately show ?thesis unfolding srv_inv_def by blast
qed

lemma accepted_keeps: "srv_inv s \<Longrightarrow> fd \<notin> watched_fds s \<Longrightarrow> keeps None {fd} s (accepted fd la pa s)"
  using accepted_channels[of fd s la pa] next_obj_free[of s "next_obj s"]
  by (auto simp: keeps_def watched_fds_def revents_of_def) (auto simp: accepted_def)

text \<open>The whole server: the invariant, and every watched descriptor is open.\<close>

definition sys_inv :: "('w \<Rightarrow> int set) \<Rightarrow> tcp_server \<Rightarrow> 'w \<Rightarrow> bool" where
  "sys_inv opn s w \<longleftrightarrow> srv_inv s \<and> watched_fds s \<subseteq> opn w"

lemma sys_inv_frame [simp]: "sys_inv opn (s\<lparr>sys_log := l\<rparr>) w = sys_inv opn s w"
  by (simp add: sys_inv_def watched_fds_def)

lemma getSockAddr_opn: "os_documented os opn \<Longrightarrow> getSockAddr os fd w = (a, w') \<Longrightarrow> opn w \<subseteq> opn w'"
  using os_documentedD(5)[of os opn fd 16 w] by (auto simp: getSockAddr_def split: prod.splits)

context server_app
begin

lemma newConnection_safe:
  assumes os: "os_documented os opn" and inv: "sys_inv opn s w"
    and fd: "fd \<notin> watched_fds s" "fd \<in> opn w"
  shows "safe_run F (\<lambda>(s', w'). sys_inv opn s' w' \<and> keeps None {fd} s s')
     (Some (newConnection junk ap os fd pa (s, w)))"
proof -
  obtain la w' where g: "getSockAddr os fd w = (la, w')" by fastforce
  let ?t = "accepted fd la pa s"
  have s: "srv_inv s" "watched_fds s \<subseteq> opn w" using inv by (simp_all add: sys_inv_def)
  have opn: "opn w \<subseteq> opn w'" using getSockAddr_opn[OF os g] .
  have l: "live (next_obj s) ?t"
    using accepted_inv[OF s(1) fd(1)] by (simp add: live_def) (simp add: accepted_def)
  have k: "keeps None {fd} s ?t" using accepted_keeps[OF s(1) fd(1)] .
  have *: "sys_inv opn u w' \<and> keeps None {fd} s u" if u: "srv_inv u \<and> keeps None {} ?t u" for u
  proof -
    have "keeps None {fd} s u" using keeps_trans[OF k keeps_weaken] u by blast
    moreover have "watched_fds u \<subseteq> opn w'" using calculation s(2) fd(2) opn unfolding keeps_def by blast
    ultimately show ?thesis using u by (simp add: sys_inv_def)
  qed
  show ?thesis
    using on_connect_ok[OF l] newConnection_eq[OF s(1) g, of junk ap pa] * counter_fault
    by (cases "on_connect ap (next_obj s) ?t") auto
qed

lemma acceptor_safe:
  assumes os: "os_documented os opn" and inv: "sys_inv opn s w"
  shows "safe_run F (\<lambda>(s', w'). sys_inv opn s' w' \<and> (\<exists>N. keeps None N s s'))
     (Some (acceptor_handleRead junk ap os (s, w)))"
proof -
  obtain r a w' where acc: "os_accept os (sock_fd (listen_sock s)) 0 w = ((r, a), w')" by (metis prod.exhaust)
  have opn: "opn w \<subseteq> opn w'" using os_documentedD(6)[OF os acc] .
  have inv': "sys_inv opn s w'" using inv opn by (auto simp: sys_inv_def)
  show ?thesis
  proof (cases "0 \<le> r \<and> newconn_cb s")
    case True
    then have "r \<notin> watched_fds s" "r \<in> opn w'"
      using os_documentedD(7)[OF os acc] inv by (auto simp: sys_inv_def)
    from newConnection_safe[OF os inv' this] True acc show ?thesis
      by (auto simp: acceptor_handleRead_def socket_accept_def Let_def split: option.splits
          intro: safe_run_mono)
  next
    case False
    moreover have "keeps None {} s (s\<lparr>sys_log := l\<rparr>)" for l
      by (simp add: keeps_def revents_of_def watched_fds_def)
    ultimately show ?thesis using acc inv'
      by (auto simp: acceptor_handleRead_def socket_accept_def Let_def)
  qed
qed

end


section \<open>Loop rounds\<close>

text \<open>What \<^verbatim>\<open>epoll_wait\<close> may return: events of registered channels, each channel at most once, and plain ones.\<close>

definition wait_ok :: "tcp_server \<Rightarrow> int + (u32 \<times> chan_ptr) list \<Rightarrow> bool" where
  "wait_ok s wait \<longleftrightarrow>
     (case wait of
        Inl e \<Rightarrow> True
      | Inr evs \<Rightarrow> distinct (map snd evs)
          \<and> (\<forall>(ev, ptr) \<in> set evs. plain_event ev \<and> ptr \<in> ran (channels (srv_poller s))))"

definition pending_ok :: "chan_ptr list \<Rightarrow> tcp_server \<Rightarrow> bool" where
  "pending_ok ptrs s \<longleftrightarrow> distinct ptrs
     \<and> (\<forall>i. ConnChan i \<in> set ptrs \<longrightarrow> (\<exists>c. heap s i = Some c \<and> plain_event (revents (chan c))))"

lemma pending_ok_keeps:
  assumes p: "pending_ok (ptr # ptrs) s" and k: "keeps i N s s'" and i: "\<And>j. i = Some j \<Longrightarrow> ptr = ConnChan j"
  shows "pending_ok ptrs s'"
  unfolding pending_ok_def
proof (intro conjI allI impI)
  fix j assume j: "ConnChan j \<in> set ptrs"
  then obtain c where c: "heap s j = Some c" "plain_event (revents (chan c))" and "Some j \<noteq> i"
    using p i by (force simp: pending_ok_def)
  then have "revents_of s' j = Some (revents (chan c))" using k by (simp add: keeps_def revents_of_def)
  with c(2) show "\<exists>c. heap s' j = Some c \<and> plain_event (revents (chan c))" by (auto simp: revents_of_def)
qed (use p in \<open>simp add: pending_ok_def\<close>)

lemma set_revents_ok:
  assumes "srv_inv s" and "\<forall>(ev, ptr) \<in> set evs. \<forall>i. ptr = ConnChan i \<longrightarrow> heap s i \<noteq> None"
  shows "\<exists>s'. set_revents evs s = Inr s' \<and> srv_inv s' \<and> srv_poller s' = srv_poller s
     \<and> (\<forall>i. (heap s' i = None) = (heap s i = None))
     \<and> (\<forall>i. if ConnChan i \<in> snd ` set evs then \<exists>ev. revents_of s' i = Some ev \<and> (ev, ConnChan i) \<in> set evs
             else revents_of s' i = revents_of s i)"
  using assms
proof (induction evs s rule: set_revents.induct)
  case (2 ev evs s)
  let ?t = "s\<lparr>accept_chan := setEvents ev (accept_chan s)\<rparr>"
  have "srv_inv ?t" "\<forall>(ev, ptr) \<in> set evs. \<forall>i. ptr = ConnChan i \<longrightarrow> heap ?t i \<noteq> None"
    using 2(2,3) by auto
  moreover have rt: "revents_of ?t = revents_of s" by (simp add: revents_of_def fun_eq_iff)
  ultimately show ?case using 2(1) unfolding rt by (simp cong: if_cong)
next
  case (3 ev i evs s)
  then obtain c where c: "heap s i = Some c" by fastforce
  let ?t = "put_conn i (c\<lparr>chan := setEvents ev (chan c)\<rparr>) s"
  have ok: "conn_ok i c s" using 3(2) c by (rule srv_invD(3))
  have "srv_inv ?t" using ok by (intro srv_inv_put_same[OF 3(2) c]) (auto simp: conn_ok_def)
  moreover have "\<forall>(ev, ptr) \<in> set evs. \<forall>i. ptr = ConnChan i \<longrightarrow> heap ?t i \<noteq> None"
    using 3(3) by (auto simp: put_conn_def)
  ultimately obtain s' where s': "set_revents evs ?t = Inr s'" "srv_inv s'" "srv_poller s' = srv_poller ?t"
    "\<And>j. (heap s' j = None) = (heap ?t j = None)"
    "\<And>j. if ConnChan j \<in> snd ` set evs then \<exists>ev. revents_of s' j = Some ev \<and> (ev, ConnChan j) \<in> set evs
             else revents_of s' j = revents_of ?t j"
    using 3(1)[of c] by blast
  have t: "revents_of ?t j = (if j = i then Some ev else revents_of s j)" for j
    by (simp add: revents_of_def put_conn_def setEvents_def)
  show ?case
  proof (intro exI[of _ s'] conjI allI)
    fix j
    show "if ConnChan j \<in> snd ` set ((ev, ConnChan i) # evs)
        then \<exists>ev'. revents_of s' j = Some ev' \<and> (ev', ConnChan j) \<in> set ((ev, ConnChan i) # evs)
        else revents_of s' j = revents_of s j"
      using s'(5)[of j] t[of j] by (cases "ConnChan j \<in> snd ` set evs") auto
  qed (use s'(1-4) c in \<open>auto simp: get_conn_def put_conn_def\<close>)
qed auto

context server_app
begin

lemma handleEvent_safe:
  assumes os: "os_documented os opn" and inv: "sys_inv opn s w" and ptrs: "pending_ok (ptr # ptrs) s"
  shows "safe_run F (\<lambda>(s', w'). sys_inv opn s' w' \<and> pending_ok ptrs s') (handleEvent junk ap os ptr (s, w))"
proof (cases ptr)
  case AcceptChan
  have "safe_run F (\<lambda>(s', w'). sys_inv opn s' w' \<and> pending_ok ptrs s') (Some (acceptor_handleRead junk ap os (s, w)))"
    by (rule safe_run_mono[OF acceptor_safe[OF os inv, of junk]]) (use pending_ok_keeps[OF ptrs] in fastforce)
  moreover have "pending_ok ptrs s" using pending_ok_keeps[OF ptrs keeps_refl, of None] by simp
  ultimately show ?thesis using AcceptChan inv by (simp add: handleEvent_def)
next
  case (ConnChan i)
  have l: "live i s" and pl: "\<forall>c. heap s i = Some c \<longrightarrow> plain_event (revents (chan c))"
    using inv ptrs ConnChan by (auto simp: live_def sys_inv_def pending_ok_def)
  have "sys_inv opn s' w' \<and> pending_ok ptrs s'" if "srv_inv s' \<and> keeps (Some i) {} s s' \<and> opn w \<subseteq> opn w'" for s' w'
    using that inv pending_ok_keeps[OF ptrs, of "Some i" "{}" s'] ConnChan
    by (auto simp: sys_inv_def keeps_def)
  then have
    "safe_run F (\<lambda>(s', w'). sys_inv opn s' w' \<and> pending_ok ptrs s') (handleEvent_conn ap os i (s, w))"
    by (intro safe_run_mono[OF handleEvent_conn_safe[OF os l pl, of w]]) auto
  then show ?thesis using ConnChan by (simp add: handleEvent_def)
qed

lemma run_active_safe:
  assumes "os_documented os opn" and "sys_inv opn s w" and "pending_ok ptrs s"
  shows "safe_run F (\<lambda>(s', w'). sys_inv opn s' w') (run_active junk ap os ptrs (s, w))"
  using assms
proof (induction ptrs arbitrary: s w)
  case (Cons ptr ptrs)
  from handleEvent_safe[OF Cons.prems, of junk] show ?case
    unfolding run_active.simps by (rule safe_run_bind) (use Cons.IH[OF Cons.prems(1)] in auto)
qed simp

lemma loop_round_safe:
  assumes os: "os_documented os opn" and inv: "sys_inv opn s w" and wait: "wait_ok s wait"
  shows "safe_run F (\<lambda>(s', w'). sys_inv opn s' w') (loop_round junk ap os wait (s, w))"
proof -
  obtain evs p where poll: "poll wait (srv_poller s) = (evs, p)" by fastforce
  have p: "channels p = channels (srv_poller s)"
    using poll by (auto simp: poll_def split: sum.splits if_splits)
  have evs: "distinct (map snd evs)"
    "\<forall>(ev, ptr) \<in> set evs. plain_event ev \<and> ptr \<in> ran (channels (srv_poller s))"
    using poll wait by (auto simp: poll_def wait_ok_def split: sum.splits if_splits)
  let ?s = "s\<lparr>srv_poller := p\<rparr>"
  have inv': "srv_inv ?s" "watched_fds ?s = watched_fds s"
    using inv p by (auto simp: sys_inv_def srv_inv_def conn_ok_def watched_fds_def)
  have lv: "heap s i \<noteq> None" if "(ev, ConnChan i) \<in> set evs" for ev i
    using evs(2) that inv srv_invD(5)[of s _ i] by (fastforce simp: ran_def sys_inv_def)
  then have "\<forall>(ev, ptr) \<in> set evs. \<forall>i. ptr = ConnChan i \<longrightarrow> heap ?s i \<noteq> None" by auto
  from set_revents_ok[OF inv'(1) this] obtain t where t: "set_revents evs ?s = Inr t" "srv_inv t"
    "srv_poller t = p" "\<And>i. ConnChan i \<in> snd ` set evs \<Longrightarrow> \<exists>ev. revents_of t i = Some ev \<and> (ev, ConnChan i) \<in> set evs"
    by (auto split: if_splits)
  have "pending_ok (map snd evs) t"
    unfolding pending_ok_def using evs t(4) by (fastforce simp: revents_of_def)
  moreover have "sys_inv opn t w" using t(2,3) inv p by (simp add: sys_inv_def watched_fds_def)
  ultimately show ?thesis
    using run_active_safe[OF os, of t w "map snd evs" junk] t(1) poll by (simp add: loop_round_def)
qed

end

end
