(* ===== verification/EchoServer.thy ===== *)
theory EchoServer
  imports NetServerInv
begin

text \<open>
  The echo application of ccnet/example on top of the server: it meets the contract
  \<open>server_app\<close>, every state its event loop reaches satisfies the server invariant, and the bytes it
  sends back on a connection are, in order, the bytes it received there. The section on limits
  shows what the code does where it falls short of its intention.
\<close>

section \<open>The message callback\<close>

lemma append_peek:
  "buf_ok m \<Longrightarrow> append (peek m) (readableBytes m) b = Inr (append_bytes (buf_bytes m) b)"
  by (auto simp: append_def buffer_defs)

lemma sendInLoop_effect:
  assumes inv: "srv_inv s" and c: "heap s i = Some c" and m: "buf_ok m" and k: "cstate c = kConnected"
  shows "\<exists>s' c'. sendInLoop i (peek m) (readableBytes m) s = Inr s' \<and> srv_inv s'
     \<and> heap s' = (heap s)(i \<mapsto> c') \<and> channels (srv_poller s') = channels (srv_poller s)
     \<and> sys_log s' = sys_log s \<and> cstate c' = kConnected \<and> conn_fd c' = conn_fd c
     \<and> revents (chan c') = revents (chan c) \<and> input_buffer c' = input_buffer c
     \<and> buf_bytes (output_buffer c') = buf_bytes (output_buffer c) @ buf_bytes m"
proof -
  have ok: "conn_ok i c s" using inv c by (rule srv_invD(3))
  define d where "d = c\<lparr>output_buffer := append_bytes (buf_bytes m) (output_buffer c)\<rparr>"
  have b: "buf_ok (output_buffer d)" "buf_bytes (output_buffer d) = buf_bytes (output_buffer c) @ buf_bytes m"
    using append_bytes_ok[of "output_buffer c" "buf_bytes m"] ok by (simp_all add: d_def conn_ok_def)
  show ?thesis
  proof (cases "isWriting (chan c)")
    case True
    have "srv_inv (put_conn i d s)"
      using ok b True by (intro srv_inv_put_same[OF inv c]) (auto simp: d_def conn_ok_def)
    with True k c b append_peek[OF m] show ?thesis
      by (intro exI[of _ "put_conn i d s"] exI[of _ d]) (simp add: sendInLoop_def get_conn_def put_conn_def d_def)
  next
    case False
    define e where "e = d\<lparr>chan := ev_enableWriting (chan c)\<rparr>"
    let ?p = "updateChannel (ConnChan i) (ev_enableWriting (chan c)) (srv_poller s)"
    let ?t = "(put_conn i e s)\<lparr>srv_poller := ?p\<rparr>"
    have p: "channels ?p = channels (srv_poller s)"
      using ok by (intro updateChannel_registered) (auto simp: conn_ok_def intro!: isReading_not_NoEvent)
    have "srv_inv ?t"
      using ok b p by (intro srv_inv_put[OF inv c]) (auto simp: e_def d_def conn_ok_def)
    moreover have "sendInLoop i (peek m) (readableBytes m) s = Inr ?t"
      using False k c append_peek[OF m]
      by (simp add: sendInLoop_def get_conn_def put_conn_def conn_channel_def d_def e_def Let_def)
    ultimately show ?thesis using k b p
      by (intro exI[of _ ?t] exI[of _ e]) (simp add: put_conn_def e_def d_def ev_enableWriting_def)
  qed
qed

lemma tcp_send_effect:
  assumes inv: "srv_inv s" and c: "heap s i = Some c" and m: "buf_ok m"
  shows "\<exists>s' c'. tcp_send i m s = Inr s' \<and> srv_inv s'
     \<and> heap s' = (heap s)(i \<mapsto> c') \<and> channels (srv_poller s') = channels (srv_poller s)
     \<and> sys_log s' = sys_log s \<and> cstate c' = cstate c \<and> conn_fd c' = conn_fd c
     \<and> revents (chan c') = revents (chan c) \<and> input_buffer c' = input_buffer c
     \<and> buf_bytes (output_buffer c') = buf_bytes (output_buffer c) @ (if cstate c = kConnected then buf_bytes m else [])"
proof (cases "cstate c = kConnected")
  case True
  from sendInLoop_effect[OF inv c m this] True c show ?thesis
    by (simp add: tcp_send_def get_conn_def)
next
  case False
  with inv c show ?thesis
    by (intro exI[of _ s] exI[of _ c]) (simp add: tcp_send_def get_conn_def fun_upd_idem)
qed

lemma echo_effect:
  assumes inv: "srv_inv s" and c: "heap s i = Some c" and z: "0 \<in> set (peek (input_buffer c))"
  shows "\<exists>s' c'. echo_onMessage i s = Inr s' \<and> srv_inv s'
     \<and> heap s' = (heap s)(i \<mapsto> c') \<and> channels (srv_poller s') = channels (srv_poller s)
     \<and> sys_log s' = sys_log s \<and> cstate c' = cstate c \<and> conn_fd c' = conn_fd c
     \<and> revents (chan c') = revents (chan c) \<and> buf_bytes (input_buffer c') = []
     \<and> buf_bytes (output_buffer c') = buf_bytes (output_buffer c)
          @ (if cstate c = kConnected then buf_bytes (input_buffer c) else [])"
proof -
  have ok: "conn_ok i c s" using inv c by (rule srv_invD(3))
  then have m: "buf_ok (input_buffer c)" by (simp add: conn_ok_def)
  from tcp_send_effect[OF inv c m] obtain t d where t: "tcp_send i (input_buffer c) s = Inr t" "srv_inv t"
    "heap t = (heap s)(i \<mapsto> d)" "channels (srv_poller t) = channels (srv_poller s)"
    "sys_log t = sys_log s" "cstate d = cstate c" "conn_fd d = conn_fd c" "revents (chan d) = revents (chan c)"
    "buf_bytes (output_buffer d) = buf_bytes (output_buffer c) @ (if cstate c = kConnected then buf_bytes (input_buffer c) else [])"
    by blast
  let ?e = "d\<lparr>input_buffer := retrieveAll (input_buffer d)\<rparr>"
  have d: "heap t i = Some d" using t(3) by simp
  have "conn_ok i d t" using t(2) d by (rule srv_invD(3))
  then have "srv_inv (put_conn i ?e t)"
    by (intro srv_inv_put_same[OF t(2) d]) (auto simp: conn_ok_def)
  moreover have "echo_onMessage i s = Inr (put_conn i ?e t)"
    using c z t(1) d by (simp add: echo_onMessage_def get_conn_def)
  ultimately show ?thesis using t(3-)
    by (intro exI[of _ "put_conn i ?e t"] exI[of _ ?e]) (simp add: put_conn_def)
qed

interpretation echo_server: server_app echo_app "{OutOfBounds, SignedOverflow}"
proof
  fix i s assume "live i s"
  then obtain c where inv: "srv_inv s" and c: "heap s i = Some c" by (auto simp: live_def)
  show "safe_run {OutOfBounds, SignedOverflow} (\<lambda>s'. srv_inv s' \<and> keeps None {} s s') (Some (on_message echo_app i s))"
  proof (cases "0 \<in> set (peek (input_buffer c))")
    case True
    from echo_effect[OF inv c this] c show ?thesis
      by (auto simp: echo_app_def keeps_def watched_fds_def revents_of_def)
  next
    case False
    then show ?thesis using c by (simp add: echo_app_def echo_onMessage_def get_conn_def)
  qed
qed (simp_all add: echo_app_def live_def)


section \<open>Reachable states of the event loop\<close>

inductive srv_reach :: "conn_state \<Rightarrow> app \<Rightarrow> 'w os \<Rightarrow> tcp_server \<times> 'w \<Rightarrow> tcp_server \<times> 'w \<Rightarrow> bool"
  for junk ap os sw0 where
  start: "srv_reach junk ap os sw0 sw0"
| round: "srv_reach junk ap os sw0 (s, w) \<Longrightarrow> wait_ok s wait \<Longrightarrow>
    loop_round junk ap os wait (s, w) = Some (Inr sw') \<Longrightarrow> srv_reach junk ap os sw0 sw'"

inductive_cases srv_reachE: "srv_reach junk ap os sw0 sw"

context server_app
begin

lemma reach_inv:
  assumes "srv_reach junk ap os (s0, w0) (s, w)" and os: "os_documented os opn" and "sys_inv opn s0 w0"
  shows "sys_inv opn s w"
  using assms(1)
proof (induction "(s, w)" arbitrary: s w rule: srv_reach.induct)
  case (round s w wait s' w')
  from loop_round_safe[OF os round.hyps(2,3), of junk] round.hyps(4) show ?case by simp
qed (use assms(3) in simp)

end

text \<open>The server as \<^verbatim>\<open>main\<close> starts it: no connections, the listening socket watched.\<close>

lemma echo_main_state:
  assumes "echo_main os spawn w = (s, w')"
  shows "srv_inv s" and "watched_fds s = {sock_fd (listen_sock s)}" and "heap s = Map.empty"
    and "sys_log s = []" and "next_obj s = 0" and "newconn_cb s" and "next_conn_id s = 0"
proof -
  obtain sk w1 where c: "createSocket os \<lparr>sock_addr = mk_TcpAddr 8883, sock_fd = 0\<rparr> w = (fst (createSocket os \<lparr>sock_addr = mk_TcpAddr 8883, sock_fd = 0\<rparr> w), sk, w1)"
    by (metis prod.collapse)
  have s: "connections s = []" "heap s = Map.empty" "next_conn_id s = 0" "listen_sock s = sk" "sys_log s = []"
    "next_obj s = 0" "newconn_cb s"
    and p: "srv_poller s = updateChannel AcceptChan (ev_enableConnecting (mk_Channel (sock_fd sk))) mk_EPollPoller"
    using assms c
    by (auto simp: echo_main_def mk_TcpServer_def server_start_def acceptor_listen_def setNumThreads_def Let_def
        split: prod.splits)
  have ch: "channels (srv_poller s) = [sock_fd sk \<mapsto> AcceptChan]"
    unfolding p using isReading_not_NoEvent[of "ev_enableConnecting (mk_Channel (sock_fd sk))"]
    by (subst epoll_reg.update_on) (auto simp: mk_EPollPoller_def)
  from s ch show "srv_inv s" and "watched_fds s = {sock_fd (listen_sock s)}" and "heap s = Map.empty"
    and "sys_log s = []" and "next_obj s = 0" and "newconn_cb s" and "next_conn_id s = 0"
    by (auto simp: srv_inv_def watched_fds_def split: if_splits)
qed

text \<open>
  The echo server as \<^verbatim>\<open>main\<close> starts it never touches a destroyed connection. In every state its
  event loop reaches, over an operating system that hands out fresh descriptors and an
  \<^verbatim>\<open>epoll_wait\<close> that reports registered channels once each, the connection table, the heap of
  connections and the poller agree; the next round returns, and its only faults are the read past
  the buffer that \<^verbatim>\<open>printf("%s")\<close> in \<^verbatim>\<open>EchoServer::onMessage\<close> makes when no NUL follows the data, and the
  overflow of the connection counter.
\<close>

theorem echo_loop_safe:
  assumes "os_documented os opn" and "echo_main os spawn w00 = (s0, w0)"
    and "sock_fd (listen_sock s0) \<in> opn w0"
    and "srv_reach junk echo_app os (s0, w0) (s, w)" and "wait_ok s wait"
  shows "srv_inv s \<and> safe_run {OutOfBounds, SignedOverflow} (\<lambda>(s', w'). srv_inv s') (loop_round junk echo_app os wait (s, w))"
proof -
  have "sys_inv opn s0 w0" using echo_main_state[OF assms(2)] assms(3) by (simp add: sys_inv_def)
  from echo_server.reach_inv[OF assms(4,1) this] have "sys_inv opn s w" .
  from echo_server.loop_round_safe[OF assms(1) this assms(5), of junk] this show ?thesis
    by (auto simp: sys_inv_def intro: safe_run_mono)
qed

text \<open>A concrete system for runs: worlds count the descriptors handed out.\<close>

definition demo_os :: "(int \<times> byte list list) os" where
  "demo_os = \<lparr>os_socket = (\<lambda>fam (n, q). (n, (n + 1, q))), os_bind = (\<lambda>fd a w. (0, w)),
     os_listen = (\<lambda>fd b w. (0, w)), os_accept = (\<lambda>fd room (n, q). ((n, None), (n + 1, q))),
     os_getsockname = (\<lambda>fd room w. ((0, None), w)),
     os_recv = (\<lambda>fd room (n, q). let (r, q') = scripted_recv fd room q in (r, (n, q'))),
     os_send = (\<lambda>fd bs w. (int (length bs), w))\<rparr>"

definition demo_opn :: "int \<times> byte list list \<Rightarrow> int set" where
  "demo_opn w = {0..<fst w}"

lemma demo_documented: "os_documented demo_os demo_opn"
proof -
  have "recv_documented (os_recv demo_os)"
    using recv_documentedD[OF scripted_recv_documented]
    unfolding recv_documented_def demo_os_def by (simp split: prod.splits) blast
  moreover have "send_documented (os_send demo_os)" by (simp add: send_documented_def demo_os_def)
  ultimately show ?thesis
    by (auto simp: os_documented_def demo_opn_def demo_os_def split: prod.splits)
qed


lemma demo_main:
  assumes "echo_main demo_os Suc (3, q) = (s0, w0)"
  shows "sock_fd (listen_sock s0) = 3" and "w0 = (4, q)"
  using assms by (auto simp: echo_main_def mk_TcpServer_def server_start_def acceptor_listen_def setNumThreads_def
      createSocket_def socket_bind_def socket_listen_def demo_os_def Let_def)

theorem echo_loop_safe_witness:
  "\<exists>s0 w0. echo_main demo_os Suc (3, []) = (s0, w0) \<and> heap s0 = Map.empty
     \<and> safe_run {OutOfBounds, SignedOverflow} (\<lambda>(s', w'). srv_inv s')
         (loop_round kDisconnected echo_app demo_os (Inr [(EPOLLIN, AcceptChan)]) (s0, w0))"
proof -
  obtain s0 w0 where m: "echo_main demo_os Suc (3, []) = (s0, w0)" by (metis prod.exhaust)
  note fd = demo_main[OF m]
  have "plain_event EPOLLIN" by (simp add: plain_event_def has_def epoll_masks)
  moreover have "AcceptChan \<in> ran (channels (srv_poller s0))"
    using m by (auto simp: echo_main_def mk_TcpServer_def server_start_def acceptor_listen_def setNumThreads_def
        poller_defs Let_def split: prod.splits if_splits)
  ultimately have "wait_ok s0 (Inr [(EPOLLIN, AcceptChan)])" by (simp add: wait_ok_def)
  from echo_loop_safe[OF demo_documented m _ srv_reach.start this, of kDisconnected] fd echo_main_state(3)[OF m] m
  show ?thesis by (simp add: demo_opn_def)
qed

section \<open>The echoed stream\<close>

definition sent_to :: "int \<Rightarrow> sys_call list \<Rightarrow> byte list" where
  "sent_to fd log = concat (map (\<lambda>x. case x of SysSend fd' bs \<Rightarrow> if fd' = fd then bs else [] | _ \<Rightarrow> []) log)"

definition send_fds :: "sys_call list \<Rightarrow> int set" where
  "send_fds log = {fd. \<exists>bs. SysSend fd bs \<in> set log}"

lemma sent_to_append [simp]: "sent_to fd (l @ l') = sent_to fd l @ sent_to fd l'"
  by (simp add: sent_to_def)

lemma sent_to_send [simp]: "sent_to fd [SysSend fd' bs] = (if fd' = fd then bs else [])" "sent_to fd [] = []"
  by (simp_all add: sent_to_def)

lemma send_fds_simps [simp]:
  "send_fds [] = {}" "send_fds (l @ l') = send_fds l \<union> send_fds l'" "send_fds [SysSend fd bs] = {fd}"
  by (auto simp: send_fds_def)

lemma sent_to_none: "fd \<notin> send_fds log \<Longrightarrow> sent_to fd log = []"
  by (auto simp: sent_to_def send_fds_def split: sys_call.splits)

text \<open>
  Interleaved runs of the handlers of an echo server, with the bytes received on each connection so
  far: \<open>ds\<close> is what the socket hands over when it is drained into the free room of the buffer.
\<close>

inductive echo_io :: "'w os \<Rightarrow> tcp_server \<times> 'w \<Rightarrow> tcp_server \<Rightarrow> 'w \<Rightarrow> (nat \<Rightarrow> byte list) \<Rightarrow> bool"
  for os sw0 where
  io_start: "echo_io os sw0 (fst sw0) (snd sw0) (\<lambda>i. [])"
| io_accept: "echo_io os sw0 s w rcvd \<Longrightarrow> acceptor_handleRead junk echo_app os (s, w) = Inr (s', w') \<Longrightarrow>
    echo_io os sw0 s' w' (rcvd(next_obj s := []))"
| io_read: "echo_io os sw0 s w rcvd \<Longrightarrow> heap s i = Some c \<Longrightarrow>
    drain (os_recv os) (conn_fd c) (nat (writableBytes (input_buffer c))) w = (ds, e, w1) \<Longrightarrow>
    handleRead echo_app os i (s, w) = Some (Inr (s', w')) \<Longrightarrow>
    echo_io os sw0 (release i s') w' (rcvd(i := rcvd i @ ds))"
| io_write: "echo_io os sw0 s w rcvd \<Longrightarrow> heap s i = Some c \<Longrightarrow>
    handleWrite os i (s, w) = Some (Inr (s', w')) \<Longrightarrow> echo_io os sw0 s' w' rcvd"

definition stream_ok :: "tcp_conn \<Rightarrow> sys_call list \<Rightarrow> byte list \<Rightarrow> bool" where
  "stream_ok c log r \<longleftrightarrow> cstate c = kConnected \<and> buf_bytes (input_buffer c) = []
     \<and> sent_to (conn_fd c) log @ buf_bytes (output_buffer c) = r"

definition echo_inv :: "('w \<Rightarrow> int set) \<Rightarrow> tcp_server \<Rightarrow> 'w \<Rightarrow> (nat \<Rightarrow> byte list) \<Rightarrow> bool" where
  "echo_inv opn s w rcvd \<longleftrightarrow> sys_inv opn s w \<and> send_fds (sys_log s) \<subseteq> opn w
     \<and> (\<forall>i c. heap s i = Some c \<longrightarrow> stream_ok c (sys_log s) (rcvd i))"

lemma live_fds_distinct:
  "srv_inv s \<Longrightarrow> heap s i = Some c \<Longrightarrow> heap s j = Some d \<Longrightarrow> i \<noteq> j \<Longrightarrow> conn_fd c \<noteq> conn_fd d"
  using srv_invD(3)[of s i c] srv_invD(3)[of s j d] by (auto simp: conn_ok_def)

lemma live_fd_watched: "srv_inv s \<Longrightarrow> heap s i = Some c \<Longrightarrow> conn_fd c \<in> watched_fds s"
  using srv_invD(3)[of s i c] by (auto simp: conn_ok_def watched_fds_def)

lemma echo_inv_write:
  assumes os: "os_documented os opn" and e: "echo_inv opn s w rcvd" and c: "heap s i = Some c"
    and run: "handleWrite os i (s, w) = Some (Inr (s', w'))"
  shows "echo_inv opn s' w' rcvd"
proof (cases "isWriting (chan c)")
  case False
  with run c e show ?thesis by (simp add: handleWrite_idle)
next
  case True
  have inv: "srv_inv s" and sys: "watched_fds s \<subseteq> opn w" and log: "send_fds (sys_log s) \<subseteq> opn w"
    and str: "\<And>j d. heap s j = Some d \<Longrightarrow> stream_ok d (sys_log s) (rcvd j)"
    using e by (auto simp: echo_inv_def sys_inv_def)
  obtain n w1 where send: "os_send os (conn_fd c) (buf_bytes (output_buffer c)) w = (n, w1)" by fastforce
  from handleWrite_live[OF os inv c True send] run obtain c' where
    s': "w1 = w'" "srv_inv s'" "heap s' = (heap s)(i \<mapsto> c')" "channels (srv_poller s') = channels (srv_poller s)"
    and c': "conn_fd c' = conn_fd c" "cstate c' = cstate c" "input_buffer c' = input_buffer c"
    "buf_bytes (output_buffer c') = drop (nat n) (buf_bytes (output_buffer c))"
    and log': "sys_log s' = sys_log s @ (if 0 < n then [SysSend (conn_fd c) (take (nat n) (buf_bytes (output_buffer c)))] else [])"
    by auto
  have opn: "opn w \<subseteq> opn w'" using os_documentedD(4)[OF os send] s'(1) by simp
  have "stream_ok d (sys_log s') (rcvd j)" if "heap s' j = Some d" for j d
    using that str[of j d] str[OF c] s'(3) c' log' live_fds_distinct[OF inv c, of j d]
    by (cases "j = i") (auto simp: stream_ok_def)
  moreover have "send_fds (sys_log s') \<subseteq> opn w'"
    using log log' opn live_fd_watched[OF inv c] sys by auto
  ultimately show ?thesis using s'(2,4) sys opn by (auto simp: echo_inv_def sys_inv_def watched_fds_def)
qed

lemma echo_invD:
  assumes "echo_inv opn s w rcvd"
  shows "srv_inv s" and "watched_fds s \<subseteq> opn w" and "send_fds (sys_log s) \<subseteq> opn w"
    and "heap s j = Some d \<Longrightarrow> stream_ok d (sys_log s) (rcvd j)"
  using assms by (auto simp: echo_inv_def sys_inv_def)

text \<open>Reading, when there was nothing to read: the connection is closed and goes.\<close>

lemma echo_inv_read_close:
  assumes e: "echo_inv opn s w rcvd" and opn: "opn w \<subseteq> opn w1"
    and t: "srv_inv t" "heap t i = Some c'" and t_def: "t = put_conn i c' s"
    and s': "handleClose echo_app i t = Inr s'"
  shows "echo_inv opn (release i s') w1 rcvd"
proof -
  note D = echo_invD[OF e]
  have s': "s' = closed_state i c' t" using s' handleClose_eq[OF t(2)] by simp
  have "release i s' = forget i s'" using release_closing[OF closed_closing[OF t]] s' by simp
  moreover have "srv_inv (forget i s')" using closed_forget[OF t] s' by simp
  moreover have "watched_fds (forget i s') \<subseteq> watched_fds s"
    using closed_channels[OF t] s' by (auto simp: watched_fds_def forget_def put_conn_def t_def)
  moreover have "heap (forget i s') = (heap s)(i := None)" "sys_log (forget i s') = sys_log s"
    using s' by (simp_all add: forget_def closed_state_def put_conn_def t_def)
  ultimately show ?thesis using D opn by (auto simp: echo_inv_def sys_inv_def)
qed

text \<open>Reading, when bytes came: they are appended to the output, or dropped when the connection is not up.\<close>

lemma echo_inv_read_echo:
  assumes e: "echo_inv opn s w rcvd" and c: "heap s i = Some c" and opn: "opn w \<subseteq> opn w1"
    and b: "buf_bytes b = buf_bytes (input_buffer c) @ ds"
    and t: "srv_inv t" "heap t i = Some (c\<lparr>input_buffer := b\<rparr>)" and t_def: "t = put_conn i (c\<lparr>input_buffer := b\<rparr>) s"
    and run: "echo_onMessage i t = Inr s'"
  shows "echo_inv opn (release i s') w1 (rcvd(i := rcvd i @ ds))"
proof -
  note D = echo_invD[OF e]
  have z: "0 \<in> set (peek (input_buffer (c\<lparr>input_buffer := b\<rparr>)))"
    using run t(2) by (auto simp: echo_onMessage_def get_conn_def split: if_splits)
  from echo_effect[OF t z] run obtain c' where s': "srv_inv s'" "heap s' = (heap t)(i \<mapsto> c')"
    "channels (srv_poller s') = channels (srv_poller t)" "sys_log s' = sys_log t"
    and c': "cstate c' = cstate c" "conn_fd c' = conn_fd c" "buf_bytes (input_buffer c') = []"
    "buf_bytes (output_buffer c') = buf_bytes (output_buffer c) @ (if cstate c = kConnected then buf_bytes b else [])"
    by auto
  have "release i s' = s'" using release_live[OF s'(1)] s'(2) by simp
  moreover have "stream_ok d (sys_log s') ((rcvd(i := rcvd i @ ds)) j)" if "heap s' j = Some d" for j d
    using that D(4)[of j d] D(4)[OF c] s'(2,4) c' b by (cases "j = i") (auto simp: stream_ok_def put_conn_def t_def)
  ultimately show ?thesis using s' D opn
    by (auto simp: echo_inv_def sys_inv_def watched_fds_def put_conn_def t_def)
qed

lemma echo_inv_read:
  assumes os: "os_documented os opn" and e: "echo_inv opn s w rcvd" and c: "heap s i = Some c"
    and d: "drain (os_recv os) (conn_fd c) (nat (writableBytes (input_buffer c))) w = (ds, er, w1)"
    and run: "handleRead echo_app os i (s, w) = Some (Inr (s', w'))"
  shows "echo_inv opn (release i s') w' (rcvd(i := rcvd i @ ds))"
proof -
  have l: "live i s" using echo_invD(1)[OF e] c by (simp add: live_def)
  obtain c0 ds0 e0 w0 b where c0: "heap s i = Some c0"
    "drain (os_recv os) (conn_fd c0) (nat (writableBytes (input_buffer c0))) w = (ds0, e0, w0)"
    and b0: "buf_bytes b = buf_bytes (input_buffer c0) @ ds0" and opn0: "opn w \<subseteq> opn w0"
    and lt0: "live i (put_conn i (c0\<lparr>input_buffer := b\<rparr>) s)"
    and eq0: "handleRead echo_app os i (s, w) =
       (let s1 = put_conn i (c0\<lparr>input_buffer := b\<rparr>) s
        in bind_run (Some (if ds0 = [] then handleClose echo_app i s1 else on_message echo_app i s1)) (\<lambda>s2. Some (Inr (s2, w0))))"
    by (rule handleRead_cases[OF os l, of w echo_app])
  have same: "c0 = c" "ds0 = ds" "w0 = w1" using c0 c d by auto
  note b = b0[unfolded same] and opn = opn0[unfolded same] and lt = lt0[unfolded same] and eq = eq0[unfolded same]
  let ?t = "put_conn i (c\<lparr>input_buffer := b\<rparr>) s"
  have t: "srv_inv ?t" "heap ?t i = Some (c\<lparr>input_buffer := b\<rparr>)" using lt by (simp_all add: live_def put_conn_def)
  have w: "w' = w1" and r: "(if ds = [] then handleClose echo_app i ?t else echo_onMessage i ?t) = Inr s'"
    using run eq by (auto simp: echo_app_def bind_run_def Let_def split: sum.splits if_splits)
  show ?thesis
    using echo_inv_read_close[OF e opn t refl] echo_inv_read_echo[OF e c opn b t refl] r
    by (cases "ds = []") (auto simp: w)
qed

lemma echo_inv_accept:
  assumes os: "os_documented os opn" and e: "echo_inv opn s w rcvd"
    and run: "acceptor_handleRead junk echo_app os (s, w) = Inr (s', w')"
  shows "echo_inv opn s' w' (rcvd(next_obj s := []))"
proof -
  have inv: "srv_inv s" and sys: "sys_inv opn s w" and log: "send_fds (sys_log s) \<subseteq> opn w"
    and str: "\<And>j d. heap s j = Some d \<Longrightarrow> stream_ok d (sys_log s) (rcvd j)"
    using e by (auto simp: echo_inv_def sys_inv_def)
  obtain r a w1 where acc: "os_accept os (sock_fd (listen_sock s)) 0 w = ((r, a), w1)" by (metis prod.exhaust)
  have opn: "opn w \<subseteq> opn w1" using os_documentedD(6)[OF os acc] .
  have str': "stream_ok d (sys_log s) ((rcvd(next_obj s := [])) j)" if "heap s j = Some d" for j d
    using that str next_obj_free[OF inv, of "next_obj s"] by auto
  show ?thesis
  proof (cases "0 \<le> r \<and> newconn_cb s")
    case True
    let ?pa = "case a of None \<Rightarrow> zero_addr | Some a \<Rightarrow> a"
    obtain la w2 where g: "getSockAddr os r w1 = (la, w2)" by fastforce
    have "s' = accepted r la ?pa s" "w' = w2"
      using True run acc newConnection_eq[OF inv g, of junk echo_app]
      by (auto simp: acceptor_handleRead_def socket_accept_def echo_app_def Let_def split: if_splits)
    moreover have "stream_ok (fresh_conn n r la ?pa) (sys_log s) []" for n
      using os_documentedD(7)[OF os acc] True log sent_to_none[of r "sys_log s"]
      by (auto simp: stream_ok_def fresh_conn_def mk_TcpConnection_def)
    moreover have "opn w1 \<subseteq> opn w2" using getSockAddr_opn[OF os g] .
    moreover have "sys_inv opn s' w'"
      using echo_server.acceptor_safe[OF os sys, of junk] run by simp
    ultimately show ?thesis using opn log str
      by (auto simp: echo_inv_def accepted_def split: if_splits)
  next
    case False
    define l where "l = (if 0 \<le> r then [SysClose (sock_fd (listen_sock s))] else [])"
    have s': "s' = s\<lparr>sys_log := sys_log s @ l\<rparr>" "w' = w1"
      using run acc False by (auto simp: acceptor_handleRead_def socket_accept_def l_def split: if_splits)
    have l: "\<And>fd. sent_to fd l = []" "send_fds l = {}" by (simp_all add: l_def sent_to_def send_fds_def)
    have "sys_inv opn s' w'" using echo_server.acceptor_safe[OF os sys, of junk] run by simp
    moreover have "stream_ok d (sys_log s @ l) ((rcvd(next_obj s := [])) j)" if "heap s j = Some d" for j d
      using str'[OF that] l(1) by (simp only: stream_ok_def sent_to_append append_Nil2)
    moreover have "send_fds (sys_log s @ l) \<subseteq> opn w'" using log opn l(2) s'(2) by auto
    ultimately show ?thesis using s'(1) by (simp add: echo_inv_def)
  qed
qed

lemma echo_io_inv:
  assumes "os_documented os opn" and "echo_main os spawn w00 = (s0, w0)"
    and "sock_fd (listen_sock s0) \<in> opn w0" and "echo_io os (s0, w0) s w rcvd"
  shows "echo_inv opn s w rcvd"
  using assms(4)
proof (induction rule: echo_io.induct)
  case io_start
  show ?case using echo_main_state[OF assms(2)] assms(3) by (simp add: echo_inv_def sys_inv_def)
next
  case (io_accept s w rcvd junk s' w')
  then show ?case using echo_inv_accept[OF assms(1)] by blast
next
  case (io_read s w rcvd i c ds e w1 s' w')
  then show ?case using echo_inv_read[OF assms(1)] by blast
next
  case (io_write s w rcvd i c s' w')
  then show ?case using echo_inv_write[OF assms(1)] by blast
qed

text \<open>
  C2. Whatever a peer sends comes back unchanged and in order. In every interleaving of accepts,
  reads and writes of the echo server, the bytes handed to the kernel for a live connection,
  followed by the bytes waiting in its output buffer, are exactly the bytes received on it so far;
  nothing is left in the input buffer, and while bytes wait the channel asks for \<^verbatim>\<open>EPOLLOUT\<close>.
\<close>

theorem echo_stream:
  assumes "os_documented os opn" and "echo_main os spawn w00 = (s0, w0)"
    and "sock_fd (listen_sock s0) \<in> opn w0"
    and "echo_io os (s0, w0) s w rcvd" and "heap s i = Some c"
  shows "sent_to (conn_fd c) (sys_log s) @ buf_bytes (output_buffer c) = rcvd i
     \<and> buf_bytes (input_buffer c) = []
     \<and> (buf_bytes (output_buffer c) \<noteq> [] \<longrightarrow> isWriting (chan c))"
  using echo_io_inv[OF assms(1-4)] assms(5) srv_invD(3)[of s i c]
  by (auto simp: echo_inv_def stream_ok_def conn_ok_def sys_inv_def)


text \<open>A run of the concrete system: start, accept descriptor 4, read three bytes.\<close>

lemma demo_accept:
  assumes "srv_inv s" and "newconn_cb s" and "next_conn_id s = 0"
  shows "acceptor_handleRead kDisconnected echo_app demo_os (s, (4, q))
     = Inr (accepted 4 zero_addr zero_addr s, (5, q))"
proof -
  have "getSockAddr demo_os 4 (5, q) = (zero_addr, (5, q))" by (simp add: getSockAddr_def demo_os_def)
  from newConnection_eq[OF assms(1) this, of kDisconnected echo_app zero_addr] assms(2,3) show ?thesis
    by (simp add: acceptor_handleRead_def socket_accept_def demo_os_def echo_app_def)
qed

lemma demo_drain:
  "drain (os_recv demo_os) fd 1024 (5, [[104, 105, 0]]) = ([104, 105, 0], Some 11, (5, []))"
  by (simp add: drain.simps demo_os_def)

lemma demo_read:
  assumes l: "live i s" and c: "heap s i = Some c" "input_buffer c = mk_Buffer kInitialSize"
  shows "\<exists>s' c'. handleRead echo_app demo_os i (s, (5, [[104, 105, 0]])) = Some (Inr (s', (5, [])))
     \<and> srv_inv s' \<and> heap s' i = Some c'"
proof -
  obtain c0 ds0 e0 w0 b where c0: "heap s i = Some c0"
    "drain (os_recv demo_os) (conn_fd c0) (nat (writableBytes (input_buffer c0))) (5, [[104, 105, 0]]) = (ds0, e0, w0)"
    and b: "buf_bytes b = buf_bytes (input_buffer c0) @ ds0"
    and lt: "live i (put_conn i (c0\<lparr>input_buffer := b\<rparr>) s)"
    and eq: "handleRead echo_app demo_os i (s, (5, [[104, 105, 0]])) =
       (let s1 = put_conn i (c0\<lparr>input_buffer := b\<rparr>) s
        in bind_run (Some (if ds0 = [] then handleClose echo_app i s1 else on_message echo_app i s1)) (\<lambda>s2. Some (Inr (s2, w0))))"
    by (rule handleRead_cases[OF demo_documented l])
  have ds: "ds0 = [104, 105, 0]" "w0 = (5, [])"
    using c0 c demo_drain[of "conn_fd c0"] by (auto simp: writableBytes_def mk_Buffer_def buffer_defs(1,2))
  have "0 \<in> set (buf_bytes b)" using b ds by simp
  then have z: "0 \<in> set (peek b)" by (auto simp: buf_bytes_def dest: in_set_takeD)
  have t: "srv_inv (put_conn i (c0\<lparr>input_buffer := b\<rparr>) s)"
    "heap (put_conn i (c0\<lparr>input_buffer := b\<rparr>) s) i = Some (c0\<lparr>input_buffer := b\<rparr>)"
    using lt by (simp_all add: live_def put_conn_def)
  from echo_effect[OF t] z eq ds show ?thesis by (auto simp: echo_app_def)
qed

lemma demo_echo_run:
  "\<exists>s0 w0 s w rcvd c. echo_main demo_os Suc (3, [[104, 105, 0]]) = (s0, w0) \<and> sock_fd (listen_sock s0) \<in> demo_opn w0
     \<and> echo_io demo_os (s0, w0) s w rcvd \<and> heap s 0 = Some c \<and> rcvd 0 = [104, 105, 0]"
proof -
  obtain s0 w0 where m: "echo_main demo_os Suc (3, [[104, 105, 0]]) = (s0, w0)" by (metis prod.exhaust)
  note s0 = echo_main_state[OF m] and fd = demo_main[OF m]
  let ?s1 = "accepted 4 zero_addr zero_addr s0"
  let ?c = "fresh_conn (next_name s0) 4 zero_addr zero_addr"
  have io1: "echo_io demo_os (s0, w0) ?s1 (5, [[104, 105, 0]]) ((\<lambda>i. [])(next_obj s0 := []))"
    using echo_io.io_accept[OF echo_io.io_start, of kDisconnected demo_os "(s0, w0)"]
      demo_accept[OF s0(1,6,7)] fd by simp
  have c: "heap ?s1 0 = Some ?c" using s0(5) by (simp add: accepted_def)
  have "srv_inv ?s1" using accepted_inv[OF s0(1), of 4] s0(2) fd by simp
  with c have "live 0 ?s1" by (simp add: live_def)
  from demo_read[OF this c] obtain s' c' where
    r: "handleRead echo_app demo_os 0 (?s1, (5, [[104, 105, 0]])) = Some (Inr (s', (5, [])))"
    "srv_inv s'" "heap s' 0 = Some c'"
    by (auto simp: fresh_conn_def mk_TcpConnection_def)
  have d: "drain (os_recv demo_os) (conn_fd ?c) (nat (writableBytes (input_buffer ?c))) (5, [[104, 105, 0]])
      = ([104, 105, 0], Some 11, (5, []))"
    using demo_drain by (simp add: fresh_conn_def mk_TcpConnection_def writableBytes_def mk_Buffer_def buffer_defs(1,2))
  from echo_io.io_read[OF io1 c d r(1)] have io2: "echo_io demo_os (s0, w0) (release 0 s') (5, []) (\<lambda>i. if i = 0 then [104, 105, 0] else [])"
    by (simp add: fun_upd_def s0(5) cong: if_cong)
  have rel: "release 0 s' = s'" using release_live[OF r(2,3)] .
  have "sock_fd (listen_sock s0) \<in> demo_opn w0" using fd by (simp add: demo_opn_def)
  with m io2 r(3) rel show ?thesis by fastforce
qed

theorem echo_stream_witness:
  "\<exists>s0 w0 s w rcvd c. echo_main demo_os Suc (3, [[104, 105, 0]]) = (s0, w0)
     \<and> echo_io demo_os (s0, w0) s w rcvd \<and> heap s 0 = Some c
     \<and> sent_to (conn_fd c) (sys_log s) @ buf_bytes (output_buffer c) = [104, 105, 0]"
proof -
  obtain s0 w0 s w rcvd c where m: "echo_main demo_os Suc (3, [[104, 105, 0]]) = (s0, w0)"
    and o: "sock_fd (listen_sock s0) \<in> demo_opn w0" and io: "echo_io demo_os (s0, w0) s w rcvd"
    and c: "heap s 0 = Some c" "rcvd 0 = [104, 105, 0]" using demo_echo_run by blast
  from echo_stream[OF demo_documented m o io c(1)] c(2) have "sent_to (conn_fd c) (sys_log s) @ buf_bytes (output_buffer c) = [104, 105, 0]"
    by simp
  with m io c(1) show ?thesis by blast
qed

section \<open>Accepting and closing\<close>

text \<open>
  Accepting a connection on a descriptor the poller does not watch succeeds unless the connection counter is at its
  maximum, in which case it overflows: the name
  built from the server's name and the counter is not in use, so no other connection is dropped
  from the table; the new object is connected, reads, is watched under its descriptor and the
  invariant holds again.
\<close>

theorem newConnection_fresh:
  assumes "srv_inv s" and "fd \<notin> watched_fds s" and "next_conn_id s < 2 ^ 31 - 1"
  shows "\<exists>s' w' c. newConnection junk echo_app os fd pa (s, w) = Inr (s', w') \<and> srv_inv s'
     \<and> map_of (connections s) (next_name s) = None \<and> heap s (next_obj s) = None
     \<and> map_of (connections s') = (map_of (connections s))(next_name s \<mapsto> next_obj s)
     \<and> heap s' = (heap s)(next_obj s \<mapsto> c) \<and> conn_name c = next_name s \<and> conn_fd c = fd
     \<and> cstate c = kConnected \<and> isReading (chan c)
     \<and> channels (srv_poller s') = (channels (srv_poller s))(fd \<mapsto> ConnChan (next_obj s))"
proof -
  obtain la w' where g: "getSockAddr os fd w = (la, w')" by fastforce
  have "newConnection junk echo_app os fd pa (s, w) = Inr (accepted fd la pa s, w')"
    using newConnection_eq[OF assms(1) g, of junk echo_app pa] assms(3) by (simp add: echo_app_def)
  then show ?thesis
    using accepted_inv[OF assms(1,2), of la pa] accepted_channels[OF assms(2), of la pa] next_name_free[OF assms(1)]
      next_obj_free[OF assms(1), of "next_obj s"] srv_invD(1)[OF assms(1)]
    by (intro exI[of _ "accepted fd la pa s"] exI[of _ w'] exI[of _ "fresh_conn (next_name s) fd la pa"])
      (simp add: accepted_def fresh_conn_def mk_TcpConnection_def)
qed

definition idle_server :: tcp_server where
  "idle_server = fst (echo_main demo_os Suc (3, []))"

lemma idle_server_state: "srv_inv idle_server" "watched_fds idle_server = {3}" "next_conn_id idle_server = 0"
  using echo_main_state[of demo_os Suc "(3, [])" idle_server "snd (echo_main demo_os Suc (3, []))"]
    demo_main[of "[]" idle_server "snd (echo_main demo_os Suc (3, []))"]
  by (simp_all add: idle_server_def)

theorem newConnection_fresh_witness:
  "\<exists>s' w'. newConnection kConnecting echo_app demo_os 4 zero_addr (idle_server, (5, [])) = Inr (s', w')
     \<and> srv_inv s' \<and> channels (srv_poller s') 4 = Some (ConnChan (next_obj idle_server))"
  using newConnection_fresh[OF idle_server_state(1), of 4 kConnecting demo_os zero_addr "(5, [])"] idle_server_state(2,3)
  by auto

text \<open>
  C29. When the first \<^verbatim>\<open>recv\<close> of a read event delivers nothing, whether the peer closed, the call
  failed (also with \<^verbatim>\<open>EAGAIN\<close>) or the input buffer has no room left, \<open>handleRead\<close> closes the
  connection: it leaves the table and the poller, its state is \<open>kDisconnected\<close>, every other connection
  is untouched, and once the guard is dropped the invariant holds without it.
\<close>

theorem handleRead_closes:
  assumes "os_documented os opn" and "srv_inv s" and "heap s i = Some c"
    and "drain (os_recv os) (conn_fd c) (nat (writableBytes (input_buffer c))) w = ([], e, w')"
  shows "\<exists>s' c'. handleRead ap os i (s, w) = Some (Inr (s', w'))
     \<and> heap s' = (heap s)(i \<mapsto> c') \<and> cstate c' = kDisconnected
     \<and> connections s' = map_erase (conn_name c) (connections s)
     \<and> channels (srv_poller s') = (channels (srv_poller s))(conn_fd c := None)
     \<and> heap (release i s') = (heap s)(i := None) \<and> srv_inv (release i s')"
proof -
  have l: "live i s" using assms(2,3) by (simp add: live_def)
  obtain c0 ds0 e0 w0 b where c0: "heap s i = Some c0"
    "drain (os_recv os) (conn_fd c0) (nat (writableBytes (input_buffer c0))) w = (ds0, e0, w0)"
    and lt: "live i (put_conn i (c0\<lparr>input_buffer := b\<rparr>) s)"
    and eq: "handleRead ap os i (s, w) =
       (let s1 = put_conn i (c0\<lparr>input_buffer := b\<rparr>) s
        in bind_run (Some (if ds0 = [] then handleClose ap i s1 else on_message ap i s1)) (\<lambda>s2. Some (Inr (s2, w0))))"
    by (rule handleRead_cases[OF assms(1) l])
  have same: "c0 = c" "ds0 = []" "w0 = w'" using c0 assms(3,4) by auto
  let ?c = "c\<lparr>input_buffer := b\<rparr>"
  let ?t = "put_conn i ?c s"
  have t: "srv_inv ?t" "heap ?t i = Some ?c" using lt same by (simp_all add: live_def put_conn_def)
  let ?u = "closed_state i ?c ?t"
  have "handleRead ap os i (s, w) = Some (Inr (?u, w'))" using eq same handleClose_eq[OF t(2)] by simp
  moreover have "release i ?u = forget i ?u" using release_closing[OF closed_closing[OF t]] .
  moreover have "channels (srv_poller ?u) = (channels (srv_poller s))(conn_fd c := None)"
    using closed_channels[OF t] by (simp add: put_conn_def)
  ultimately show ?thesis using closed_forget[OF t]
    by (intro exI[of _ ?u] exI[of _ "?c\<lparr>cstate := kDisconnected, chan := ev_disableAll (chan c)\<rparr>"])
      (simp add: closed_state_def forget_def put_conn_def)
qed

theorem handleRead_closes_witness:
  "\<exists>s' c'. handleRead echo_app demo_os (next_obj idle_server) (accepted 4 zero_addr zero_addr idle_server, (5, []))
      = Some (Inr (s', (5, []))) \<and> heap s' (next_obj idle_server) = Some c' \<and> cstate c' = kDisconnected
      \<and> srv_inv (release (next_obj idle_server) s')"
proof -
  let ?s = "accepted 4 zero_addr zero_addr idle_server" and ?i = "next_obj idle_server"
  let ?c = "fresh_conn (next_name idle_server) 4 zero_addr zero_addr"
  have c: "heap ?s ?i = Some ?c" by (simp add: accepted_def)
  have inv: "srv_inv ?s" using accepted_inv[OF idle_server_state(1)] idle_server_state(2) by simp
  have "drain (os_recv demo_os) (conn_fd ?c) (nat (writableBytes (input_buffer ?c))) (5, []) = ([], Some 11, (5, []))"
    by (simp add: drain.simps demo_os_def)
  from handleRead_closes[OF demo_documented inv c this, of echo_app] show ?thesis by auto
qed

section \<open>Limits\<close>

text \<open>\<^verbatim>\<open>socket_\<close> is never created: shutting down a connection that is not writing dereferences a null pointer.\<close>

lemma shutdown_null:
  assumes "heap s i = Some c" and "cstate c = kConnected" and "\<not> isWriting (chan c)" and "conn_socket c = None"
  shows "tcp_shutdown i s = Inl NullDeref"
  using assms by (simp add: tcp_shutdown_def shutdownInLoop_def get_conn_def put_conn_def)

text \<open>
  A hang-up reported without \<^verbatim>\<open>EPOLLIN\<close> but with \<^verbatim>\<open>EPOLLRDHUP\<close> closes the connection twice; the second time
  the poller registers the channel again, and after the event it points to a destroyed object.
\<close>

lemma double_close_dangles:
  assumes "srv_inv s" and "heap s i = Some c"
  shows "\<exists>s1 s2. handleClose ap i s = Inr s1 \<and> handleClose ap i s1 = Inr s2
     \<and> channels (srv_poller (release i s2)) (conn_fd c) = Some (ConnChan i) \<and> heap (release i s2) i = None"
proof -
  have ok: "conn_ok i c s" using assms by (rule srv_invD(3))
  let ?s1 = "closed_state i c s"
  let ?d = "c\<lparr>cstate := kDisconnected, chan := ev_disableAll (chan c)\<rparr>"
  have d: "heap ?s1 i = Some ?d" by (simp add: closed_state_def)
  let ?s2 = "closed_state i ?d ?s1"
  have "channels (srv_poller ?s1) (conn_fd c) = None" using closed_channels[OF assms] by simp
  then have ch: "channels (srv_poller ?s2) (conn_fd c) = Some (ConnChan i)"
    using epoll_reg.disable_twice_registers[of "srv_poller ?s1" "chan ?d" "ConnChan i"] ok
    by (simp add: closed_state_def[of i ?d] conn_ok_def)
  have "i \<notin> snd ` set (connections ?s1)"
    using srv_inv_unowned[OF closed_forget[OF assms], of i] by (simp add: forget_def)
  then have "i \<notin> snd ` set (connections ?s2)" by (auto simp: closed_state_def[of i ?d] map_erase_def)
  then show ?thesis
    using handleClose_eq[OF assms(2), of ap] handleClose_eq[OF d, of ap] ch by (simp add: release_def)
qed

end
