(* ===== verification/EventLoop.thy ===== *)
theory EventLoop
  imports EchoServer
begin

text \<open>
  The event loop of ccnet as a whole (ccnet/net/EventLoop.cc): the endless \<^verbatim>\<open>loop()\<close> over the rounds of NetServer, and the
  complete echo program (ccnet/example/server.cc), from the construction of the server to the loop. \<^verbatim>\<open>epoll_wait\<close> is the
  argument \<open>ew\<close>, a call over the state of the outside world. The lemmas show what the whole program can come to,
  for every application that meets the contract \<open>server_app\<close>, and that pending output is sent.
\<close>

section \<open>EventLoop\<close>

type_synonym 'w wait_call = "chan_ptr poller \<Rightarrow> 'w \<Rightarrow> (int + (u32 \<times> chan_ptr) list) \<times> 'w"

record loop_flags =
  quit :: bool
  looping :: bool

text \<open>One turn of the \<^verbatim>\<open>while\<close>: wait, and run the active channels.\<close>

definition loop_turn ::
  "conn_state \<Rightarrow> app \<Rightarrow> 'w os \<Rightarrow> 'w wait_call \<Rightarrow> tcp_server \<times> 'w \<Rightarrow> (tcp_server \<times> 'w) run" where
  "loop_turn junk ap os ew sw =
     (let (wait, w1) = ew (srv_poller (fst sw)) (snd sw) in loop_round junk ap os wait (fst sw, w1))"

partial_function (option) loop_while ::
  "conn_state \<Rightarrow> app \<Rightarrow> 'w os \<Rightarrow> 'w wait_call \<Rightarrow> loop_flags \<Rightarrow> tcp_server \<times> 'w \<Rightarrow> (loop_flags \<times> tcp_server \<times> 'w) run" where
  "loop_while junk ap os ew fl sw =
     (if quit fl then Some (Inr (fl, sw))
      else bind_run (loop_turn junk ap os ew sw) (\<lambda>sw'. loop_while junk ap os ew fl sw'))"

definition event_loop ::
  "conn_state \<Rightarrow> app \<Rightarrow> 'w os \<Rightarrow> 'w wait_call \<Rightarrow> loop_flags \<Rightarrow> tcp_server \<times> 'w \<Rightarrow> (loop_flags \<times> tcp_server \<times> 'w) run" where
  "event_loop junk ap os ew fl sw = loop_while junk ap os ew (fl\<lparr>quit := False, looping := True\<rparr>) sw"

text \<open>\<^verbatim>\<open>runInLoop\<close> calls its functor in place.\<close>

definition runInLoop :: "('s \<Rightarrow> 's res) \<Rightarrow> 's \<Rightarrow> 's res" where
  "runInLoop cb s = cb s"

definition loop_updateChannel :: "chan_ptr \<Rightarrow> channel \<Rightarrow> tcp_server \<Rightarrow> tcp_server" where
  "loop_updateChannel ptr ch s = s\<lparr>srv_poller := updateChannel ptr ch (srv_poller s)\<rparr>"

definition loop_removeChannel :: "chan_ptr \<Rightarrow> channel \<Rightarrow> tcp_server \<Rightarrow> tcp_server" where
  "loop_removeChannel ptr ch s = s\<lparr>srv_poller := removeChannel ptr ch (srv_poller s)\<rparr>"

text \<open>\<^verbatim>\<open>main\<close> of ccnet/example/server.cc: the members of the loop are uninitialised before \<^verbatim>\<open>loop()\<close> sets them.\<close>

definition echo_program ::
  "loop_flags \<Rightarrow> conn_state \<Rightarrow> 'w os \<Rightarrow> 'w wait_call \<Rightarrow> (nat \<Rightarrow> nat) \<Rightarrow> 'w \<Rightarrow> (loop_flags \<times> tcp_server \<times> 'w) run" where
  "echo_program fl junk os ew spawn w = event_loop junk echo_app os ew fl (echo_main os spawn w)"

section \<open>Turns\<close>

text \<open>The state after \<open>n\<close> turns, if no turn faults before.\<close>

fun loop_turns ::
  "conn_state \<Rightarrow> app \<Rightarrow> 'w os \<Rightarrow> 'w wait_call \<Rightarrow> nat \<Rightarrow> tcp_server \<times> 'w \<Rightarrow> (tcp_server \<times> 'w) run" where
  "loop_turns junk ap os ew 0 sw = Some (Inr sw)"
| "loop_turns junk ap os ew (Suc n) sw = bind_run (loop_turn junk ap os ew sw) (loop_turns junk ap os ew n)"

lemma loop_while_fault:
  assumes "\<not> quit fl" and "loop_turns junk ap os ew n sw = Some (Inl e)"
  shows "loop_while junk ap os ew fl sw = Some (Inl e)"
  using assms(2)
proof (induction n arbitrary: sw)
  case (Suc n)
  then show ?case using assms(1)
    by (subst loop_while.simps) (auto simp: bind_run_def split: option.splits sum.splits)
qed simp

text \<open>Since nothing sets \<^verbatim>\<open>quit_\<close>, the loop returns only through a fault of one of its turns.\<close>

lemma loop_while_returns:
  assumes "loop_while junk ap os ew fl sw = Some r" and "\<not> quit fl"
  shows "\<exists>n e. r = Inl e \<and> loop_turns junk ap os ew n sw = Some (Inl e)"
proof -
  let ?P = "\<lambda>junk ap os ew fl sw r. \<not> quit fl \<longrightarrow> (\<exists>n e. r = Inl e \<and> loop_turns junk ap os ew n sw = Some (Inl e))"
  have "?P junk ap os ew fl sw r" using assms(1)
  proof (rule loop_while.raw_induct[where P = ?P, rotated])
    fix rec junk ap os ew fl sw r
    assume IH: "\<And>junk ap os ew fl sw r. rec junk ap os ew fl sw = Some r \<Longrightarrow> ?P junk ap os ew fl sw r"
      and run: "(if quit fl then Some (Inr (fl, sw)) else bind_run (loop_turn junk ap os ew sw) (\<lambda>sw'. rec junk ap os ew fl sw')) = Some r"
    show "?P junk ap os ew fl sw r"
    proof
      assume q: "\<not> quit fl"
      with run obtain t where t: "loop_turn junk ap os ew sw = Some t" by (cases "loop_turn junk ap os ew sw") auto
      show "\<exists>n e. r = Inl e \<and> loop_turns junk ap os ew n sw = Some (Inl e)"
      proof (cases t)
        case (Inl e)
        then have "r = Inl e \<and> loop_turns junk ap os ew 1 sw = Some (Inl e)" using t run q by simp
        then show ?thesis by blast
      next
        case (Inr sw')
        then obtain n e where "r = Inl e" "loop_turns junk ap os ew n sw' = Some (Inl e)"
          using IH[of junk ap os ew fl sw' r] run q t by auto
        then have "r = Inl e \<and> loop_turns junk ap os ew (Suc n) sw = Some (Inl e)" using t Inr by simp
        then show ?thesis by blast
      qed
    qed
  qed
  with assms(2) show ?thesis by blast
qed

section \<open>The outcome of the loop\<close>

text \<open>What \<^verbatim>\<open>epoll_wait\<close> promises: it reports registered channels, each once; it opens and closes nothing.\<close>

definition wait_documented :: "'w wait_call \<Rightarrow> ('w \<Rightarrow> int set) \<Rightarrow> bool" where
  "wait_documented ew opn \<longleftrightarrow>
     (\<forall>s w. wait_ok s (fst (ew (srv_poller s) w)) \<and> opn (snd (ew (srv_poller s) w)) = opn w)"

context server_app
begin

lemma loop_turn_safe:
  assumes "os_documented os opn" and "wait_documented ew opn" and "sys_inv opn s w"
  shows "safe_run F (\<lambda>(s', w'). sys_inv opn s' w') (loop_turn junk ap os ew (s, w))"
proof -
  obtain wait w1 where ew: "ew (srv_poller s) w = (wait, w1)" by fastforce
  have w: "wait_ok s wait" "opn w1 = opn w" using assms(2) ew unfolding wait_documented_def by (metis fst_conv, metis snd_conv)
  have "sys_inv opn s w1" using assms(3) w(2) by (simp add: sys_inv_def)
  from loop_round_safe[OF assms(1) this w(1), of junk] ew show ?thesis by (simp add: loop_turn_def)
qed

lemma loop_turns_safe:
  assumes "os_documented os opn" and "wait_documented ew opn" and "sys_inv opn s w"
  shows "safe_run F (\<lambda>(s', w'). sys_inv opn s' w') (loop_turns junk ap os ew n (s, w))"
  using assms(3)
proof (induction n arbitrary: s w)
  case (Suc n)
  show ?case unfolding loop_turns.simps
    by (rule safe_run_bind[OF loop_turn_safe[OF assms(1,2) Suc.prems]]) (auto intro: Suc.IH)
qed simp

text \<open>The loop either runs for ever, every turn of it coming to its end, or stops at a fault of the application.\<close>

lemma loop_outcome:
  assumes os: "os_documented os opn" and ew: "wait_documented ew opn" and inv: "sys_inv opn s w" and q: "\<not> quit fl"
  shows "loop_while junk ap os ew fl (s, w) = None
       \<and> (\<forall>n. \<exists>s' w'. loop_turns junk ap os ew n (s, w) = Some (Inr (s', w')) \<and> sys_inv opn s' w')
     \<or> (\<exists>n e. e \<in> F \<and> loop_turns junk ap os ew n (s, w) = Some (Inl e) \<and> loop_while junk ap os ew fl (s, w) = Some (Inl e))"
proof (cases "\<exists>n e. loop_turns junk ap os ew n (s, w) = Some (Inl e)")
  case True
  then obtain n e where f: "loop_turns junk ap os ew n (s, w) = Some (Inl e)" by blast
  with loop_turns_safe[OF os ew inv, of junk n] have "e \<in> F" by simp
  with f loop_while_fault[OF q f] show ?thesis by blast
next
  case False
  have "\<exists>s' w'. loop_turns junk ap os ew n (s, w) = Some (Inr (s', w')) \<and> sys_inv opn s' w'" for n
    using loop_turns_safe[OF os ew inv, of junk n] False
    by (auto simp: safe_run_def split: option.splits sum.splits)
  moreover have "loop_while junk ap os ew fl (s, w) = None"
    using loop_while_returns[OF _ q] False by (cases "loop_while junk ap os ew fl (s, w)") blast+
  ultimately show ?thesis by blast
qed

end


text \<open>A system on which nothing ever happens: the program waits for ever.\<close>

definition no_events :: "'w wait_call" where
  "no_events p w = (Inr [], w)"

lemma no_events_turns: "loop_turns junk ap os no_events n sw = Some (Inr sw)"
  by (induction n) (simp_all add: loop_turn_def no_events_def loop_round_def poll_def)


text \<open>With the default callbacks only the counter can overflow.\<close>

lemma default_server_runs_for_ever:
  assumes "os_documented os opn" and "wait_documented ew opn" and "sys_inv opn s w"
  shows "event_loop junk default_app os ew fl (s, w) \<in> {None, Some (Inl SignedOverflow)}"
  using default_server.loop_outcome[OF assms, of "fl\<lparr>quit := False, looping := True\<rparr>" junk]
  by (auto simp: event_loop_def)

section \<open>Pending output is sent\<close>

text \<open>\<open>n\<close> write events in a row on connection \<open>i\<close>.\<close>

fun write_events :: "'w os \<Rightarrow> nat \<Rightarrow> nat \<Rightarrow> tcp_server \<times> 'w \<Rightarrow> (tcp_server \<times> 'w) run" where
  "write_events os i 0 sw = Some (Inr sw)"
| "write_events os i (Suc n) sw = bind_run (handleWrite os i sw) (write_events os i n)"

text \<open>A kernel that reports \<^verbatim>\<open>EPOLLOUT\<close> takes at least one byte.\<close>

definition send_progress :: "'w os \<Rightarrow> bool" where
  "send_progress os \<longleftrightarrow> (\<forall>fd bs w. bs \<noteq> [] \<longrightarrow> 0 < fst (os_send os fd bs w))"

lemma write_events_flush:
  assumes os: "os_documented os opn" and m: "echo_main os spawn w00 = (s0, w0)" and o: "sock_fd (listen_sock s0) \<in> opn w0"
    and p: "send_progress os"
    and "echo_io os (s0, w0) s w rcvd" and "heap s i = Some c" and "length (buf_bytes (output_buffer c)) \<le> n"
  shows "\<exists>s' w' c'. write_events os i n (s, w) = Some (Inr (s', w')) \<and> echo_io os (s0, w0) s' w' rcvd
     \<and> heap s' i = Some c' \<and> conn_fd c' = conn_fd c \<and> buf_bytes (output_buffer c') = []"
  using assms(5-)
proof (induction n arbitrary: s w c)
  case 0
  then show ?case by auto
next
  case (Suc n)
  have inv: "srv_inv s" using echo_invD(1)[OF echo_io_inv[OF os m o Suc.prems(1)]] .
  show ?case
  proof (cases "isWriting (chan c)")
    case False
    have "buf_bytes (output_buffer c) = []" using srv_invD(3)[OF inv Suc.prems(2)] False by (auto simp: conn_ok_def)
    with Suc.IH[OF Suc.prems(1,2)] handleWrite_idle[OF Suc.prems(2) False, of os w] show ?thesis by simp
  next
    case True
    obtain k w1 where send: "os_send os (conn_fd c) (buf_bytes (output_buffer c)) w = (k, w1)" by fastforce
    from handleWrite_live[OF os inv Suc.prems(2) True send] obtain t d where
      t: "handleWrite os i (s, w) = Some (Inr (t, w1))" "heap t i = Some d" "conn_fd d = conn_fd c"
      "buf_bytes (output_buffer d) = drop (nat k) (buf_bytes (output_buffer c))" by auto
    have io: "echo_io os (s0, w0) t w1 rcvd" by (rule io_write[OF Suc.prems(1,2) t(1)])
    have "length (buf_bytes (output_buffer d)) \<le> n"
    proof (cases "buf_bytes (output_buffer c) = []")
      case False
      then have "0 < k" using p send unfolding send_progress_def by (metis fst_conv)
      then show ?thesis using t(4) Suc.prems(3) by simp
    qed (simp add: t(4))
    with Suc.IH[OF io t(2)] t(1,3) show ?thesis by simp
  qed
qed

text \<open>
  C5. What a peer sends is eventually sent back: in every state of the echo server, for every connection, as many write
  events as bytes are pending there suffice, if the kernel takes at least one byte each time it reports the
  socket writable, to empty the output buffer; after them exactly the bytes received on the connection have been handed
  to the kernel.
\<close>

theorem echo_flushes:
  assumes "os_documented os opn" and "echo_main os spawn w00 = (s0, w0)" and "sock_fd (listen_sock s0) \<in> opn w0"
    and "send_progress os" and "echo_io os (s0, w0) s w rcvd" and "heap s i = Some c"
  shows "\<exists>s' w'. write_events os i (length (buf_bytes (output_buffer c))) (s, w) = Some (Inr (s', w'))
     \<and> echo_io os (s0, w0) s' w' rcvd \<and> sent_to (conn_fd c) (sys_log s') = rcvd i"
proof -
  obtain s' w' c' where r: "write_events os i (length (buf_bytes (output_buffer c))) (s, w) = Some (Inr (s', w'))"
    "echo_io os (s0, w0) s' w' rcvd" "heap s' i = Some c'" "conn_fd c' = conn_fd c" "buf_bytes (output_buffer c') = []"
    using write_events_flush[OF assms order_refl] by blast
  from echo_invD(4)[OF echo_io_inv[OF assms(1-3) r(2)] r(3)] r(4,5) have "sent_to (conn_fd c) (sys_log s') = rcvd i"
    by (simp add: stream_ok_def)
  with r(1,2) show ?thesis by blast
qed

theorem echo_flushes_witness:
  "\<exists>s0 w0 s w c s' w'. echo_main demo_os Suc (3, [[104, 105, 0]]) = (s0, w0) \<and> heap s 0 = Some c
     \<and> write_events demo_os 0 (length (buf_bytes (output_buffer c))) (s, w) = Some (Inr (s', w'))
     \<and> sent_to (conn_fd c) (sys_log s') = [104, 105, 0]"
proof -
  obtain s0 w0 s w rcvd c where m: "echo_main demo_os Suc (3, [[104, 105, 0]]) = (s0, w0)"
    and o: "sock_fd (listen_sock s0) \<in> demo_opn w0" and io: "echo_io demo_os (s0, w0) s w rcvd"
    and c: "heap s 0 = Some c" "rcvd 0 = [104, 105, 0]" using demo_echo_run by blast
  have "send_progress demo_os" by (simp add: send_progress_def demo_os_def)
  from echo_flushes[OF demo_documented m o this io c(1)] m c show ?thesis by metis
qed

end
