(* ===== verification/HashPsd.thy ===== *)
theory HashPsd
  imports Prelude
begin

text \<open>
  The hash functions of hash_psd/hash_psd.cc: \<open>hashpjw\<close>, the multiply-by-31 hash, the FNV hash
  with its eight-fold unrolled loop, and \<open>toHex\<close>. \<^verbatim>\<open>unsigned long\<close> is 64 bits wide, \<^verbatim>\<open>unsigned int\<close>
  and \<^verbatim>\<open>int\<close> are 32, and plain \<^verbatim>\<open>char\<close> is signed, so a byte above 127 is sign-extended where the
  source reads through a \<^verbatim>\<open>char*\<close>. The lemmas show that the unrolled loop is a plain fold, that
  the shifts are a multiplication by the FNV prime, what the 32-bit result is, that the 31-hash
  is the usual polynomial, when the PJW hash stays below \<open>2^28\<close>, and that \<open>toHex\<close> prints
  the 32-bit pattern of its argument.
\<close>

section \<open>Model\<close>

text \<open>\<^verbatim>\<open>*str++\<close> through a \<^verbatim>\<open>char*\<close>, promoted to 64 bits: sign extension.\<close>

definition char_u64 :: "byte \<Rightarrow> u64" where
  "char_u64 c = scast c"

definition pjw_step :: "u64 \<Rightarrow> byte \<Rightarrow> u64" where
  "pjw_step h c =
     (let h1 = push_bit 4 h + char_u64 c;
          g = h1 AND 0xF0000000
      in if g \<noteq> 0 then (h1 XOR drop_bit 24 g) XOR g else h1)"

text \<open>The loop reads \<^verbatim>\<open>nKeyLength\<close> bytes; fewer are an out-of-bounds read.\<close>

fun pjw_loop :: "u64 \<Rightarrow> byte list \<Rightarrow> nat \<Rightarrow> u64 res" where
  "pjw_loop h key 0 = Inr h"
| "pjw_loop h [] (Suc n) = Inl OutOfBounds"
| "pjw_loop h (c # key) (Suc n) = pjw_loop (pjw_step h c) key n"

text \<open>
  After the loop the code prints the characters from \<^verbatim>\<open>arEnd\<close> on with \<^verbatim>\<open>%s\<close>; the key is assumed to
  be followed by a NUL, and the line printed is not modelled. Nothing in the file calls the function.
\<close>

definition hashpjw :: "byte list \<Rightarrow> nat \<Rightarrow> u64 res" where
  "hashpjw key n = pjw_loop 0 key n"

text \<open>\<^verbatim>\<open>hash1\<close> reads unsigned characters up to the terminating NUL.\<close>

fun hash1_loop :: "u32 \<Rightarrow> byte list \<Rightarrow> u32 res" where
  "hash1_loop h [] = Inl OutOfBounds"
| "hash1_loop h (c # p) = (if c = 0 then Inr h else hash1_loop (31 * h + ucast c) p)"

definition hash1 :: "byte list \<Rightarrow> u32 res" where
  "hash1 str = hash1_loop 0 str"

text \<open>The macro \<^verbatim>\<open>FNV_OP\<close> and the loop that uses it eight times per round.\<close>

definition fnv_op :: "u64 \<Rightarrow> byte \<Rightarrow> u64" where
  "fnv_op hash c =
     (let h = hash + (push_bit 1 hash + push_bit 4 hash + push_bit 7 hash + push_bit 8 hash
                      + push_bit 24 hash)
      in h XOR char_u64 c)"

fun fnv_tail :: "u64 \<Rightarrow> byte list \<Rightarrow> nat \<Rightarrow> u64 res" where
  "fnv_tail h str 0 = Inr h"
| "fnv_tail h [] (Suc n) = Inl OutOfBounds"
| "fnv_tail h (c # str) (Suc n) = fnv_tail (fnv_op h c) str n"

fun fnv_rounds :: "u64 \<Rightarrow> byte list \<Rightarrow> nat \<Rightarrow> u64 res" where
  "fnv_rounds h str len =
     (if 8 \<le> len then
        (case str of
           c1 # c2 # c3 # c4 # c5 # c6 # c7 # c8 # rest \<Rightarrow>
             fnv_rounds (fnv_op (fnv_op (fnv_op (fnv_op (fnv_op (fnv_op (fnv_op (fnv_op h c1) c2) c3) c4)
                          c5) c6) c7) c8) rest (len - 8)
         | _ \<Rightarrow> Inl OutOfBounds)
      else fnv_tail h str len)"

declare fnv_rounds.simps [simp del]

definition fnv_hash :: "byte list \<Rightarrow> nat \<Rightarrow> u32 res" where
  "fnv_hash str len = map_sum id ucast (fnv_rounds 2166136261 str len)"

definition HEX :: string where
  "HEX = ''0123456789abcdef''"

text \<open>The loop of \<^verbatim>\<open>toHex\<close>: \<open>count\<close> is the number of passes so far; \<^verbatim>\<open>>>=\<close> on \<^verbatim>\<open>int\<close> is arithmetic.\<close>

function toHex_loop :: "u32 \<Rightarrow> nat \<Rightarrow> string \<Rightarrow> string" where
  "toHex_loop num count result =
     (if num \<noteq> 0 \<and> count < 8
      then toHex_loop (signed_drop_bit 4 num) (count + 1) (HEX ! unat (num AND 0xf) # result)
      else result)"
  by pat_completeness auto
termination
  by (relation "measure (\<lambda>(num, count, result). 8 - count)") auto

declare toHex_loop.simps [simp del]

definition toHex :: "u32 \<Rightarrow> string" where
  "toHex num = (if num = 0 then ''0'' else toHex_loop num 0 '''')"

section \<open>The FNV hash\<close>

lemma fnv_op_mult: "fnv_op h c = (h * 16777619) XOR char_u64 c"
  by (simp add: fnv_op_def Let_def push_bit_eq_mult algebra_simps)

lemma fnv_tail_fold: "n \<le> length str \<Longrightarrow> fnv_tail h str n = Inr (fold (\<lambda>c h. fnv_op h c) (take n str) h)"
  by (induction h str n rule: fnv_tail.induct) auto

lemma length_ge_8:
  "8 \<le> length xs \<Longrightarrow>
     \<exists>c1 c2 c3 c4 c5 c6 c7 c8 rest. xs = c1 # c2 # c3 # c4 # c5 # c6 # c7 # c8 # rest"
  by (auto simp: Suc_le_length_iff eval_nat_numeral)

lemma fnv_rounds_8:
  "8 \<le> len \<Longrightarrow> fnv_rounds h (c1 # c2 # c3 # c4 # c5 # c6 # c7 # c8 # rest) len =
     fnv_rounds (fold (\<lambda>c h. fnv_op h c) [c1, c2, c3, c4, c5, c6, c7, c8] h) rest (len - 8)"
  by (subst fnv_rounds.simps) simp

lemma fnv_rounds_fold:
  "len \<le> length str \<Longrightarrow> fnv_rounds h str len = Inr (fold (\<lambda>c h. fnv_op h c) (take len str) h)"
proof (induction h str len rule: fnv_rounds.induct)
  case (1 h str len)
  show ?case
  proof (cases "8 \<le> len")
    case True
    with "1.prems" obtain c1 c2 c3 c4 c5 c6 c7 c8 rest
      where str: "str = c1 # c2 # c3 # c4 # c5 # c6 # c7 # c8 # rest"
      using length_ge_8[of str] by (metis le_trans)
    have len: "len = Suc (Suc (Suc (Suc (Suc (Suc (Suc (Suc (len - 8))))))))"
      using True by simp
    have "take len str = c1 # c2 # c3 # c4 # c5 # c6 # c7 # c8 # take (len - 8) rest"
      unfolding str by (subst len) simp
    with "1.IH"[OF True str refl refl refl refl refl refl refl] "1.prems" True str show ?thesis
      by (simp add: fnv_rounds_8)
  next
    case False
    with "1.prems" show ?thesis by (simp add: fnv_rounds.simps[of h str len] fnv_tail_fold)
  qed
qed

text \<open>The FNV-1 reference over 32-bit words: multiply by the prime, then xor the octet.\<close>

definition fnv1_ref :: "byte list \<Rightarrow> u32" where
  "fnv1_ref bs = fold (\<lambda>c h. (h * 16777619) XOR ucast c) bs 2166136261"

lemma char_u64_ascii:
  assumes "c < 128"
  shows "char_u64 c = ucast c"
proof -
  have "unat (c div 128) = 0" using assms by (simp add: unat_div word_less_nat_alt)
  then have "\<not> bit c 7" by (simp add: bit_iff_odd unat_eq_0)
  then have low: "n < 7" if "bit c n" for n
    using bit_imp_le_length[OF that] that by (cases "n = 7") auto
  show ?thesis
    unfolding char_u64_def
    by (intro bit_word_eqI) (auto simp: bit_simps min_def not_less dest: low)
qed

lemma ucast_char_u64_ascii: "c < 128 \<Longrightarrow> (ucast (char_u64 c) :: u32) = ucast c"
  by (simp add: char_u64_ascii, rule bit_word_eqI, auto simp: bit_simps)

lemma ucast_mult_u32: "(ucast (a * b :: u64) :: u32) = ucast a * ucast b"
  unfolding word_uint_eq_iff
  by (simp add: unsigned_ucast_eq uint_word_ariths take_bit_eq_mod mod_mod_cancel mod_mult_eq)

lemma ucast_xor_u32: "(ucast (a XOR b :: u64) :: u32) = ucast a XOR ucast b"
  by (rule bit_word_eqI) (auto simp: bit_simps)

lemma ucast_fnv_fold:
  assumes "\<forall>c \<in> set bs. c < 128"
  shows "(ucast (fold (\<lambda>c h. fnv_op h c) bs (h :: u64)) :: u32)
    = fold (\<lambda>c h. (h * 16777619) XOR ucast c) bs (ucast h)"
  using assms
  by (induction bs arbitrary: h)
    (auto simp: fnv_op_mult ucast_mult_u32 ucast_xor_u32 ucast_char_u64_ascii)

text \<open>
  C37. On a key of 7-bit characters the unrolled, 64-bit, shift-and-add \<open>fnv_hash\<close> returns the
  32-bit FNV-1 hash of the first \<open>len\<close> bytes: unrolling by eight and the fall-through tail skip
  and repeat nothing, the shifts are the multiplication by 16777619, and the upper half of the
  accumulator never reaches the result.
\<close>

theorem fnv_hash_is_fnv1:
  assumes "len \<le> length str" and "\<forall>c \<in> set (take len str). c < 128"
  shows "fnv_hash str len = Inr (fnv1_ref (take len str))"
  using assms by (simp add: fnv_hash_def fnv_rounds_fold ucast_fnv_fold fnv1_ref_def)

theorem fnv_hash_is_fnv1_witness:
  "fnv_hash [0x61, 0x66, 0x61, 0x73, 0x64, 0x61, 0x62, 0x63, 0x64, 0] 9
     = Inr (fnv1_ref [0x61, 0x66, 0x61, 0x73, 0x64, 0x61, 0x62, 0x63, 0x64])"
  using fnv_hash_is_fnv1[of 9 "[0x61, 0x66, 0x61, 0x73, 0x64, 0x61, 0x62, 0x63, 0x64, 0]"]
  by simp

text \<open>A byte above 127 is sign-extended before the xor, and the result leaves FNV-1.\<close>

lemma fnv_hash_high_byte_differs: "fnv_hash [0x80] 1 \<noteq> Inr (fnv1_ref [0x80])"
  by (simp add: fnv_hash_def fnv_rounds_fold fnv_op_mult char_u64_def fnv1_ref_def)

section \<open>The multiply-by-31 hash\<close>

definition poly31 :: "byte list \<Rightarrow> nat" where
  "poly31 bs = (\<Sum>i < length bs. unat (bs ! i) * 31 ^ (length bs - 1 - i))"

lemma poly31_snoc: "poly31 (bs @ [c]) = 31 * poly31 bs + unat c"
proof -
  have "(\<Sum>i < length bs. unat ((bs @ [c]) ! i) * 31 ^ (length bs - i))
      = (\<Sum>i < length bs. 31 * (unat (bs ! i) * 31 ^ (length bs - 1 - i)))"
  proof (rule sum.cong[OF refl])
    fix i assume "i \<in> {..<length bs}"
    then have "length bs - i = Suc (length bs - 1 - i)" and "i < length bs" by auto
    then show "unat ((bs @ [c]) ! i) * 31 ^ (length bs - i)
        = 31 * (unat (bs ! i) * 31 ^ (length bs - 1 - i))"
      by (simp add: nth_append)
  qed
  then show ?thesis by (simp add: poly31_def sum_distrib_left)
qed

lemma hash1_loop_poly:
  assumes "0 \<notin> set bs"
  shows "hash1_loop (of_nat (poly31 pre)) (bs @ 0 # rest) = Inr (of_nat (poly31 (pre @ bs)))"
  using assms
proof (induction bs arbitrary: pre)
  case (Cons c bs)
  have "31 * of_nat (poly31 pre) + ucast c = (of_nat (poly31 (pre @ [c])) :: u32)"
    by (simp add: poly31_snoc)
  with Cons.IH[of "pre @ [c]"] Cons.prems show ?case by simp
qed simp

text \<open>
  \<open>hash1\<close> of a NUL-terminated string is the polynomial in 31 of its unsigned characters,
  modulo \<open>2^32\<close>, and what follows the terminator does not matter.
\<close>

theorem hash1_is_poly31:
  assumes "0 \<notin> set bs"
  shows "hash1 (bs @ 0 # rest) = Inr (of_nat (poly31 bs))"
  using hash1_loop_poly[OF assms, of "[]" rest] by (simp add: hash1_def poly31_def)

theorem hash1_is_poly31_witness: "hash1 [0x61, 0xff, 0, 7] = Inr (of_nat (poly31 [0x61, 0xff]))"
  using hash1_is_poly31[of "[0x61, 0xff]" "[7]"] by simp

section \<open>The PJW hash\<close>

lemma pjw_mask: "(0xF0000000 :: u64) = push_bit 28 (mask 4)"
  by (simp add: mask_eq_exp_minus_1 push_bit_eq_mult)

lemma unat_less_of_bits: "(\<And>n. k \<le> n \<Longrightarrow> \<not> bit x n) \<Longrightarrow> unat (x :: u64) < 2 ^ k"
proof -
  assume high: "\<And>n. k \<le> n \<Longrightarrow> \<not> bit x n"
  then have "x = take_bit k x"
    by (intro bit_word_eqI) (auto simp: bit_simps not_le[symmetric])
  then have "unat x = take_bit k (unat x)" by (metis unsigned_take_bit_eq)
  then show ?thesis by (metis take_bit_nat_less_exp)
qed

lemma bit_high_of_unat_less: "unat (x :: u64) < 2 ^ k \<Longrightarrow> k \<le> n \<Longrightarrow> \<not> bit x n"
proof -
  assume "unat x < 2 ^ k" and k: "k \<le> n"
  then have "take_bit k (unat x) = unat x" by (simp add: take_bit_nat_eq_self_iff)
  then have "take_bit k x = x" by (metis unsigned_take_bit_eq word_eq_iff_unsigned)
  with k show ?thesis by (metis bit_take_bit_iff linorder_not_less)
qed

text \<open>The sum before the fold, as a number: nothing wraps while \<open>h\<close> is below \<open>2^28\<close>.\<close>

lemma pjw_sum:
  assumes "unat h < 2 ^ 28" and "c < 128"
  shows "unat (push_bit 4 h + char_u64 c) = 16 * unat h + unat c"
proof -
  have c: "unat c < 128" using assms(2) by (simp add: word_less_nat_alt)
  have "unat (push_bit 4 h) = 16 * unat h"
    using assms(1) by (simp add: push_bit_eq_mult unat_word_ariths)
  with assms c show ?thesis
    by (simp add: unat_word_ariths char_u64_ascii unsigned_ucast_eq take_bit_nat_eq_self)
qed

lemma pjw_step_small:
  assumes "unat h < 2 ^ 28" and "c < 128" and small: "16 * unat h + unat c < 2 ^ 28"
  shows "unat (pjw_step h c) = 16 * unat h + unat c"
proof -
  let ?h1 = "push_bit 4 h + char_u64 c"
  have "\<not> bit ?h1 n" if "28 \<le> n" for n
    using bit_high_of_unat_less[of ?h1 28 n] pjw_sum[OF assms(1,2)] small that by simp
  then have "?h1 AND 0xF0000000 = 0"
    unfolding pjw_mask by (intro bit_word_eqI) (auto simp: bit_simps)
  then show ?thesis by (simp add: pjw_step_def Let_def pjw_sum[OF assms(1,2)])
qed

lemma pjw_step_below:
  assumes "unat h < 2 ^ 28" and "c < 128" and fits: "16 * unat h + unat c < 2 ^ 32"
  shows "unat (pjw_step h c) < 2 ^ 28"
proof (rule unat_less_of_bits)
  fix n :: nat assume n: "28 \<le> n"
  let ?h1 = "push_bit 4 h + char_u64 c" and ?g = "(push_bit 4 h + char_u64 c) AND 0xF0000000"
  have high: "\<not> bit ?h1 k" if "32 \<le> k" for k
    using bit_high_of_unat_less[of ?h1 32 k] pjw_sum[OF assms(1,2)] fits that by simp
  have g: "bit ?g k \<longleftrightarrow> bit ?h1 k \<and> 28 \<le> k \<and> k < 32" for k
    unfolding pjw_mask by (auto simp: bit_simps)
  show "\<not> bit (pjw_step h c) n"
  proof (cases "?g = 0")
    case True
    then have "\<not> bit ?g n" by simp
    with g[of n] n high[of n] have h1: "\<not> bit ?h1 n" by linarith
    have "pjw_step h c = ?h1" unfolding pjw_step_def Let_def by (simp only: True) simp
    with h1 show ?thesis by simp
  next
    case False
    have d: "\<not> bit (drop_bit 24 ?g) n" using g[of "24 + n"] n by (simp only: bit_drop_bit_eq o_def) simp
    have h1: "bit ?h1 n \<longleftrightarrow> bit ?g n" using g[of n] n high[of n] by linarith
    have "pjw_step h c = (?h1 XOR drop_bit 24 ?g) XOR ?g"
      unfolding pjw_step_def Let_def using False by (simp only: if_True not_False_eq_True)
    with d h1 show ?thesis by (simp only: bit_xor_iff) simp
  qed
qed

lemma pjw_loop_all: "pjw_loop h key (length key) = Inr (foldl pjw_step h key)"
  by (induction key arbitrary: h) auto

lemma pjw_short:
  assumes "length key \<le> 6" and "\<forall>c \<in> set key. c < 128"
  shows "15 * unat (foldl pjw_step 0 key) + 127 \<le> 127 * 16 ^ length key"
  using assms
proof (induction key rule: rev_induct)
  case (snoc c key)
  let ?h = "foldl pjw_step 0 key"
  have b: "15 * unat ?h + 127 \<le> 127 * 16 ^ length key" using snoc by simp
  have "(16 :: nat) ^ length key \<le> 16 ^ 5"
    using snoc.prems(1) by (intro power_increasing) auto
  then have small: "15 * unat ?h + 127 \<le> 127 * 16 ^ 5" using b by simp
  have c: "c < 128" "unat c \<le> 127" using snoc.prems(2) by (auto simp: word_less_nat_alt)
  have "unat (pjw_step ?h c) = 16 * unat ?h + unat c"
    using small c by (intro pjw_step_small) auto
  with b c show ?case by simp
qed simp

text \<open>
  A 7-bit key of at most seven characters hashes below \<open>2^28\<close>, the range the folding of the
  top nibble is there to keep.
\<close>

theorem hashpjw_bounded:
  assumes "length key \<le> 7" and "\<forall>c \<in> set key. c < 128"
  shows "\<exists>h. hashpjw key (length key) = Inr h \<and> unat h < 2 ^ 28"
proof (cases key rule: rev_cases)
  case (snoc ks c)
  let ?h = "foldl pjw_step 0 ks"
  have b: "15 * unat ?h + 127 \<le> 127 * 16 ^ length ks"
    using assms snoc by (intro pjw_short) auto
  have "(16 :: nat) ^ length ks \<le> 16 ^ 6"
    using assms(1) snoc by (intro power_increasing) auto
  then have "15 * unat ?h + 127 \<le> 127 * 16 ^ 6" using b by simp
  moreover have "c < 128" "unat c \<le> 127" using assms(2) snoc by (auto simp: word_less_nat_alt)
  ultimately have "unat (pjw_step ?h c) < 2 ^ 28" by (intro pjw_step_below) auto
  then show ?thesis unfolding hashpjw_def pjw_loop_all by (simp add: snoc)
qed (simp add: hashpjw_def)

theorem hashpjw_bounded_witness:
  "\<exists>h. hashpjw [0x69, 0x69, 0x69, 0x69, 0x69, 0x63, 0x6f] 7 = Inr h \<and> unat h < 2 ^ 28"
proof -
  let ?key = "[0x69, 0x69, 0x69, 0x69, 0x69, 0x63, 0x6f] :: byte list"
  have len: "length ?key = 7" by simp
  show ?thesis using hashpjw_bounded[of ?key] unfolding len by simp
qed

text \<open>
  One more character can leave it: on a 64-bit \<^verbatim>\<open>unsigned long\<close> the carry out of bit 31 is kept,
  and the key \<^verbatim>\<open>"iiiiicoz"\<close> does not even hash to a 32-bit value.
\<close>

lemma hashpjw_escapes:
  "hashpjw [0x69, 0x69, 0x69, 0x69, 0x69, 0x63, 0x6f, 0x7a] 8 = Inr 0x10000006A"
proof -
  let ?key = "[0x69, 0x69, 0x69, 0x69, 0x69, 0x63, 0x6f, 0x7a] :: byte list"
  have "hashpjw ?key (length ?key) = Inr 0x10000006A"
    unfolding hashpjw_def pjw_loop_all by (simp add: pjw_step_def char_u64_def Let_def)
  moreover have "length ?key = 8" by simp
  ultimately show ?thesis by metis
qed

section \<open>Hexadecimal output\<close>

definition unhex_digit :: "char \<Rightarrow> nat" where
  "unhex_digit c = (if c \<in> set ''0123456789'' then of_char c - 48 else of_char c - 87)"

definition unhex :: "string \<Rightarrow> nat" where
  "unhex s = foldl (\<lambda>a c. 16 * a + unhex_digit c) 0 s"

lemma foldl_unhex: "foldl (\<lambda>a c. 16 * a + unhex_digit c) a s = a * 16 ^ length s + unhex s"
proof (induction s arbitrary: a)
  case Nil
  show ?case by (simp add: unhex_def)
next
  case (Cons c s)
  show ?case using Cons[of "16 * a + unhex_digit c"] Cons[of "unhex_digit c"]
    by (simp add: unhex_def algebra_simps)
qed

lemma unhex_Cons: "unhex (c # s) = unhex_digit c * 16 ^ length s + unhex s"
  using foldl_unhex[of "unhex_digit c" s] by (simp add: unhex_def)

lemma unhex_HEX: "d < 16 \<Longrightarrow> unhex_digit (HEX ! d) = d"
proof -
  assume d: "d < 16"
  have "\<forall>d \<in> set [0..<16]. unhex_digit (HEX ! d) = d" by code_simp
  then show ?thesis using d by simp
qed

lemma take_bit_sint_u32: "m \<le> 32 \<Longrightarrow> take_bit m (sint (num :: u32)) = take_bit m (uint num)"
  by (rule bit_eqI) (auto simp: bit_simps)

lemma sint_nibble: "int (unat (num AND 0xf :: u32)) = sint num mod 16"
proof -
  have "num AND 0xf = take_bit 4 num" by (simp add: take_bit_eq_mask mask_eq_exp_minus_1)
  then have "int (unat (num AND 0xf)) = take_bit 4 (uint num)"
    by (simp add: unsigned_take_bit_eq of_nat_take_bit)
  also have "\<dots> = take_bit 4 (sint num)" by (simp add: take_bit_sint_u32)
  finally show ?thesis by (simp add: take_bit_eq_mod)
qed

lemma sint_shift4: "sint (signed_drop_bit 4 num :: u32) = sint num div 16"
  by (simp add: sint_signed_drop_bit_eq drop_bit_eq_div)

text \<open>
  The loop invariant: the digits still to come stand for the low \<open>8 - count\<close> nibbles of the
  (arithmetically shifted) argument.
\<close>

lemma toHex_loop_value:
  "\<lbrakk>length result = count; count \<le> 8\<rbrakk> \<Longrightarrow>
     int (unhex (toHex_loop num count result))
       = int (unhex result) + 16 ^ count * (sint num mod 16 ^ (8 - count))
     \<and> length (toHex_loop num count result) \<le> 8"
proof (induction num count result rule: toHex_loop.induct)
  case (1 num count result)
  show ?case
  proof (cases "num \<noteq> 0 \<and> count < 8")
    case True
    let ?d = "unat (num AND 0xf)" and ?q = "signed_drop_bit 4 num"
    have d: "?d < 16"
      using sint_nibble[of num] by (metis of_nat_less_iff of_nat_numeral pos_mod_bound zero_less_numeral)
    have "(16 :: int) ^ (8 - count) = 16 * 16 ^ (8 - (count + 1))"
      using True by (subst power_Suc[symmetric], intro arg_cong[where f = "\<lambda>k. 16 ^ k"]) linarith
    then have "sint num mod 16 ^ (8 - count) = 16 * (sint ?q mod 16 ^ (8 - (count + 1))) + int ?d"
      by (simp add: sint_shift4 sint_nibble[symmetric] zmod_zmult2_eq)
    with "1.IH"[OF True] "1.prems" True d show ?thesis
      by (simp add: toHex_loop.simps[of num count result] unhex_Cons unhex_HEX algebra_simps)
  next
    case False
    with "1.prems" have "num = 0 \<or> count = 8" by auto
    with "1.prems" False show ?thesis
      by (auto simp: toHex_loop.simps[of num count result])
  qed
qed

text \<open>
  \<open>toHex\<close> prints the two's complement pattern of its \<^verbatim>\<open>int\<close> argument: read back as an unsigned
  hexadecimal number the string gives the 32-bit value, also for negative arguments, whose
  arithmetic shift never reaches 0, because the counter stops the loop after eight digits.
\<close>

theorem toHex_roundtrip: "unhex (toHex num) = unat num \<and> length (toHex num) \<le> 8"
proof (cases "num = 0")
  case True
  then show ?thesis by (simp add: toHex_def unhex_def unhex_digit_def)
next
  case False
  note loop = toHex_loop_value[of "[]" 0 num]
  have "int (unhex (toHex num)) = sint num mod 2 ^ 32"
    using False loop by (simp add: toHex_def unhex_def)
  also have "\<dots> = uint num"
    using take_bit_sint_u32[of 32 num] uint_lt2p[of num] by (simp add: take_bit_eq_mod)
  finally have "unhex (toHex num) = unat num" by (simp flip: of_nat_eq_iff[where 'a = int])
  then show ?thesis using False loop by (simp add: toHex_def)
qed

section \<open>The demonstration\<close>

text \<open>
  What \<^verbatim>\<open>main\<close> computes for its two strings: the hash and its hexadecimal text. (It then passes the
  \<^verbatim>\<open>std::string\<close> itself to \<^verbatim>\<open>printf("%s")\<close>, which is undefined.)
\<close>

definition hash_demo :: "string \<Rightarrow> (u32 \<times> string) res" where
  "hash_demo s =
     (let testa = map of_char s @ [0]
      in bind_res (fnv_hash testa (length (c_bytes testa))) (\<lambda>f. Inr (f, toHex f)))"

definition hash_main :: "(u32 \<times> string) list res" where
  "hash_main = bind_res (hash_demo ''afasd'') (\<lambda>a. bind_res (hash_demo ''vsdfsd'') (\<lambda>b. Inr [a, b]))"

end
