(* ===== verification/SmartPointer.thy ===== *)
theory SmartPointer
  imports Prelude "HOL-Library.AList"
begin

text \<open>
  The reference-counted pointer of catfly/SmartPointer (inc/smart.hpp) and its demonstration
  program (src/main.cpp), over an explicit store: the \<open>U_Ptr\<close> blocks with their counters, the
  base objects they own, and the \<open>SmartPtr\<close> variables in scope. Touching a freed block is
  \<open>UseAfterFree\<close>, deleting a freed object \<open>DoubleFree\<close>. The lemmas show that construction, copying,
  dereferencing and destruction keep "counter = number of handles", so they never fault and free
  the object exactly with the last handle, and that the assignment operator does not: it keeps
  the counters right only when both sides already share a block.
\<close>

section \<open>Model\<close>

record u_ptr =
  count :: int
  pointee :: nat

record 'a ptr_state =
  blocks :: "nat \<rightharpoonup> u_ptr"
  objects :: "nat \<rightharpoonup> 'a"
  vars :: "(string \<times> nat) list"
  next_block :: nat

definition var_rp :: "string \<Rightarrow> 'a ptr_state \<Rightarrow> nat res" where
  "var_rp x s = (case map_of (vars s) x of None \<Rightarrow> Inl NullDeref | Some r \<Rightarrow> Inr r)"

definition load_block :: "nat \<Rightarrow> 'a ptr_state \<Rightarrow> u_ptr res" where
  "load_block r s = (case blocks s r of None \<Rightarrow> Inl UseAfterFree | Some u \<Rightarrow> Inr u)"

definition add_count :: "nat \<Rightarrow> int \<Rightarrow> 'a ptr_state \<Rightarrow> 'a ptr_state res" where
  "add_count r d s =
     bind_res (load_block r s) (\<lambda>u. Inr (s\<lparr>blocks := (blocks s)(r \<mapsto> u\<lparr>count := count u + d\<rparr>)\<rparr>))"

text \<open>\<^verbatim>\<open>delete rp\<close> runs \<^verbatim>\<open>~U_Ptr\<close>, which deletes the base object.\<close>

definition delete_block :: "nat \<Rightarrow> 'a ptr_state \<Rightarrow> 'a ptr_state res" where
  "delete_block r s =
     bind_res (load_block r s) (\<lambda>u.
       if objects s (pointee u) = None then Inl DoubleFree
       else Inr (s\<lparr>objects := (objects s)(pointee u := None), blocks := (blocks s)(r := None)\<rparr>))"

text \<open>\<^verbatim>\<open>if (--rp->count_ == 0) delete rp;\<close>\<close>

definition drop_ref :: "nat \<Rightarrow> 'a ptr_state \<Rightarrow> 'a ptr_state res" where
  "drop_ref r s =
     bind_res (add_count r (- 1) s) (\<lambda>s1.
       bind_res (load_block r s1) (\<lambda>u. if count u = 0 then delete_block r s1 else Inr s1))"

definition sp_new :: "string \<Rightarrow> nat \<Rightarrow> 'a ptr_state \<Rightarrow> 'a ptr_state res" where
  "sp_new x ptr s =
     Inr (s\<lparr>blocks := (blocks s)(next_block s \<mapsto> \<lparr>count = 1, pointee = ptr\<rparr>),
            vars := (x, next_block s) # vars s, next_block := Suc (next_block s)\<rparr>)"

definition sp_copy :: "string \<Rightarrow> string \<Rightarrow> 'a ptr_state \<Rightarrow> 'a ptr_state res" where
  "sp_copy x y s =
     bind_res (var_rp y s) (\<lambda>r.
       bind_res (add_count r 1 s) (\<lambda>s1. Inr (s1\<lparr>vars := (x, r) # vars s1\<rparr>)))"

definition sp_assign :: "string \<Rightarrow> string \<Rightarrow> 'a ptr_state \<Rightarrow> 'a ptr_state res" where
  "sp_assign x y s =
     bind_res (var_rp x s) (\<lambda>r.
     bind_res (var_rp y s) (\<lambda>r'.
     bind_res (add_count r 1 s) (\<lambda>s1.
     bind_res (drop_ref r s1) (\<lambda>s2. Inr (s2\<lparr>vars := AList.update x r' (vars s2)\<rparr>)))))"

definition sp_destroy :: "string \<Rightarrow> 'a ptr_state \<Rightarrow> 'a ptr_state res" where
  "sp_destroy x s =
     bind_res (var_rp x s) (\<lambda>r.
     bind_res (drop_ref r s) (\<lambda>s1. Inr (s1\<lparr>vars := map_erase x (vars s1)\<rparr>)))"

definition sp_deref :: "string \<Rightarrow> 'a ptr_state \<Rightarrow> nat res" where
  "sp_deref x s =
     bind_res (var_rp x s) (\<lambda>r. bind_res (load_block r s) (\<lambda>u.
       if objects s (pointee u) = None then Inl UseAfterFree else Inr (pointee u)))"

definition sp_get :: "string \<Rightarrow> 'a ptr_state \<Rightarrow> 'a res" where
  "sp_get x s = bind_res (sp_deref x s) (\<lambda>p.
     case objects s p of None \<Rightarrow> Inl UseAfterFree | Some v \<Rightarrow> Inr v)"

definition sp_set :: "string \<Rightarrow> 'a \<Rightarrow> 'a ptr_state \<Rightarrow> 'a ptr_state res" where
  "sp_set x v s = bind_res (sp_deref x s) (\<lambda>p. Inr (s\<lparr>objects := (objects s)(p \<mapsto> v)\<rparr>))"

text \<open>
  The demonstration program: what it prints through \<^verbatim>\<open>cout << *sptr\<close>, and the store at the end.
  \<^verbatim>\<open>SmartPtr<int> sptr3=sptr1\<close> is the copy constructor, not the assignment its comment names.
\<close>

definition smart_main :: "(int list \<times> int ptr_state) res" where
  "smart_main =
     (let s0 = \<lparr>blocks = Map.empty, objects = [0 \<mapsto> 1], vars = [], next_block = 0\<rparr>
      in bind_res (sp_new ''sptr1'' 0 s0) (\<lambda>s1.
         bind_res (sp_copy ''sptr2'' ''sptr1'' s1) (\<lambda>s2.
         bind_res (sp_copy ''sptr3'' ''sptr1'' s2) (\<lambda>s3.
         bind_res (sp_get ''sptr1'' s3) (\<lambda>o1.
         bind_res (sp_set ''sptr1'' 20 s3) (\<lambda>s4.
         bind_res (sp_get ''sptr2'' s4) (\<lambda>o2.
         bind_res (sp_destroy ''sptr3'' s4) (\<lambda>s5.
         bind_res (sp_destroy ''sptr2'' s5) (\<lambda>s6.
         bind_res (sp_destroy ''sptr1'' s6) (\<lambda>s7. Inr ([o1, o2], s7)))))))))))"

lemmas ptr_defs [model_defs] =
  var_rp_def load_block_def add_count_def delete_block_def drop_ref_def
  sp_new_def sp_copy_def sp_assign_def sp_destroy_def sp_deref_def sp_get_def sp_set_def

section \<open>Invariant\<close>

definition handles :: "nat \<Rightarrow> 'a ptr_state \<Rightarrow> nat" where
  "handles r s = length (filter (\<lambda>e. snd e = r) (vars s))"

definition ptr_inv :: "'a ptr_state \<Rightarrow> bool" where
  "ptr_inv s \<longleftrightarrow>
     distinct (map fst (vars s))
     \<and> (\<forall>e \<in> set (vars s). blocks s (snd e) \<noteq> None)
     \<and> (\<forall>r u. blocks s r = Some u \<longrightarrow>
          r < next_block s \<and> count u = int (handles r s) \<and> 0 < handles r s
          \<and> objects s (pointee u) \<noteq> None)
     \<and> (\<forall>r u r' u'. blocks s r = Some u \<longrightarrow> blocks s r' = Some u' \<longrightarrow> pointee u = pointee u' \<longrightarrow> r = r')"

text \<open>\<open>owned s p\<close>: some smart pointer owns the object.\<close>

definition owned :: "'a ptr_state \<Rightarrow> nat \<Rightarrow> bool" where
  "owned s p \<longleftrightarrow> (\<exists>r u. blocks s r = Some u \<and> pointee u = p)"

lemma ptr_invD:
  assumes "ptr_inv s"
  shows "distinct (map fst (vars s))"
    and "map_of (vars s) x = Some r \<Longrightarrow> \<exists>u. blocks s r = Some u"
    and "blocks s r = Some u \<Longrightarrow> r < next_block s"
    and "blocks s r = Some u \<Longrightarrow> count u = int (handles r s)"
    and "blocks s r = Some u \<Longrightarrow> 0 < handles r s"
    and "blocks s r = Some u \<Longrightarrow> objects s (pointee u) \<noteq> None"
    and "blocks s r = Some u \<Longrightarrow> blocks s r' = Some u' \<Longrightarrow> pointee u = pointee u' \<Longrightarrow> r = r'"
  using assms unfolding ptr_inv_def by (fastforce dest: map_of_SomeD)+

lemma ptr_invI:
  assumes "distinct (map fst (vars s))"
    and "\<And>e. e \<in> set (vars s) \<Longrightarrow> blocks s (snd e) \<noteq> None"
    and "\<And>r u. blocks s r = Some u \<Longrightarrow> r < next_block s \<and> count u = int (handles r s)
           \<and> 0 < handles r s \<and> objects s (pointee u) \<noteq> None"
    and "\<And>r u r' u'. \<lbrakk>blocks s r = Some u; blocks s r' = Some u'; pointee u = pointee u'\<rbrakk> \<Longrightarrow> r = r'"
  shows "ptr_inv s"
  using assms unfolding ptr_inv_def by blast

lemma filter_erase:
  assumes "distinct (map fst vs)" and "map_of vs x = Some r"
  shows "length (filter (\<lambda>e. snd e = r') vs)
    = length (filter (\<lambda>e. snd e = r') (map_erase x vs)) + (if r' = r then 1 else 0)"
  using assms
proof (induction vs)
  case (Cons e vs)
  show ?case
  proof (cases "fst e = x")
    case True
    then have "map_erase x vs = vs"
      using Cons.prems(1) by (auto simp: map_erase_def filter_id_conv image_iff)
    then show ?thesis using Cons.prems(2) True by (cases e) (auto simp: map_erase_def)
  next
    case False
    with Cons show ?thesis by (cases e) (auto simp: map_erase_def)
  qed
qed simp

lemma sp_new_inv:
  assumes "ptr_inv s" and "objects s ptr \<noteq> None" and "\<not> owned s ptr"
    and "x \<notin> fst ` set (vars s)"
  shows "\<exists>s'. sp_new x ptr s = Inr s' \<and> ptr_inv s' \<and> objects s' = objects s \<and> owned s' ptr"
proof -
  have fresh: "blocks s (next_block s) = None"
    using ptr_invD(3)[OF assms(1)] by (metis less_irrefl not_None_eq)
  have "handles (next_block s) s = 0"
    using assms(1) fresh by (auto simp: ptr_inv_def handles_def filter_empty_conv)
  then show ?thesis
    using assms fresh
    by (auto simp: sp_new_def ptr_inv_def handles_def owned_def image_iff less_Suc_eq split: if_splits)
qed

text \<open>Changing one counter by as much as the number of its handles changes.\<close>

lemma sp_copy_inv:
  assumes "ptr_inv s" and y: "y \<in> fst ` set (vars s)" and "x \<notin> fst ` set (vars s)"
  shows "\<exists>s'. sp_copy x y s = Inr s' \<and> ptr_inv s' \<and> objects s' = objects s"
proof -
  from y obtain r where r: "map_of (vars s) y = Some r" by (metis map_of_eq_None_iff not_None_eq)
  with ptr_invD(2)[OF assms(1)] obtain u where u: "blocks s r = Some u" by blast
  let ?s' = "s\<lparr>blocks := (blocks s)(r \<mapsto> u\<lparr>count := count u + 1\<rparr>), vars := (x, r) # vars s\<rparr>"
  have "sp_copy x y s = Inr ?s'" using r u by (simp add: ptr_defs)
  moreover have "ptr_inv ?s'"
    using assms(1,3) u unfolding ptr_inv_def by (auto simp: handles_def image_iff split: if_splits)
  ultimately show ?thesis by auto
qed

lemma sp_get_ok: "ptr_inv s \<Longrightarrow> x \<in> fst ` set (vars s) \<Longrightarrow> is_ok (sp_get x s)"
proof -
  assume inv: "ptr_inv s" and "x \<in> fst ` set (vars s)"
  then obtain r where r: "map_of (vars s) x = Some r" by (metis map_of_eq_None_iff not_None_eq)
  with ptr_invD(2)[OF inv] obtain u where u: "blocks s r = Some u" by blast
  with ptr_invD(6)[OF inv] obtain v where "objects s (pointee u) = Some v" by blast
  with r u show ?thesis by (simp add: ptr_defs)
qed

lemma sp_set_inv:
  assumes "ptr_inv s" and "x \<in> fst ` set (vars s)"
  shows "\<exists>s'. sp_set x v s = Inr s' \<and> ptr_inv s' \<and> dom (objects s') = dom (objects s)"
proof -
  from assms(2) obtain r where r: "map_of (vars s) x = Some r"
    by (metis map_of_eq_None_iff not_None_eq)
  with ptr_invD(2)[OF assms(1)] obtain u where u: "blocks s r = Some u" by blast
  with ptr_invD(6)[OF assms(1)] have "objects s (pointee u) \<noteq> None" by blast
  with r u assms(1) show ?thesis
    by (auto simp: ptr_defs ptr_inv_def handles_def)
qed

lemma handles_erase:
  assumes "ptr_inv s" and "map_of (vars s) x = Some r"
  shows "handles r' s = length (filter (\<lambda>e. snd e = r') (map_erase x (vars s))) + (if r' = r then 1 else 0)"
  unfolding handles_def using ptr_invD(1)[OF assms(1)] assms(2) by (rule filter_erase)

lemma vars_erase:
  assumes "ptr_inv s"
  shows "set (map_erase x (vars s)) \<subseteq> set (vars s)" and "distinct (map fst (map_erase x (vars s)))"
  using ptr_invD(1)[OF assms] by (auto simp: map_erase_def distinct_map_filter)

text \<open>The last handle frees the block and its object.\<close>

lemma sp_destroy_last:
  assumes inv: "ptr_inv s" and x: "map_of (vars s) x = Some r" and u: "blocks s r = Some u" and h: "handles r s = 1"
  defines "s' \<equiv> s\<lparr>blocks := (blocks s)(r := None), objects := (objects s)(pointee u := None), vars := map_erase x (vars s)\<rparr>"
  shows "sp_destroy x s = Inr s' \<and> ptr_inv s'"
proof
  note D = ptr_invD[OF inv] and split = handles_erase[OF inv x]
  show "sp_destroy x s = Inr s'" using x u D(4-6)[OF u] h by (auto simp: ptr_defs s'_def)
  show "ptr_inv s'"
  proof (rule ptr_invI)
    have "\<forall>e \<in> set (map_erase x (vars s)). snd e \<noteq> r"
      using split[of r] h by (auto simp: filter_empty_conv)
    then show "blocks s' (snd e) \<noteq> None" if "e \<in> set (vars s')" for e
      using inv vars_erase(1)[OF inv, of x] that by (auto simp: ptr_inv_def s'_def)
    show "r' < next_block s' \<and> count u' = int (handles r' s') \<and> 0 < handles r' s' \<and> objects s' (pointee u') \<noteq> None"
      if "blocks s' r' = Some u'" for r' u'
      using that D(3-6)[of r' u'] D(7)[OF u, of r' u'] split[of r']
      by (auto simp: handles_def s'_def split: if_splits)
    show "r1 = r2" if "blocks s' r1 = Some u1" "blocks s' r2 = Some u2" "pointee u1 = pointee u2"
      for r1 u1 r2 u2 using that D(7)[of r1 u1 r2 u2] by (auto simp: s'_def split: if_splits)
  qed (use vars_erase(2)[OF inv] in \<open>simp add: s'_def\<close>)
qed

text \<open>Any other handle only takes itself out of the count.\<close>

lemma sp_destroy_shared:
  assumes inv: "ptr_inv s" and x: "map_of (vars s) x = Some r" and u: "blocks s r = Some u" and h: "handles r s \<noteq> 1"
  defines "s' \<equiv> s\<lparr>blocks := (blocks s)(r \<mapsto> u\<lparr>count := count u - 1\<rparr>), vars := map_erase x (vars s)\<rparr>"
  shows "sp_destroy x s = Inr s' \<and> ptr_inv s'"
proof
  note D = ptr_invD[OF inv] and split = handles_erase[OF inv x]
  have cnt: "count u = int (handles r s)" "0 < handles r s" and obj: "objects s (pointee u) \<noteq> None"
    using D(4-6)[OF u] by auto
  show "sp_destroy x s = Inr s'" using x u cnt h by (simp add: ptr_defs s'_def)
  show "ptr_inv s'"
  proof (rule ptr_invI)
    show "blocks s' (snd e) \<noteq> None" if "e \<in> set (vars s')" for e
      using inv vars_erase(1)[OF inv, of x] that by (auto simp: ptr_inv_def s'_def)
    show "r' < next_block s' \<and> count u' = int (handles r' s') \<and> 0 < handles r' s' \<and> objects s' (pointee u') \<noteq> None"
      if "blocks s' r' = Some u'" for r' u'
      using that D(3-6)[of r' u'] D(3)[OF u] cnt obj h split[of r']
      by (auto simp: handles_def s'_def split: if_splits)
    show "r1 = r2" if "blocks s' r1 = Some u1" "blocks s' r2 = Some u2" "pointee u1 = pointee u2"
      for r1 u1 r2 u2
      using that D(7)[of r1 u1 r2 u2] D(7)[OF u, of r2 u2] D(7)[OF u, of r1 u1]
      by (auto simp: s'_def split: if_splits)
  qed (use vars_erase(2)[OF inv] in \<open>simp add: s'_def\<close>)
qed

lemma sp_destroy_inv:
  assumes "ptr_inv s" and "map_of (vars s) x = Some r" and "blocks s r = Some u"
  shows "\<exists>s'. sp_destroy x s = Inr s' \<and> ptr_inv s'
     \<and> objects s' = (if handles r s = 1 then (objects s)(pointee u := None) else objects s)"
  using sp_destroy_last[OF assms] sp_destroy_shared[OF assms] by (cases "handles r s = 1") auto

section \<open>Programs of handles\<close>

text \<open>What a program that never assigns can do with handles that are in scope.\<close>

datatype 'a ptr_op = Copy string string | Get string | Set string 'a | Destroy string

fun exec_op :: "'a ptr_op \<Rightarrow> 'a ptr_state \<Rightarrow> 'a ptr_state res" where
  "exec_op (Copy x y) s = sp_copy x y s"
| "exec_op (Get x) s = bind_res (sp_get x s) (\<lambda>_. Inr s)"
| "exec_op (Set x v) s = sp_set x v s"
| "exec_op (Destroy x) s = sp_destroy x s"

fun op_scoped :: "'a ptr_op \<Rightarrow> 'a ptr_state \<Rightarrow> bool" where
  "op_scoped (Copy x y) s = (y \<in> fst ` set (vars s) \<and> x \<notin> fst ` set (vars s))"
| "op_scoped (Get x) s = (x \<in> fst ` set (vars s))"
| "op_scoped (Set x v) s = (x \<in> fst ` set (vars s))"
| "op_scoped (Destroy x) s = (x \<in> fst ` set (vars s))"

lemma sp_destroy_scoped:
  assumes "ptr_inv s" and "x \<in> fst ` set (vars s)"
  shows "\<exists>s'. sp_destroy x s = Inr s' \<and> ptr_inv s'"
proof -
  from assms(2) obtain r where r: "map_of (vars s) x = Some r"
    by (metis map_of_eq_None_iff not_None_eq)
  with ptr_invD(2)[OF assms(1)] obtain u where "blocks s r = Some u" by blast
  from sp_destroy_inv[OF assms(1) r this] show ?thesis by blast
qed


definition two_handles :: "int ptr_state" where
  "two_handles = \<lparr>blocks = [0 \<mapsto> \<lparr>count = 2, pointee = 7\<rparr>], objects = [7 \<mapsto> 5],
                  vars = [(''b'', 0), (''a'', 0)], next_block = 1\<rparr>"

lemma two_handles_inv: "ptr_inv two_handles"
  by (rule ptr_invI) (auto simp: two_handles_def handles_def split: if_splits)


text \<open>
  Destroying a handle frees the base object exactly when it was the last handle of its block:
  before that the object stays, and there is no second release.
\<close>

theorem smart_ptr_last_handle_frees:
  assumes "ptr_inv s" and "map_of (vars s) x = Some r" and "blocks s r = Some u"
  shows "\<exists>s'. sp_destroy x s = Inr s'
     \<and> objects s' = (if handles r s = 1 then (objects s)(pointee u := None) else objects s)"
  using sp_destroy_inv[OF assms] by blast

theorem smart_ptr_last_handle_frees_witness:
  "\<exists>s'. sp_destroy ''a'' two_handles = Inr s' \<and> objects s' = objects two_handles"
  using smart_ptr_last_handle_frees[OF two_handles_inv, of "''a''" 0 "\<lparr>count = 2, pointee = 7\<rparr>"]
  by (simp add: two_handles_def handles_def)

text \<open>
  The demonstration program prints 1 and 20 and ends with the object and the counter block
  released.
\<close>

theorem smart_main_frees_everything:
  "\<exists>s. smart_main = Inr ([1, 20], s) \<and> objects s = Map.empty \<and> blocks s = Map.empty"
  by (simp add: smart_main_def ptr_defs map_erase_def Let_def fun_eq_iff)

section \<open>The assignment operator\<close>

lemma filter_update_other:
  assumes "distinct (map fst vs)" and "map_of vs x = Some r" and "r \<noteq> r'"
  shows "length (filter (\<lambda>e. snd e = r') (AList.update x r' vs))
    = Suc (length (filter (\<lambda>e. snd e = r') vs))"
  using assms by (induction vs) (auto split: if_splits)

lemma sp_assign_eq:
  assumes "ptr_inv s" and "map_of (vars s) x = Some r" and "map_of (vars s) y = Some r'"
  shows "sp_assign x y s = Inr (s\<lparr>vars := AList.update x r' (vars s)\<rparr>)"
proof -
  obtain u where u: "blocks s r = Some u" using ptr_invD(2)[OF assms(1,2)] by blast
  have "0 < count u" using ptr_invD(4,5)[OF assms(1) u] by simp
  with assms(2,3) u show ?thesis
    by (simp add: ptr_defs fun_upd_idem)
qed

text \<open>
  The assignment operator increments and decrements the same counter (its own), so it
  leaves every counter as it was while one handle moves to another block. It therefore keeps the
  invariant exactly when both sides already share their block.
\<close>

theorem sp_assign_inv_iff:
  assumes "ptr_inv s" and "map_of (vars s) x = Some r" and "map_of (vars s) y = Some r'"
  shows "\<exists>s'. sp_assign x y s = Inr s' \<and> (ptr_inv s' \<longleftrightarrow> r = r')"
proof -
  let ?s' = "s\<lparr>vars := AList.update x r' (vars s)\<rparr>"
  obtain u' where u': "blocks s r' = Some u'" using ptr_invD(2)[OF assms(1,3)] by blast
  have same: "?s' = s" if "r = r'"
    using assms(2) that by (simp add: update_triv)
  have "\<not> ptr_inv ?s'" if "r \<noteq> r'"
  proof
    assume "ptr_inv ?s'"
    then have "count u' = int (handles r' ?s')" using ptr_invD(4)[of ?s' r' u'] u' by simp
    moreover have "handles r' ?s' = Suc (handles r' s)"
      using ptr_invD(1)[OF assms(1)] assms(2) that
      unfolding handles_def by (simp add: filter_update_other)
    moreover have "count u' = int (handles r' s)" using ptr_invD(4)[OF assms(1) u'] .
    ultimately show False by simp
  qed
  with same assms(1) sp_assign_eq[OF assms] show ?thesis by auto
qed

text \<open>
  A concrete victim: after \<^verbatim>\<open>a = b\<close> between two owners, letting both handles die deletes b's
  object while \<^verbatim>\<open>a\<close> still points at it, and the second destructor touches the freed block.
\<close>

definition two_owners :: "int ptr_state" where
  "two_owners = \<lparr>blocks = [0 \<mapsto> \<lparr>count = 1, pointee = 7\<rparr>, 1 \<mapsto> \<lparr>count = 1, pointee = 8\<rparr>],
                 objects = [7 \<mapsto> 5, 8 \<mapsto> 6], vars = [(''b'', 1), (''a'', 0)], next_block = 2\<rparr>"

lemma two_owners_inv: "ptr_inv two_owners"
  by (rule ptr_invI) (auto simp: two_owners_def handles_def split: if_splits)

theorem sp_assign_inv_iff_witness:
  "\<exists>s'. sp_assign ''a'' ''b'' two_owners = Inr s' \<and> \<not> ptr_inv s'"
  using sp_assign_inv_iff[OF two_owners_inv, of "''a''" 0 "''b''" 1] by (simp add: two_owners_def)

lemma sp_assign_then_scope_exit:
  "bind_res (sp_assign ''a'' ''b'' two_owners) (\<lambda>s1.
     bind_res (sp_destroy ''b'' s1) (\<lambda>s2. sp_destroy ''a'' s2)) = Inl UseAfterFree"
  by (simp add: two_owners_def ptr_defs map_erase_def)

end
