(* ===== verification/Lending.thy ===== *)
theory Lending
  imports Prelude
begin

text \<open>
  The contract of a connection pool, shared by the database clients of the repository: a client
  takes the connection that has been idle longest, uses it, and gives it back behind the others.
  \<open>lend_run\<close> is the sequence of such uses, and the lemmas show that uses go round the pool in order
  and that no connection is lost.
\<close>

text \<open>\<open>lend_run get give f n p\<close>: \<open>n\<close> uses in a row, \<open>f\<close> being what a use does to the connection.\<close>

fun lend_run :: "('p \<Rightarrow> ('c \<times> 'p) option) \<Rightarrow> ('c \<Rightarrow> 'p \<Rightarrow> 'p) \<Rightarrow> ('c \<Rightarrow> 'c) \<Rightarrow> nat \<Rightarrow> 'p \<Rightarrow> ('c list \<times> 'p) option" where
  "lend_run get give f 0 p = Some ([], p)"
| "lend_run get give f (Suc n) p =
     (case get p of
        None \<Rightarrow> None
      | Some (c, p') \<Rightarrow> map_option (\<lambda>(cs, q). (c # cs, q)) (lend_run get give f n (give (f c) p')))"

locale lending_pool =
  fixes ok :: "'p \<Rightarrow> bool"
    and idle :: "'p \<Rightarrow> 'c list"
    and get :: "'p \<Rightarrow> ('c \<times> 'p) option"
    and give :: "'c \<Rightarrow> 'p \<Rightarrow> 'p"
  assumes get_idle: "ok p \<Longrightarrow> idle p = c # cs \<Longrightarrow> \<exists>p'. get p = Some (c, p') \<and> idle p' = cs \<and> ok p'"
    and give_idle: "ok p \<Longrightarrow> idle (give c p) = idle p @ [c]"
    and give_ok: "ok p \<Longrightarrow> ok (give c p)"
begin

lemma use_once:
  assumes "ok p" and "idle p = c # cs"
  shows "\<exists>p'. get p = Some (c, p') \<and> ok (give c' p') \<and> idle (give c' p') = cs @ [c']"
  using get_idle[OF assms] give_idle give_ok by blast

text \<open>The first uses visit different connections, in the order in which they became idle.\<close>

lemma uses_in_order:
  assumes "ok p" and "n \<le> length (idle p)"
  shows "\<exists>p'. lend_run get give f n p = Some (List.take n (idle p), p') \<and> ok p'
     \<and> idle p' = drop n (idle p) @ map f (List.take n (idle p))"
  using assms
proof (induction n arbitrary: p)
  case 0
  then show ?case by simp
next
  case (Suc n)
  then obtain c cs where cs: "idle p = c # cs" by (cases "idle p") auto
  from use_once[OF Suc.prems(1) cs] obtain p1 where p1: "get p = Some (c, p1)" "ok (give (f c) p1)"
    "idle (give (f c) p1) = cs @ [f c]" by blast
  have n: "n \<le> length cs" using Suc.prems(2) cs by simp
  with Suc.IH[OF p1(2)] p1(3) obtain p2 where p2: "lend_run get give f n (give (f c) p1) = Some (List.take n cs, p2)" "ok p2"
    "idle p2 = drop n (cs @ [f c]) @ map f (List.take n (cs @ [f c]))" by auto
  then show ?case using p1(1) cs n by simp
qed

text \<open>Any number of uses keeps the number of idle connections.\<close>

lemma uses_keep_count:
  assumes "ok p" and "lend_run get give f n p = Some (used, p')" and "idle p \<noteq> []"
  shows "length (idle p') = length (idle p) \<and> ok p'"
  using assms
proof (induction n arbitrary: p used)
  case 0
  then show ?case by simp
next
  case (Suc n)
  then obtain c cs where cs: "idle p = c # cs" by (cases "idle p") auto
  from use_once[OF Suc.prems(1) cs] obtain p1 where p1: "get p = Some (c, p1)" "ok (give (f c) p1)"
    "idle (give (f c) p1) = cs @ [f c]" by blast
  with Suc.prems(2) obtain u where "lend_run get give f n (give (f c) p1) = Some (u, p')" by auto
  from Suc.IH[OF p1(2) this] p1(3) cs show ?case by simp
qed

end

end
