(* ===== verification/RedisPool.thy ===== *)
theory RedisPool
  imports Lending
begin

text \<open>
  The hiredis connection wrapper and the connection pool (hiredis_test/inc/redis_pool.h,
  hiredis_test/src/redis_pool.cpp). The hiredis library and the server behind it are the argument
  \<open>hr\<close>, over a world \<open>'w\<close>. A \<^verbatim>\<open>redisReply*\<close> is an optional value of the datatype \<open>redisReply\<close>; \<^verbatim>\<open>reply->str\<close>
  is null for the types that carry no string. A \<^verbatim>\<open>std::string\<close> made from a null pointer throws.
  The pool is a queue of connections; \<open>GetRedisConn\<close> may spin, which is the value \<open>None\<close>.
\<close>

section \<open>The hiredis interface\<close>

datatype redisReply =
    ReplyString string
  | ReplyArray "redisReply option list"
  | ReplyInteger int
  | ReplyNil
  | ReplyStatus string
  | ReplyError string
  | ReplyOther "string option"

fun rly_str :: "redisReply \<Rightarrow> string option" where
  "rly_str (ReplyString s) = Some s"
| "rly_str (ReplyStatus s) = Some s"
| "rly_str (ReplyError s) = Some s"
| "rly_str (ReplyOther s) = s"
| "rly_str _ = None"

text \<open>
  \<open>hr_connect\<close> gives a context and its \<^verbatim>\<open>err\<close> flag, or null; \<open>hr_command\<close> takes the format and its string
  arguments and gives the reply, or null.
\<close>

record 'w hiredis =
  hr_connect :: "string \<Rightarrow> u32 \<Rightarrow> u32 \<Rightarrow> 'w \<Rightarrow> (nat \<times> bool) option \<times> 'w"
  hr_free :: "nat \<Rightarrow> 'w \<Rightarrow> 'w"
  hr_command :: "nat \<Rightarrow> string \<Rightarrow> string list \<Rightarrow> 'w \<Rightarrow> redisReply option \<times> 'w"

definition to_lower :: "char \<Rightarrow> char" where
  "to_lower c = (let n = of_char c :: nat in if 65 \<le> n \<and> n \<le> 90 then char_of (n + 32) else c)"

definition strcasecmp_eq :: "string \<Rightarrow> string \<Rightarrow> bool" where
  "strcasecmp_eq a b \<longleftrightarrow> map to_lower (c_str a) = map to_lower (c_str b)"

definition null_string :: fault where
  "null_string = Thrown ''basic_string: construction from null''"

section \<open>RedisConn\<close>

record redis_conn =
  ctx :: "nat option"
  redis_ip :: string
  redis_port :: u32
  time_out :: u32
  redis_pwd :: string
  status :: bool

definition mk_RedisConn :: redis_conn where
  "mk_RedisConn = \<lparr>ctx = None, redis_ip = ''127.0.0.1'', redis_port = 6379, time_out = 2000,
     redis_pwd = '''', status = False\<rparr>"

definition conn_Init :: "string \<Rightarrow> u64 \<Rightarrow> string \<Rightarrow> int \<Rightarrow> redis_conn \<Rightarrow> redis_conn" where
  "conn_Init redis_addr port pwd conn_timeout c =
     c\<lparr>redis_ip := redis_addr, redis_port := ucast port, redis_pwd := pwd, time_out := of_int conn_timeout\<rparr>"

definition ConnectWithTimeout :: "'w hiredis \<Rightarrow> redis_conn \<Rightarrow> 'w \<Rightarrow> nat option \<times> 'w" where
  "ConnectWithTimeout hr c w =
     (case hr_connect hr (c_str (redis_ip c)) (redis_port c) (time_out c) w of
        (None, w') \<Rightarrow> (None, w')
      | (Some (x, err), w') \<Rightarrow> if err then (None, hr_free hr x w') else (Some x, w'))"

text \<open>\<^verbatim>\<open>redisCommand\<close> and \<^verbatim>\<open>strcasecmp\<close> dereference their pointer arguments.\<close>

definition conn_auth :: "'w hiredis \<Rightarrow> redis_conn \<Rightarrow> 'w \<Rightarrow> (bool \<times> redis_conn \<times> 'w) res" where
  "conn_auth hr c w =
     (if length (redis_pwd c) = 0 then Inr (True, c\<lparr>status := True\<rparr>, w)
      else case ctx c of
        None \<Rightarrow> Inl NullDeref
      | Some x \<Rightarrow>
          (case hr_command hr x ''AUTH %s'' [c_str (redis_pwd c)] w of
             (None, w') \<Rightarrow> Inr (False, c\<lparr>status := False\<rparr>, w')
           | (Some reply, w') \<Rightarrow>
               (case rly_str reply of
                  None \<Rightarrow> Inl NullDeref
                | Some s \<Rightarrow> let b = strcasecmp_eq s ''OK'' in Inr (b, c\<lparr>status := b\<rparr>, w'))))"

definition RedisConnect :: "'w hiredis \<Rightarrow> redis_conn \<Rightarrow> 'w \<Rightarrow> (bool \<times> redis_conn \<times> 'w) res" where
  "RedisConnect hr c w =
     (let w1 = (case ctx c of None \<Rightarrow> w | Some x \<Rightarrow> hr_free hr x w);
          (tmp, w2) = ConnectWithTimeout hr (c\<lparr>ctx := None\<rparr>) w1
      in case tmp of
           None \<Rightarrow> Inr (False, c\<lparr>ctx := None\<rparr>, w2)
         | Some x \<Rightarrow> conn_auth hr (c\<lparr>ctx := Some x\<rparr>) w2)"

definition RedisReConnect :: "'w hiredis \<Rightarrow> redis_conn \<Rightarrow> 'w \<Rightarrow> (bool \<times> redis_conn \<times> 'w) res" where
  "RedisReConnect hr c w =
     (case ctx c of
        None \<Rightarrow> Inr (False, c, w)
      | Some old \<Rightarrow>
          (case ConnectWithTimeout hr c w of
             (None, w1) \<Rightarrow> Inr (False, c\<lparr>status := False\<rparr>, w1)
           | (Some x, w1) \<Rightarrow> conn_auth hr (c\<lparr>ctx := Some x\<rparr>) (hr_free hr old w1)))"

definition conn_Release :: "'w hiredis \<Rightarrow> redis_conn \<Rightarrow> 'w \<Rightarrow> redis_conn \<times> 'w" where
  "conn_Release hr c w =
     (c\<lparr>ctx := None, status := False\<rparr>, case ctx c of None \<Rightarrow> w | Some x \<Rightarrow> hr_free hr x w)"

definition Ping :: "'w hiredis \<Rightarrow> redis_conn \<Rightarrow> 'w \<Rightarrow> bool \<times> redis_conn \<times> 'w" where
  "Ping hr c w =
     (case ctx c of
        None \<Rightarrow> (False, c, w)
      | Some x \<Rightarrow>
          (case hr_command hr x ''PING'' [] w of
             (reply, w') \<Rightarrow>
               let b = (case reply of
                          None \<Rightarrow> False
                        | Some r \<Rightarrow> (case rly_str r of None \<Rightarrow> False | Some s \<Rightarrow> strcasecmp_eq s ''PONG''))
               in (b, c\<lparr>status := b\<rparr>, w')))"

text \<open>\<^verbatim>\<open>params.push_back(rly->str)\<close> builds a \<^verbatim>\<open>std::string\<close> from the C string.\<close>

definition str_of :: "redisReply \<Rightarrow> string res" where
  "str_of r = (case rly_str r of None \<Rightarrow> Inl null_string | Some s \<Rightarrow> Inr (c_str s))"

fun ParamRly :: "redisReply \<Rightarrow> string list \<Rightarrow> string list res"
  and ParamRly_elems :: "redisReply option list \<Rightarrow> string list \<Rightarrow> string list res" where
  "ParamRly (ReplyArray es) params = ParamRly_elems es params"
| "ParamRly rly params = bind_res (str_of rly) (\<lambda>s. Inr (params @ [s]))"
| "ParamRly_elems [] params = Inr params"
| "ParamRly_elems (None # es) params = ParamRly_elems es params"
| "ParamRly_elems (Some (ReplyArray ds) # es) params =
     bind_res (ParamRly_elems ds params) (ParamRly_elems es)"
| "ParamRly_elems (Some r # es) params =
     bind_res (str_of r) (\<lambda>s. ParamRly_elems es (params @ [s]))"

text \<open>
  \<^verbatim>\<open>ParamRlyHash\<close>: \<open>m\<close> and \<^verbatim>\<open>key\<close> as one option (the pending key). A null element, and a reply that is not an
  array (where \<^verbatim>\<open>rly0\<close> is still null), are dereferenced.
\<close>

fun ParamRlyHash :: "redisReply \<Rightarrow> (string, string) std_map \<Rightarrow> (string, string) std_map res"
  and ParamRlyHash_elems ::
    "redisReply option list \<Rightarrow> string option \<Rightarrow> (string, string) std_map \<Rightarrow> (string, string) std_map res" where
  "ParamRlyHash (ReplyArray es) params = ParamRlyHash_elems es None params"
| "ParamRlyHash rly params = Inl NullDeref"
| "ParamRlyHash_elems [] key params = Inr params"
| "ParamRlyHash_elems (None # es) key params = Inl NullDeref"
| "ParamRlyHash_elems (Some (ReplyArray ds) # es) key params =
     bind_res (ParamRlyHash_elems ds None params) (ParamRlyHash_elems es key)"
| "ParamRlyHash_elems (Some r # es) key params =
     bind_res (str_of r) (\<lambda>s.
       case key of
         None \<Rightarrow> ParamRlyHash_elems es (Some s) params
       | Some k \<Rightarrow> ParamRlyHash_elems es None (map_put k s params))"

text \<open>The common head of the \<^verbatim>\<open>Execute\<close> functions: check the context, reconnect, send the command.\<close>

definition exec_command ::
  "'w hiredis \<Rightarrow> string \<Rightarrow> redis_conn \<Rightarrow> 'w \<Rightarrow> (redisReply option \<times> redis_conn \<times> 'w) res" where
  "exec_command hr format c w =
     (case ctx c of
        None \<Rightarrow> Inr (None, c\<lparr>status := False\<rparr>, w)
      | Some x \<Rightarrow>
          bind_res (if status c then Inr (True, c, w) else RedisReConnect hr c w) (\<lambda>(ready, c1, w1).
            if \<not> ready then Inr (None, c1, w1)
            else (case ctx c1 of
                    None \<Rightarrow> Inl NullDeref
                  | Some x1 \<Rightarrow>
                      (case hr_command hr x1 (c_str format) [] w1 of
                         (None, w2) \<Rightarrow> Inr (None, c1\<lparr>status := False\<rparr>, w2)
                       | (Some r, w2) \<Rightarrow> Inr (Some r, c1\<lparr>status := True\<rparr>, w2)))))"

definition ExecuteResonse ::
  "'w hiredis \<Rightarrow> string \<Rightarrow> string \<Rightarrow> redis_conn \<Rightarrow> 'w \<Rightarrow> ((bool \<times> string) \<times> redis_conn \<times> 'w) res" where
  "ExecuteResonse hr response format c w =
     bind_res (exec_command hr format c w) (\<lambda>(reply, c1, w1).
       case reply of
         None \<Rightarrow> Inr ((False, response), c1, w1)
       | Some (ReplyInteger i) \<Rightarrow> Inr ((True, dec_int i), c1, w1)
       | Some (ReplyString s) \<Rightarrow> Inr ((True, s), c1, w1)
       | Some (ReplyStatus s) \<Rightarrow> Inr ((True, s), c1, w1)
       | Some ReplyNil \<Rightarrow> Inr ((True, ''''), c1, w1)
       | Some (ReplyError s) \<Rightarrow> Inr ((False, s), c1, w1)
       | Some (ReplyArray es) \<Rightarrow> bind_res (ParamRly (ReplyArray es) []) (\<lambda>_. Inr ((True, response), c1, w1))
       | Some (ReplyOther s) \<Rightarrow> Inr ((False, ''Undefine Reply Type''), c1\<lparr>status := False\<rparr>, w1))"

definition ExecuteVector ::
  "'w hiredis \<Rightarrow> string list \<Rightarrow> string \<Rightarrow> redis_conn \<Rightarrow> 'w \<Rightarrow> ((bool \<times> string list) \<times> redis_conn \<times> 'w) res" where
  "ExecuteVector hr response format c w =
     bind_res (exec_command hr format c w) (\<lambda>(reply, c1, w1).
       case reply of
         None \<Rightarrow> Inr ((False, response), c1, w1)
       | Some (ReplyArray es) \<Rightarrow> bind_res (ParamRly (ReplyArray es) response) (\<lambda>v. Inr ((True, v), c1, w1))
       | Some _ \<Rightarrow> Inr ((True, response), c1, w1))"

definition ExecuteMap ::
  "'w hiredis \<Rightarrow> (string, string) std_map \<Rightarrow> string \<Rightarrow> redis_conn \<Rightarrow> 'w
     \<Rightarrow> ((bool \<times> (string, string) std_map) \<times> redis_conn \<times> 'w) res" where
  "ExecuteMap hr response format c w =
     bind_res (exec_command hr format c w) (\<lambda>(reply, c1, w1).
       case reply of
         None \<Rightarrow> Inr ((False, response), c1, w1)
       | Some (ReplyArray es) \<Rightarrow> bind_res (ParamRlyHash (ReplyArray es) response) (\<lambda>m. Inr ((True, m), c1, w1))
       | Some _ \<Rightarrow> Inr ((True, response), c1, w1))"

definition ExecuteCmd :: "'w hiredis \<Rightarrow> string \<Rightarrow> redis_conn \<Rightarrow> 'w \<Rightarrow> redisReply option \<times> 'w" where
  "ExecuteCmd hr format c w =
     (case ctx c of None \<Rightarrow> (None, w) | Some x \<Rightarrow> hr_command hr x (c_str format) [] w)"


section \<open>RedisPool\<close>

record redis_pool =
  conn_pool :: "redis_conn option list"
  pl_ip :: string
  pl_port :: u32
  pl_time_out :: u32
  pl_pwd :: string
  conn_status :: bool
  pool_size :: nat
  pool_max_size :: nat

definition mk_RedisPool :: redis_pool where
  "mk_RedisPool = \<lparr>conn_pool = [], pl_ip = ''127.0.0.1'', pl_port = 6379, pl_time_out = 1, pl_pwd = '''',
     conn_status = False, pool_size = 50, pool_max_size = 150\<rparr>"

text \<open>\<^verbatim>\<open>std::size_t\<close> and \<^verbatim>\<open>int\<close> parameters of \<^verbatim>\<open>Init\<close> come from the 32-bit fields of the pool.\<close>

definition CreateConnection :: "'w hiredis \<Rightarrow> redis_pool \<Rightarrow> 'w \<Rightarrow> (redis_pool \<times> 'w) res" where
  "CreateConnection hr p w =
     bind_res (RedisConnect hr (conn_Init (pl_ip p) (ucast (pl_port p)) (pl_pwd p) (sint (pl_time_out p)) mk_RedisConn) w)
       (\<lambda>(ok, c, w1).
          if ok then Inr (p\<lparr>conn_pool := conn_pool p @ [Some c], pool_size := pool_size p + 1\<rparr>, w1)
          else Inr (p, snd (conn_Release hr c w1)))"

fun create_connections :: "'w hiredis \<Rightarrow> nat \<Rightarrow> redis_pool \<Rightarrow> 'w \<Rightarrow> (redis_pool \<times> 'w) res" where
  "create_connections hr 0 p w = Inr (p, w)"
| "create_connections hr (Suc n) p w =
     bind_res (CreateConnection hr p w) (\<lambda>(p1, w1). create_connections hr n p1 w1)"

definition InitPool ::
  "'w hiredis \<Rightarrow> string \<Rightarrow> u64 \<Rightarrow> string \<Rightarrow> int \<Rightarrow> nat \<Rightarrow> nat \<Rightarrow> redis_pool \<Rightarrow> 'w \<Rightarrow> (bool \<times> redis_pool \<times> 'w) res" where
  "InitPool hr redis_addr port pwd conn_timeout psize pmax p w =
     (let p1 = p\<lparr>pl_ip := redis_addr, pl_port := ucast port, pl_pwd := pwd, pl_time_out := of_int conn_timeout,
                 pool_size := psize, pool_max_size := pool_max_size p\<rparr>
      in bind_res (create_connections hr psize p1 w) (\<lambda>(p2, w2). Inr (conn_pool p2 \<noteq> [], p2, w2)))"

text \<open>The loop of \<^verbatim>\<open>GetRedisConn\<close>, run by one thread; a null entry is replaced by a new connection.\<close>

partial_function (option) GetRedisConn ::
  "'w hiredis \<Rightarrow> redis_pool \<Rightarrow> 'w \<Rightarrow> (redis_conn option \<times> redis_pool \<times> 'w) run" where
  "GetRedisConn hr p w =
     (case conn_pool p of
        [] \<Rightarrow>
          (if pool_size p \<le> pool_max_size p
           then (case CreateConnection hr p w of
                   Inl e \<Rightarrow> Some (Inl e)
                 | Inr (p1, w1) \<Rightarrow>
                     if conn_pool p1 = [] then Some (Inr (None, p1, w1)) else GetRedisConn hr p1 w1)
           else GetRedisConn hr p w)
      | Some c # q \<Rightarrow> Some (Inr (Some c, p\<lparr>conn_pool := q\<rparr>, w))
      | None # q \<Rightarrow>
          (case CreateConnection hr (p\<lparr>conn_pool := q\<rparr>) w of
             Inl e \<Rightarrow> Some (Inl e)
           | Inr (p1, w1) \<Rightarrow> GetRedisConn hr p1 w1))"

definition FreeRedisConn :: "redis_conn option \<Rightarrow> redis_pool \<Rightarrow> redis_pool" where
  "FreeRedisConn c p = (case c of None \<Rightarrow> p | Some _ \<Rightarrow> p\<lparr>conn_pool := conn_pool p @ [c]\<rparr>)"

text \<open>Popping drops the last owner of the connection, whose destructor frees its context.\<close>

definition drop_conn :: "'w hiredis \<Rightarrow> redis_conn option \<Rightarrow> 'w \<Rightarrow> 'w" where
  "drop_conn hr c w = (case c of None \<Rightarrow> w | Some x \<Rightarrow> snd (conn_Release hr x w))"

function release_loop ::
  "'w hiredis \<Rightarrow> nat \<Rightarrow> redis_conn option list \<Rightarrow> 'w \<Rightarrow> redis_conn option list \<times> 'w" where
  "release_loop hr i q w =
     (if i < length q then release_loop hr (Suc i) (tl q) (drop_conn hr (hd q) w) else (q, w))"
  by pat_completeness auto
termination by (relation "measure (\<lambda>(hr, i, q, w). length q)") auto

declare release_loop.simps [simp del]

definition ReleaseRedisConn :: "'w hiredis \<Rightarrow> redis_pool \<Rightarrow> 'w \<Rightarrow> redis_pool \<times> 'w" where
  "ReleaseRedisConn hr p w = (let (q, w') = release_loop hr 0 (conn_pool p) w in (p\<lparr>conn_pool := q\<rparr>, w'))"

text \<open>Each pass of \<^verbatim>\<open>CheckStatus\<close> looks at the front of the queue, which it never pops.\<close>

definition check_front :: "'w hiredis \<Rightarrow> redis_pool \<Rightarrow> 'w \<Rightarrow> (redis_pool \<times> 'w) res" where
  "check_front hr p w =
     (case conn_pool p of
        Some c # q \<Rightarrow>
          (let (ok, c1, w1) = Ping hr c w
           in if ok then Inr (p\<lparr>conn_pool := Some c1 # q\<rparr>, w1)
              else bind_res (RedisReConnect hr c1 w1) (\<lambda>(_, c2, w2). Inr (p\<lparr>conn_pool := Some c2 # q\<rparr>, w2)))
      | _ \<Rightarrow> Inl NullDeref)"

fun check_loop :: "'w hiredis \<Rightarrow> nat \<Rightarrow> redis_pool \<Rightarrow> 'w \<Rightarrow> (redis_pool \<times> 'w) res" where
  "check_loop hr 0 p w = Inr (p, w)"
| "check_loop hr (Suc n) p w = bind_res (check_front hr p w) (\<lambda>(p1, w1). check_loop hr n p1 w1)"

definition CheckStatus :: "'w hiredis \<Rightarrow> redis_pool \<Rightarrow> 'w \<Rightarrow> (redis_pool \<times> 'w) res" where
  "CheckStatus hr p w = check_loop hr (length (conn_pool p)) p w"

section \<open>Pool laws\<close>

definition pool_wf :: "redis_pool \<Rightarrow> bool" where
  "pool_wf p \<longleftrightarrow> list_all (\<lambda>c. c \<noteq> None) (conn_pool p)"

lemma pool_wf_Free [simp]: "pool_wf p \<Longrightarrow> pool_wf (FreeRedisConn c p)"
  by (auto simp: pool_wf_def FreeRedisConn_def split: option.splits)

lemma CreateConnection_cases:
  assumes "CreateConnection hr p w = Inr (p', w')"
  shows "p' = p \<or> (\<exists>c. p' = p\<lparr>conn_pool := conn_pool p @ [Some c], pool_size := pool_size p + 1\<rparr>)"
  using assms by (auto simp: CreateConnection_def bind_res_eq_Inr split: if_splits)

lemma create_connections_count:
  assumes "create_connections hr n p w = Inr (p', w')" and "pool_wf p"
  shows "\<exists>cs. conn_pool p' = conn_pool p @ map Some cs \<and> length cs \<le> n \<and> pool_size p' = pool_size p + length cs
     \<and> pool_max_size p' = pool_max_size p"
  using assms
proof (induction hr n p w arbitrary: p' w' rule: create_connections.induct)
  case (1 hr p w)
  then show ?case by (auto intro: exI[of _ "[]"])
next
  case (2 hr n p w)
  then obtain p1 w1 where c: "CreateConnection hr p w = Inr (p1, w1)" and r: "create_connections hr n p1 w1 = Inr (p', w')"
    by (auto simp: bind_res_eq_Inr)
  have wf: "pool_wf p1" using CreateConnection_cases[OF c] 2(3) by (auto simp: pool_wf_def)
  from 2(1)[OF r wf] obtain cs where cs: "conn_pool p' = conn_pool p1 @ map Some cs" "length cs \<le> n"
    "pool_size p' = pool_size p1 + length cs" "pool_max_size p' = pool_max_size p1" by auto
  from CreateConnection_cases[OF c] show ?case
  proof
    assume "p1 = p"
    with cs show ?thesis by (intro exI[of _ cs]) simp
  next
    assume "\<exists>x. p1 = p\<lparr>conn_pool := conn_pool p @ [Some x], pool_size := pool_size p + 1\<rparr>"
    then obtain x where "p1 = p\<lparr>conn_pool := conn_pool p @ [Some x], pool_size := pool_size p + 1\<rparr>" ..
    with cs show ?thesis by (intro exI[of _ "x # cs"]) simp
  qed
qed

lemma InitPool_counts:
  assumes "InitPool hr addr port pwd timeout psize pmax p w = Inr (ok, p', w')" and "conn_pool p = []"
  shows "\<exists>cs. conn_pool p' = map Some cs \<and> length cs \<le> psize \<and> (ok \<longleftrightarrow> cs \<noteq> [])
     \<and> pool_size p' = psize + length cs \<and> pool_max_size p' = pool_max_size p"
proof -
  let ?p = "p\<lparr>pl_ip := addr, pl_port := ucast port, pl_pwd := pwd, pl_time_out := of_int timeout,
    pool_size := psize, pool_max_size := pool_max_size p\<rparr>"
  from assms(1) have r: "create_connections hr psize ?p w = Inr (p', w')" and ok: "ok \<longleftrightarrow> conn_pool p' \<noteq> []"
    by (auto simp: InitPool_def Let_def bind_res_eq_Inr)
  have "pool_wf ?p" using assms(2) by (simp add: pool_wf_def)
  from create_connections_count[OF r this] obtain cs where "conn_pool p' = conn_pool ?p @ map Some cs" "length cs \<le> psize"
    "pool_size p' = pool_size ?p + length cs" "pool_max_size p' = pool_max_size ?p" by blast
  with ok assms(2) show ?thesis by (intro exI[of _ cs]) simp
qed

text \<open>
  \<open>InitPool\<close> makes at most \<open>psize\<close> connections, none of them null, and succeeds exactly when it made one;
  but every connection is counted on top of the requested size, and the requested maximum is
  ignored (\<^verbatim>\<open>pool_max_size_ = pool_max_size_\<close>), so that a full pool of \<open>psize\<close> records \<open>2 * psize\<close>.
\<close>

theorem InitPool_accounting:
  assumes "InitPool hr addr port pwd timeout psize pmax p w = Inr (ok, p', w')" and "conn_pool p = []"
  shows "\<exists>cs. conn_pool p' = map Some cs \<and> length cs \<le> psize \<and> (ok \<longleftrightarrow> cs \<noteq> [])
     \<and> pool_size p' = psize + length cs \<and> pool_max_size p' = pool_max_size p"
  by (rule InitPool_counts[OF assms])

text \<open>A server that always accepts: the world counts the contexts, commands are answered with \<^verbatim>\<open>OK\<close>.\<close>

definition demo_hr :: "nat hiredis" where
  "demo_hr = \<lparr>hr_connect = (\<lambda>ip port t n. (Some (n, False), n + 1)), hr_free = (\<lambda>x n. n),
     hr_command = (\<lambda>x f args n. (Some (ReplyStatus ''OK''), n))\<rparr>"

lemma demo_create:
  assumes "pl_pwd p = ''''"
  shows "\<exists>c. CreateConnection demo_hr p n
     = Inr (p\<lparr>conn_pool := conn_pool p @ [Some c], pool_size := pool_size p + 1\<rparr>, n + 1)"
  using assms
  by (simp add: CreateConnection_def RedisConnect_def ConnectWithTimeout_def conn_auth_def demo_hr_def
      conn_Init_def mk_RedisConn_def) (rule exI, rule refl)

theorem InitPool_accounting_witness:
  "\<exists>p w. InitPool demo_hr ''h'' 6379 '''' 1 2 100 mk_RedisPool 0 = Inr (True, p, w)
     \<and> length (conn_pool p) = 2 \<and> pool_size p = 4 \<and> pool_max_size p = 150"
proof -
  obtain ok p w where i: "InitPool demo_hr ''h'' 6379 '''' 1 2 100 mk_RedisPool 0 = Inr (ok, p, w)"
    and n: "length (conn_pool p) = 2"
  proof -
    let ?p = "mk_RedisPool\<lparr>pl_ip := ''h'', pl_port := ucast (6379 :: u64), pl_pwd := '''', pl_time_out := of_int 1,
      pool_size := 2, pool_max_size := pool_max_size mk_RedisPool\<rparr>"
    obtain a where a: "CreateConnection demo_hr ?p 0 = Inr (?p\<lparr>conn_pool := [Some a], pool_size := 3\<rparr>, 1)"
      using demo_create[of ?p 0] by (auto simp: mk_RedisPool_def)
    obtain b where b: "CreateConnection demo_hr (?p\<lparr>conn_pool := [Some a], pool_size := 3\<rparr>) 1
        = Inr (?p\<lparr>conn_pool := [Some a, Some b], pool_size := 4\<rparr>, 2)"
      using demo_create[of "?p\<lparr>conn_pool := [Some a], pool_size := 3\<rparr>" 1] by (auto simp: mk_RedisPool_def)
    have "create_connections demo_hr 2 ?p 0 = Inr (?p\<lparr>conn_pool := [Some a, Some b], pool_size := 4\<rparr>, 2)"
      using a b by (simp only: numeral_2_eq_2 create_connections.simps) simp
    then show thesis using that unfolding InitPool_def Let_def by simp
  qed
  from InitPool_accounting[OF i] n i show ?thesis by (auto simp: mk_RedisPool_def)
qed


section \<open>Borrowing a connection\<close>

lemma GetRedisConn_front:
  "conn_pool p = Some c # q \<Longrightarrow> GetRedisConn hr p w = Some (Inr (Some c, p\<lparr>conn_pool := q\<rparr>, w))"
  by (subst GetRedisConn.simps) simp

lemma GetRedisConn_spins:
  assumes "conn_pool p = []" and "pool_max_size p < pool_size p"
  shows "GetRedisConn hr p w = None"
proof -
  have "\<not> (conn_pool p = [] \<and> pool_max_size p < pool_size p)" if "GetRedisConn hr p w = Some r" for r
    using that
    by (rule GetRedisConn.raw_induct[where P = "\<lambda>hr p w r. \<not> (conn_pool p = [] \<and> pool_max_size p < pool_size p)", rotated])
      (auto split: if_splits, metis not_le)
  with assms show ?thesis by (cases "GetRedisConn hr p w") auto
qed

text \<open>
  C21. On a pool without null entries \<open>GetRedisConn\<close> hands out the connection at the front and removes
  it; on an empty pool that may still grow it makes one connection and hands it out, or returns null
  when the server refuses. On an empty pool whose recorded size exceeds the maximum it never
  returns: the thread spins until another thread gives a connection back.
\<close>

theorem GetRedisConn_cases:
  assumes "pool_wf p"
  shows "GetRedisConn hr p w =
     (case conn_pool p of
        c # q \<Rightarrow> Some (Inr (c, p\<lparr>conn_pool := q\<rparr>, w))
      | [] \<Rightarrow>
          (if pool_max_size p < pool_size p then None
           else Some (bind_res (CreateConnection hr p w) (\<lambda>(p1, w1).
                  Inr (if conn_pool p1 = [] then None else hd (conn_pool p1), p1\<lparr>conn_pool := []\<rparr>, w1)))))"
proof (cases "conn_pool p")
  case (Cons c q)
  with assms obtain x where "c = Some x" by (auto simp: pool_wf_def)
  with Cons show ?thesis by (simp add: GetRedisConn_front)
next
  case Nil
  show ?thesis
  proof (cases "pool_max_size p < pool_size p")
    case True
    with Nil show ?thesis by (simp add: GetRedisConn_spins)
  next
    case False
    show ?thesis
    proof (cases "CreateConnection hr p w")
      case (Inl e)
      with Nil False show ?thesis by (subst GetRedisConn.simps) simp
    next
      case (Inr pw)
      obtain p1 w1 where pw: "pw = (p1, w1)" by fastforce
      have *: "GetRedisConn hr p w = (if conn_pool p1 = [] then Some (Inr (None, p1, w1)) else GetRedisConn hr p1 w1)"
        using Nil False Inr pw by (subst GetRedisConn.simps) simp
      from CreateConnection_cases[of hr p w p1 w1] Inr pw Nil show ?thesis
        by (auto simp: * GetRedisConn_front False)
    qed
  qed
qed

theorem GetRedisConn_cases_witness:
  "GetRedisConn demo_hr (mk_RedisPool\<lparr>pool_size := 151\<rparr>) 0 = None"
  using GetRedisConn_cases[of "mk_RedisPool\<lparr>pool_size := 151\<rparr>" demo_hr 0]
  by (simp add: pool_wf_def mk_RedisPool_def)

definition take_conn :: "'w hiredis \<Rightarrow> 'w \<Rightarrow> redis_pool \<Rightarrow> (redis_conn \<times> redis_pool) option" where
  "take_conn hr w p = (case GetRedisConn hr p w of Some (Inr (Some c, p', w')) \<Rightarrow> Some (c, p') | _ \<Rightarrow> None)"

definition idle_conns :: "redis_pool \<Rightarrow> redis_conn list" where
  "idle_conns p = map the (conn_pool p)"

interpretation redis_lend: lending_pool pool_wf idle_conns "take_conn hr w" "\<lambda>c. FreeRedisConn (Some c)" for hr w
proof
  fix p :: redis_pool and c cs
  assume wf: "pool_wf p" and "idle_conns p = c # cs"
  then obtain q where q: "conn_pool p = Some c # q" "map the q = cs"
    by (auto simp: idle_conns_def pool_wf_def)
  with wf show "\<exists>p'. take_conn hr w p = Some (c, p') \<and> idle_conns p' = cs \<and> pool_wf p'"
    by (auto simp: take_conn_def GetRedisConn_front idle_conns_def pool_wf_def)
qed (simp_all add: idle_conns_def FreeRedisConn_def pool_wf_def)

text \<open>
  Borrow and return in sequence, as every client operation does: the first \<open>n\<close> borrowers of a pool
  with at least \<open>n\<close> idle connections get the \<open>n\<close> longest idle ones, each a different one, and
  afterwards these stand behind the others, changed only by their use.
\<close>

theorem redis_pool_rotates:
  assumes "pool_wf p" and "n \<le> length (idle_conns p)"
  shows "\<exists>p'. lend_run (take_conn hr w) (\<lambda>c. FreeRedisConn (Some c)) f n p = Some (take n (idle_conns p), p')
     \<and> idle_conns p' = drop n (idle_conns p) @ map f (take n (idle_conns p)) \<and> pool_wf p'"
  using redis_lend.uses_in_order[OF assms, of hr w f] by blast

theorem redis_pool_rotates_witness:
  "\<exists>p'. lend_run (take_conn demo_hr 0) (\<lambda>c. FreeRedisConn (Some c)) (\<lambda>c. c) 1
      (mk_RedisPool\<lparr>conn_pool := [Some mk_RedisConn, Some (mk_RedisConn\<lparr>status := True\<rparr>)]\<rparr>) = Some ([mk_RedisConn], p')
     \<and> idle_conns p' = [mk_RedisConn\<lparr>status := True\<rparr>, mk_RedisConn]"
  using redis_pool_rotates[of "mk_RedisPool\<lparr>conn_pool := [Some mk_RedisConn, Some (mk_RedisConn\<lparr>status := True\<rparr>)]\<rparr>" 1
      demo_hr 0 "\<lambda>c. c"]
  by (auto simp: pool_wf_def idle_conns_def)

section \<open>Releasing and checking\<close>

text \<open>The loop compares a growing index with a shrinking size.\<close>

lemma release_loop_half:
  assumes "i \<le> length q"
  shows "fst (release_loop hr i q w) = drop ((length q - i + 1) div 2) q"
  using assms
proof (induction hr i q w rule: release_loop.induct)
  case (1 hr i q w)
  show ?case
  proof (cases "i < length q")
    case False
    with 1(2) have "i = length q" by simp
    then show ?thesis by (subst release_loop.simps) simp
  next
    case True
    then obtain x t where q: "q = x # t" by (cases q) auto
    show ?thesis
    proof (cases "Suc i \<le> length t")
      case le: True
      have "(length q - i + 1) div 2 = Suc ((length t - Suc i + 1) div 2)" using q le by simp
      then show ?thesis using 1(1)[OF True] le q by (subst release_loop.simps) simp
    next
      case False
      then have "length t = i" using True q by simp
      then show ?thesis using True q by (subst release_loop.simps, subst release_loop.simps) simp
    qed
  qed
qed

text \<open>
  \<open>ReleaseRedisConn\<close>, also run by the destructor and \<^verbatim>\<open>ReleasePool\<close>, does not empty the pool: of \<open>n\<close>
  connections the last \<open>n div 2\<close> stay.
\<close>

theorem ReleaseRedisConn_half:
  "conn_pool (fst (ReleaseRedisConn hr p w)) = drop ((length (conn_pool p) + 1) div 2) (conn_pool p)
   \<and> length (conn_pool (fst (ReleaseRedisConn hr p w))) = length (conn_pool p) div 2"
proof -
  have "conn_pool (fst (ReleaseRedisConn hr p w)) = drop ((length (conn_pool p) + 1) div 2) (conn_pool p)"
    using release_loop_half[of 0 "conn_pool p" hr w] by (simp add: ReleaseRedisConn_def case_prod_beta)
  then show ?thesis by simp
qed

lemma check_loop_front:
  assumes "check_loop hr n p w = Inr (p', w')"
  shows "tl (conn_pool p') = tl (conn_pool p) \<and> length (conn_pool p') = length (conn_pool p)
     \<and> pool_size p' = pool_size p"
  using assms
proof (induction hr n p w arbitrary: p' w' rule: check_loop.induct)
  case (2 hr n p w)
  then obtain p1 w1 where c: "check_front hr p w = Inr (p1, w1)" and r: "check_loop hr n p1 w1 = Inr (p', w')"
    by (auto simp: bind_res_eq_Inr)
  have "tl (conn_pool p1) = tl (conn_pool p) \<and> length (conn_pool p1) = length (conn_pool p) \<and> pool_size p1 = pool_size p"
    using c by (auto simp: check_front_def bind_res_eq_Inr Let_def split: list.splits option.splits if_splits prod.splits)
  with 2(1)[OF r] show ?case by simp
qed simp

text \<open>
  \<open>CheckStatus\<close> keeps the number of connections, but it pings and reconnects only the front of the queue,
  once per connection of the pool: all the others are exactly as they were.
\<close>

theorem CheckStatus_front_only:
  assumes "CheckStatus hr p w = Inr (p', w')"
  shows "tl (conn_pool p') = tl (conn_pool p) \<and> length (conn_pool p') = length (conn_pool p)"
  using check_loop_front[OF assms[unfolded CheckStatus_def]] by simp

theorem CheckStatus_front_only_witness:
  "\<exists>p' w'. CheckStatus demo_hr (mk_RedisPool\<lparr>conn_pool := [Some (mk_RedisConn\<lparr>ctx := Some 7\<rparr>), Some mk_RedisConn]\<rparr>) 9 = Inr (p', w')
     \<and> tl (conn_pool p') = [Some mk_RedisConn]"
proof -
  let ?p = "mk_RedisPool\<lparr>conn_pool := [Some (mk_RedisConn\<lparr>ctx := Some 7\<rparr>), Some mk_RedisConn]\<rparr>"
  have "is_ok (CheckStatus demo_hr ?p 9)"
    by (simp add: CheckStatus_def numeral_2_eq_2 check_front_def Ping_def demo_hr_def mk_RedisConn_def strcasecmp_eq_def
        c_str_def to_lower_def RedisReConnect_def ConnectWithTimeout_def conn_auth_def)
  then obtain p' w' where r: "CheckStatus demo_hr ?p 9 = Inr (p', w')" by (cases "CheckStatus demo_hr ?p 9") auto
  with CheckStatus_front_only[OF r] show ?thesis by auto
qed


section \<open>Decoding replies\<close>

text \<open>The strings of a reply tree from left to right; \<open>None\<close> when a leaf carries no string.\<close>

fun reply_strings :: "redisReply \<Rightarrow> string list option"
  and elem_strings :: "redisReply option list \<Rightarrow> string list option" where
  "reply_strings (ReplyArray es) = elem_strings es"
| "reply_strings r = map_option (\<lambda>s. [c_str s]) (rly_str r)"
| "elem_strings [] = Some []"
| "elem_strings (None # es) = elem_strings es"
| "elem_strings (Some r # es) =
     (case reply_strings r of None \<Rightarrow> None | Some xs \<Rightarrow> map_option ((@) xs) (elem_strings es))"

lemma str_of_simps [simp]:
  "str_of (ReplyString s) = Inr (c_str s)" "str_of (ReplyStatus s) = Inr (c_str s)"
  "str_of (ReplyError s) = Inr (c_str s)" "str_of (ReplyArray es) = Inl null_string"
  "str_of (ReplyInteger i) = Inl null_string" "str_of ReplyNil = Inl null_string"
  "str_of (ReplyOther x) = (case x of None \<Rightarrow> Inl null_string | Some s \<Rightarrow> Inr (c_str s))"
  by (simp_all add: str_of_def)

lemma ParamRly_elems_strings:
  "ParamRly_elems es params = (case elem_strings es of None \<Rightarrow> Inl null_string | Some xs \<Rightarrow> Inr (params @ xs))"
proof -
  have "ParamRly r params = (case reply_strings r of None \<Rightarrow> Inl null_string | Some xs \<Rightarrow> Inr (params @ xs))"
    and "ParamRly_elems es params = (case elem_strings es of None \<Rightarrow> Inl null_string | Some xs \<Rightarrow> Inr (params @ xs))"
    for r es params
    by (induction r params and es params rule: ParamRly_ParamRly_elems.induct)
      (auto split: option.splits)
  then show ?thesis by blast
qed

text \<open>
  C22. \<open>ParamRly\<close> flattens a reply, arrays nested to any depth, into its strings from left to right,
  skipping null elements; it ends in the exception of a string built from a null pointer exactly
  when some leaf carries no string (a number or a nil).
\<close>

theorem ParamRly_flattens:
  "ParamRly (ReplyArray es) params =
     (case elem_strings es of None \<Rightarrow> Inl null_string | Some xs \<Rightarrow> Inr (params @ xs))"
  using ParamRly_elems_strings by simp

text \<open>The flat reply of \<^verbatim>\<open>HGETALL\<close>: fields and values alternate.\<close>

definition pairs_reply :: "(string \<times> string) list \<Rightarrow> redisReply option list" where
  "pairs_reply kvs = concat (map (\<lambda>(k, v). [Some (ReplyString k), Some (ReplyString v)]) kvs)"

lemma pairs_reply_simps [simp]:
  "pairs_reply [] = []"
  "pairs_reply ((k, v) # kvs) = Some (ReplyString k) # Some (ReplyString v) # pairs_reply kvs"
  by (simp_all add: pairs_reply_def)

lemma ParamRlyHash_pairs:
  "ParamRlyHash (ReplyArray (pairs_reply kvs)) m = Inr (map_puts (map (\<lambda>(k, v). (c_str k, c_str v)) kvs) m)"
proof -
  have "ParamRlyHash_elems (pairs_reply kvs) None m = Inr (map_puts (map (\<lambda>(k, v). (c_str k, c_str v)) kvs) m)" for m
    by (induction kvs arbitrary: m) (auto simp: map_puts_def)
  then show ?thesis by simp
qed

end
