(* ===== verification/RedisClient.thy ===== *)
theory RedisClient
  imports RedisPool "HOL-Library.Multiset"
begin

text \<open>
  The redis client \<open>DBIORedis\<close> and its facade \<open>RedisManage\<close> (hiredis_test/src/redis_client.cpp,
  redis_manage.cpp, mian.cpp): each operation borrows a connection, sends one text command built by
  concatenation, and gives the connection back. Every operation is a function of the pool and the
  world; \<open>None\<close> is a borrower that spins. \<open>RedisManage\<close> adds nothing but the conversion of \<^verbatim>\<open>const char*\<close>
  arguments to strings.
\<close>

section \<open>Operations\<close>

text \<open>The frame of every operation: borrow, run the body, give back; \<open>dflt\<close> is returned without a connection.\<close>

definition with_conn ::
  "'w hiredis \<Rightarrow> 'r \<Rightarrow> (redis_conn \<Rightarrow> 'w \<Rightarrow> ('r \<times> redis_conn \<times> 'w) res) \<Rightarrow> redis_pool \<Rightarrow> 'w
     \<Rightarrow> ('r \<times> redis_pool \<times> 'w) run" where
  "with_conn hr dflt body p w =
     bind_run (GetRedisConn hr p w) (\<lambda>(conn, p1, w1).
       case conn of
         None \<Rightarrow> Some (Inr (dflt, p1, w1))
       | Some c \<Rightarrow> bind_run (Some (body c w1)) (\<lambda>(r, c1, w2). Some (Inr (r, FreeRedisConn (Some c1) p1, w2))))"

definition cmd_set :: "string \<Rightarrow> string \<Rightarrow> string \<Rightarrow> string" where
  "cmd_set key field value = ''set '' @ key @ '' '' @ field @ '' '' @ value"

definition cmd_hset :: "string \<Rightarrow> string \<Rightarrow> string \<Rightarrow> string" where
  "cmd_hset key field value = ''hset '' @ key @ '' '' @ field @ '' '' @ value"

definition cmd_hget :: "string \<Rightarrow> string \<Rightarrow> string" where
  "cmd_hget key field = ''hget '' @ key @ '' '' @ field"

definition db_Set :: "'w hiredis \<Rightarrow> string \<Rightarrow> string \<Rightarrow> string \<Rightarrow> redis_pool \<Rightarrow> 'w \<Rightarrow> (bool \<times> redis_pool \<times> 'w) run" where
  "db_Set hr key field value =
     with_conn hr False (\<lambda>c w.
       bind_res (ExecuteResonse hr '''' (cmd_set key field value) c w) (\<lambda>((ret, _), c1, w1). Inr (ret, c1, w1)))"

text \<open>
  \<^verbatim>\<open>Get\<close> returns \<^verbatim>\<open>c_str()\<close> of a local string, so what the caller holds is null or a pointer into freed
  memory; the second argument is unused.
\<close>

datatype c_ptr = NullPtr | Dangling

definition db_Get :: "'w hiredis \<Rightarrow> string \<Rightarrow> string \<Rightarrow> redis_pool \<Rightarrow> 'w \<Rightarrow> (c_ptr \<times> redis_pool \<times> 'w) run" where
  "db_Get hr key field =
     with_conn hr NullPtr (\<lambda>c w.
       bind_res (ExecuteResonse hr '''' (''get '' @ key) c w) (\<lambda>(_, c1, w1). Inr (Dangling, c1, w1)))"

definition db_HSet :: "'w hiredis \<Rightarrow> string \<Rightarrow> string \<Rightarrow> string \<Rightarrow> redis_pool \<Rightarrow> 'w \<Rightarrow> (bool \<times> redis_pool \<times> 'w) run" where
  "db_HSet hr key field value =
     with_conn hr False (\<lambda>c w.
       bind_res (ExecuteResonse hr '''' (cmd_hset key field value) c w) (\<lambda>((ret, _), c1, w1). Inr (ret, c1, w1)))"

definition db_HGet ::
  "'w hiredis \<Rightarrow> string \<Rightarrow> string \<Rightarrow> string \<Rightarrow> redis_pool \<Rightarrow> 'w \<Rightarrow> ((bool \<times> string) \<times> redis_pool \<times> 'w) run" where
  "db_HGet hr key field reponse =
     with_conn hr (False, reponse) (\<lambda>c w. ExecuteResonse hr reponse (cmd_hget key field) c w)"

text \<open>\<^verbatim>\<open>"hkeys " + key + '\0'\<close> and \<^verbatim>\<open>"hgetall " + key + '\0'\<close>.\<close>

definition db_HKeys ::
  "'w hiredis \<Rightarrow> string \<Rightarrow> string list \<Rightarrow> redis_pool \<Rightarrow> 'w \<Rightarrow> ((bool \<times> string list) \<times> redis_pool \<times> 'w) run" where
  "db_HKeys hr key response =
     with_conn hr (False, response) (\<lambda>c w. ExecuteVector hr response (''hkeys '' @ key @ [CHR 0x00]) c w)"

fun hget_loop ::
  "'w hiredis \<Rightarrow> string \<Rightarrow> string list \<Rightarrow> (string, string) std_map \<Rightarrow> redis_conn \<Rightarrow> 'w
     \<Rightarrow> ((string, string) std_map \<times> redis_conn \<times> 'w) res" where
  "hget_loop hr key [] response c w = Inr (response, c, w)"
| "hget_loop hr key (akey # akeys) response c w =
     bind_res (ExecuteResonse hr '''' (cmd_hget key akey) c w) (\<lambda>((ret, res), c1, w1).
       hget_loop hr key akeys (if ret then map_put akey res response else response) c1 w1)"

text \<open>When \<^verbatim>\<open>HKeys\<close> fails, the connection borrowed first is dropped and not given back.\<close>

definition db_HGetAllByKeys ::
  "'w hiredis \<Rightarrow> string \<Rightarrow> (string, string) std_map \<Rightarrow> redis_pool \<Rightarrow> 'w
     \<Rightarrow> ((bool \<times> (string, string) std_map) \<times> redis_pool \<times> 'w) run" where
  "db_HGetAllByKeys hr key response p w =
     bind_run (GetRedisConn hr p w) (\<lambda>(conn, p1, w1).
       case conn of
         None \<Rightarrow> Some (Inr ((False, response), p1, w1))
       | Some c \<Rightarrow>
           bind_run (db_HKeys hr key [] p1 w1) (\<lambda>((ok, akeys), p2, w2).
             if \<not> ok then Some (Inr ((False, response), p2, drop_conn hr (Some c) w2))
             else bind_run (Some (hget_loop hr key akeys response c w2)) (\<lambda>(resp, c1, w3).
                    Some (Inr ((True, resp), FreeRedisConn (Some c1) p2, w3)))))"

definition db_HGetAll ::
  "'w hiredis \<Rightarrow> string \<Rightarrow> (string, string) std_map \<Rightarrow> redis_pool \<Rightarrow> 'w
     \<Rightarrow> ((bool \<times> (string, string) std_map) \<times> redis_pool \<times> 'w) run" where
  "db_HGetAll hr key response =
     with_conn hr (False, response) (\<lambda>c w. ExecuteMap hr response (''hgetall '' @ key @ [CHR 0x00]) c w)"

text \<open>The pool operations, passed on; the destructor of the pool releases it as \<^verbatim>\<open>ReleasePool\<close> does.\<close>

definition db_InitPool ::
  "'w hiredis \<Rightarrow> string \<Rightarrow> u64 \<Rightarrow> string \<Rightarrow> int \<Rightarrow> nat \<Rightarrow> nat \<Rightarrow> redis_pool \<Rightarrow> 'w \<Rightarrow> (bool \<times> redis_pool \<times> 'w) res" where
  "db_InitPool hr redis_addr port pwd conn_timeout psize pmax p w =
     InitPool hr redis_addr port pwd conn_timeout psize pmax p w"

definition db_ReleasePool :: "'w hiredis \<Rightarrow> redis_pool \<Rightarrow> 'w \<Rightarrow> redis_pool \<times> 'w" where
  "db_ReleasePool hr p w = ReleaseRedisConn hr p w"

definition db_CheckStatus :: "'w hiredis \<Rightarrow> redis_pool \<Rightarrow> 'w \<Rightarrow> (redis_pool \<times> 'w) res" where
  "db_CheckStatus hr p w = CheckStatus hr p w"

section \<open>RedisManage\<close>

definition rm_InitPool ::
  "'w hiredis \<Rightarrow> string \<Rightarrow> u64 \<Rightarrow> string \<Rightarrow> int \<Rightarrow> nat \<Rightarrow> nat \<Rightarrow> redis_pool \<Rightarrow> 'w \<Rightarrow> (bool \<times> redis_pool \<times> 'w) res" where
  "rm_InitPool hr redis_addr port pwd conn_timeout psize pmax p w =
     db_InitPool hr redis_addr port pwd conn_timeout psize pmax p w"

definition rm_CheckStatus :: "'w hiredis \<Rightarrow> redis_pool \<Rightarrow> 'w \<Rightarrow> (redis_pool \<times> 'w) res" where
  "rm_CheckStatus hr p w = db_CheckStatus hr p w"

definition rm_Set :: "'w hiredis \<Rightarrow> string \<Rightarrow> string \<Rightarrow> string \<Rightarrow> redis_pool \<Rightarrow> 'w \<Rightarrow> (bool \<times> redis_pool \<times> 'w) run" where
  "rm_Set hr key field value = db_Set hr (c_str key) (c_str field) (c_str value)"

definition rm_Get :: "'w hiredis \<Rightarrow> string \<Rightarrow> string \<Rightarrow> redis_pool \<Rightarrow> 'w \<Rightarrow> (c_ptr \<times> redis_pool \<times> 'w) run" where
  "rm_Get hr key field = db_Get hr (c_str key) (c_str field)"

definition rm_HSet :: "'w hiredis \<Rightarrow> string \<Rightarrow> string \<Rightarrow> string \<Rightarrow> redis_pool \<Rightarrow> 'w \<Rightarrow> (bool \<times> redis_pool \<times> 'w) run" where
  "rm_HSet hr key field value = db_HSet hr (c_str key) (c_str field) (c_str value)"

definition rm_HGet ::
  "'w hiredis \<Rightarrow> string \<Rightarrow> string \<Rightarrow> string \<Rightarrow> redis_pool \<Rightarrow> 'w \<Rightarrow> ((bool \<times> string) \<times> redis_pool \<times> 'w) run" where
  "rm_HGet hr key field value = db_HGet hr (c_str key) (c_str field) value"

definition rm_HGetAll ::
  "'w hiredis \<Rightarrow> string \<Rightarrow> (string, string) std_map \<Rightarrow> redis_pool \<Rightarrow> 'w
     \<Rightarrow> ((string, string) std_map \<times> redis_pool \<times> 'w) run" where
  "rm_HGetAll hr key reponse p w =
     bind_run (db_HGetAll hr key reponse p w) (\<lambda>((_, m), p1, w1). Some (Inr (m, p1, w1)))"

text \<open>The start of \<^verbatim>\<open>main\<close>, before it spawns its threads, and the work of one of them.\<close>

definition redis_main_setup ::
  "'w hiredis \<Rightarrow> 'w \<Rightarrow> ((string, string) std_map \<times> redis_pool \<times> 'w) run" where
  "redis_main_setup hr w =
     bind_run (Some (rm_InitPool hr ''192.168.0.172'' 6379 '''' 1 50 100 mk_RedisPool w)) (\<lambda>(_, p, w1).
     bind_run (Some (rm_CheckStatus hr p w1)) (\<lambda>(p1, w2). rm_HGetAll hr ''user:base'' [] p1 w2))"

definition redis_user :: string where
  "redis_user = ''DE61F1EF-FC53-968F-118A-9378CE037D85@1569505695950''"

fun redis_worker :: "'w hiredis \<Rightarrow> nat \<Rightarrow> redis_pool \<Rightarrow> 'w \<Rightarrow> (redis_pool \<times> 'w) run" where
  "redis_worker hr 0 p w = Some (Inr (p, w))"
| "redis_worker hr (Suc n) p w =
     bind_run (rm_HGet hr ''user:base'' redis_user '''' p w) (\<lambda>(_, p1, w1). redis_worker hr n p1 w1)"


section \<open>A reachable server\<close>

text \<open>
  Words that survive a text command: not empty, no space (it would end the word), no NUL (it would end
  the command) and no \<^verbatim>\<open>%\<close> (the command is passed as a format).
\<close>

definition plain_word :: "string \<Rightarrow> bool" where
  "plain_word s \<longleftrightarrow> s \<noteq> [] \<and> list_all (\<lambda>c. c \<noteq> CHR '' '' \<and> c \<noteq> CHR ''%'' \<and> c \<noteq> CHR 0x00) s"

text \<open>
  The commands as the redis manual documents them, for plain words, on any live context; \<open>hash w k\<close> is the
  hash stored at key \<open>k\<close>, field by field.
\<close>

definition redis_documented :: "'w hiredis \<Rightarrow> ('w \<Rightarrow> string \<Rightarrow> (string \<times> string) list) \<Rightarrow> bool" where
  "redis_documented hr hash \<longleftrightarrow>
     (\<forall>w k. distinct (map fst (hash w k)))
     \<and> (\<forall>x k f v w. plain_word k \<and> plain_word f \<and> plain_word v \<longrightarrow>
          (\<exists>n w'. hr_command hr x (cmd_hset k f v) [] w = (Some (ReplyInteger n), w')
             \<and> map_of (hash w' k) = (map_of (hash w k))(f \<mapsto> v)))
     \<and> (\<forall>x k f w. plain_word k \<and> plain_word f \<longrightarrow>
          (\<exists>w'. hr_command hr x (cmd_hget k f) [] w
              = (Some (case map_of (hash w k) f of None \<Rightarrow> ReplyNil | Some v \<Rightarrow> ReplyString v), w')
             \<and> hash w' = hash w))
     \<and> (\<forall>x k w. plain_word k \<longrightarrow>
          (\<exists>w'. hr_command hr x (''hkeys '' @ k) [] w
              = (Some (ReplyArray (map (\<lambda>(f, v). Some (ReplyString f)) (hash w k))), w')
             \<and> hash w' = hash w))
     \<and> (\<forall>x k w. plain_word k \<longrightarrow>
          (\<exists>w'. hr_command hr x (''hgetall '' @ k) [] w = (Some (ReplyArray (pairs_reply (hash w k))), w')
             \<and> hash w' = hash w))"

lemma redis_documentedD:
  assumes "redis_documented hr hash"
  shows "distinct (map fst (hash w k))"
    and "plain_word k \<Longrightarrow> plain_word f \<Longrightarrow> plain_word v \<Longrightarrow>
       \<exists>n w'. hr_command hr x (cmd_hset k f v) [] w = (Some (ReplyInteger n), w')
         \<and> map_of (hash w' k) = (map_of (hash w k))(f \<mapsto> v)"
    and "plain_word k \<Longrightarrow> plain_word f \<Longrightarrow>
       \<exists>w'. hr_command hr x (cmd_hget k f) [] w
              = (Some (case map_of (hash w k) f of None \<Rightarrow> ReplyNil | Some v \<Rightarrow> ReplyString v), w') \<and> hash w' = hash w"
    and "plain_word k \<Longrightarrow> \<exists>w'. hr_command hr x (''hkeys '' @ k) [] w
              = (Some (ReplyArray (map (\<lambda>(f, v). Some (ReplyString f)) (hash w k))), w') \<and> hash w' = hash w"
    and "plain_word k \<Longrightarrow> \<exists>w'. hr_command hr x (''hgetall '' @ k) [] w
              = (Some (ReplyArray (pairs_reply (hash w k))), w') \<and> hash w' = hash w"
  using assms unfolding redis_documented_def by simp_all

lemma plain_word_nul_free: "plain_word s \<Longrightarrow> nul_free s"
  by (auto simp: plain_word_def nul_free_def list_all_iff)

lemma c_str_snoc_nul: "nul_free s \<Longrightarrow> c_str (s @ [CHR 0x00]) = s"
  by (induction s) (auto simp: c_str_def)

lemma c_str_commands:
  "plain_word k \<Longrightarrow> plain_word f \<Longrightarrow> plain_word v \<Longrightarrow> c_str (cmd_hset k f v) = cmd_hset k f v"
  "plain_word k \<Longrightarrow> plain_word f \<Longrightarrow> c_str (cmd_hget k f) = cmd_hget k f"
  "plain_word k \<Longrightarrow> c_str (''hkeys '' @ k @ [CHR 0x00]) = ''hkeys '' @ k"
  "plain_word k \<Longrightarrow> c_str (''hgetall '' @ k @ [CHR 0x00]) = ''hgetall '' @ k"
  using c_str_snoc_nul[of "''hkeys '' @ k"] c_str_snoc_nul[of "''hgetall '' @ k"]
  by (simp_all add: cmd_hset_def cmd_hget_def plain_word_nul_free)

definition conn_ready :: "redis_conn \<Rightarrow> bool" where
  "conn_ready c \<longleftrightarrow> ctx c \<noteq> None \<and> status c"

definition pool_ready :: "redis_pool \<Rightarrow> bool" where
  "pool_ready p \<longleftrightarrow> list_all (\<lambda>c. case c of None \<Rightarrow> False | Some x \<Rightarrow> conn_ready x) (conn_pool p)"

lemma pool_readyE:
  assumes "pool_ready p" and "conn_pool p \<noteq> []"
  obtains c q where "conn_pool p = Some c # q" and "conn_ready c" and "pool_ready (p\<lparr>conn_pool := q @ [Some c]\<rparr>)"
    and "pool_ready (p\<lparr>conn_pool := q\<rparr>)"
  using assms by (cases "conn_pool p") (auto simp: pool_ready_def split: option.splits)

lemma exec_ready:
  assumes "conn_ready c" and "ctx c = Some x" and "c_str fmt = cmd" and "hr_command hr x cmd [] w = (Some r, w')"
  shows "exec_command hr fmt c w = Inr (Some r, c, w')"
  using assms by (auto simp: exec_command_def conn_ready_def)

lemma with_conn_ready:
  assumes "conn_pool p = Some c # q" and "body c w = Inr (r, c1, w1)"
  shows "with_conn hr d body p w = Some (Inr (r, p\<lparr>conn_pool := q @ [Some c1]\<rparr>, w1))"
  using assms by (simp add: with_conn_def GetRedisConn_front FreeRedisConn_def)

lemma conn_readyE: "conn_ready c \<Longrightarrow> (\<And>x. ctx c = Some x \<Longrightarrow> thesis) \<Longrightarrow> thesis"
  by (auto simp: conn_ready_def)

lemma HSet_ready:
  assumes up: "redis_documented hr hash" and p: "pool_ready p" "conn_pool p = Some c # q"
    and words: "plain_word k" "plain_word f" "plain_word v"
  shows "\<exists>w'. db_HSet hr k f v p w = Some (Inr (True, p\<lparr>conn_pool := q @ [Some c]\<rparr>, w'))
     \<and> map_of (hash w' k) = (map_of (hash w k))(f \<mapsto> v)"
proof -
  have c: "conn_ready c" using p by (simp add: pool_ready_def)
  then obtain x where x: "ctx c = Some x" by (rule conn_readyE)
  from redis_documentedD(2)[OF up words] obtain n w' where h: "hr_command hr x (cmd_hset k f v) [] w = (Some (ReplyInteger n), w')"
    "map_of (hash w' k) = (map_of (hash w k))(f \<mapsto> v)" by blast
  from exec_ready[OF c x c_str_commands(1)[OF words] h(1)] h(2) p(2) show ?thesis
    by (auto simp: db_HSet_def ExecuteResonse_def intro!: with_conn_ready exI[of _ w'])
qed

lemma hget_ready:
  assumes up: "redis_documented hr hash" and c: "conn_ready c" and words: "plain_word k" "plain_word f"
  shows "\<exists>w'. ExecuteResonse hr resp (cmd_hget k f) c w
       = Inr ((True, case map_of (hash w k) f of None \<Rightarrow> '''' | Some v \<Rightarrow> v), c, w') \<and> hash w' = hash w"
proof -
  obtain x where x: "ctx c = Some x" using c by (rule conn_readyE)
  from redis_documentedD(3)[OF up words] obtain w' where
    h: "hr_command hr x (cmd_hget k f) [] w = (Some (case map_of (hash w k) f of None \<Rightarrow> ReplyNil | Some v \<Rightarrow> ReplyString v), w')"
    "hash w' = hash w" by blast
  from exec_ready[OF c x c_str_commands(2)[OF words] h(1)] h(2) show ?thesis
    by (auto simp: ExecuteResonse_def split: option.splits)
qed



text \<open>A small server for concrete runs: it splits the command at spaces and keeps one list of writes per key.\<close>

fun words_of :: "string \<Rightarrow> string \<Rightarrow> string list" where
  "words_of acc [] = [acc]"
| "words_of acc (c # s) = (if c = CHR '' '' then acc # words_of '''' s else words_of (acc @ [c]) s)"

definition toy_hash :: "(string \<Rightarrow> (string \<times> string) list) \<Rightarrow> string \<Rightarrow> (string \<times> string) list" where
  "toy_hash w k = map_puts (w k) []"

definition toy_command ::
  "string \<Rightarrow> (string \<Rightarrow> (string \<times> string) list) \<Rightarrow> redisReply option \<times> (string \<Rightarrow> (string \<times> string) list)" where
  "toy_command fmt w =
     (case words_of '''' fmt of
        [c, k, f, v] \<Rightarrow> if c = ''hset'' then (Some (ReplyInteger 1), w(k := w k @ [(f, v)])) else (None, w)
      | [c, k, f] \<Rightarrow>
          if c = ''hget''
          then (Some (case map_of (toy_hash w k) f of None \<Rightarrow> ReplyNil | Some v \<Rightarrow> ReplyString v), w) else (None, w)
      | [c, k] \<Rightarrow>
          if c = ''hkeys'' then (Some (ReplyArray (map (\<lambda>(f, v). Some (ReplyString f)) (toy_hash w k))), w)
          else if c = ''hgetall'' then (Some (ReplyArray (pairs_reply (toy_hash w k))), w) else (None, w)
      | _ \<Rightarrow> (None, w))"

definition toy_redis :: "(string \<Rightarrow> (string \<times> string) list) hiredis" where
  "toy_redis = \<lparr>hr_connect = (\<lambda>ip port t w. (Some (1, False), w)), hr_free = (\<lambda>x w. w),
     hr_command = (\<lambda>x f args w. toy_command f w)\<rparr>"

lemma words_of_plain: "plain_word p \<Longrightarrow> words_of acc (p @ s) = words_of (acc @ p) s"
proof -
  have "\<forall>c \<in> set p. c \<noteq> CHR '' '' \<Longrightarrow> words_of acc (p @ s) = words_of (acc @ p) s" for acc
    by (induction p arbitrary: acc) auto
  then show "plain_word p \<Longrightarrow> ?thesis" by (auto simp: plain_word_def list_all_iff)
qed

lemma words_of_commands:
  "plain_word k \<Longrightarrow> plain_word f \<Longrightarrow> plain_word v \<Longrightarrow> words_of '''' (cmd_hset k f v) = [''hset'', k, f, v]"
  "plain_word k \<Longrightarrow> plain_word f \<Longrightarrow> words_of '''' (cmd_hget k f) = [''hget'', k, f]"
  "plain_word k \<Longrightarrow> words_of '''' (''hkeys '' @ k) = [''hkeys'', k]"
  "plain_word k \<Longrightarrow> words_of '''' (''hgetall '' @ k) = [''hgetall'', k]"
  using words_of_plain[of v "''''" "''''"] words_of_plain[of f "''''" "''''"] words_of_plain[of k "''''" "''''"]
  by (simp_all add: cmd_hset_def cmd_hget_def words_of_plain)

lemma toy_redis_documented: "redis_documented toy_redis toy_hash"
  unfolding redis_documented_def
proof (intro conjI allI impI)
  fix w k show "distinct (map fst (toy_hash w k))" by (simp add: toy_hash_def map_wf_distinct)
qed (auto simp: toy_redis_def toy_command_def words_of_commands toy_hash_def map_puts_append
    simp del: words_of.simps append.simps)

definition toy_pool :: redis_pool where
  "toy_pool = mk_RedisPool\<lparr>conn_pool := [Some (mk_RedisConn\<lparr>ctx := Some 1, status := True\<rparr>),
     Some (mk_RedisConn\<lparr>ctx := Some 2, status := True\<rparr>)]\<rparr>"

lemma toy_pool_ready: "pool_ready toy_pool" "conn_pool toy_pool \<noteq> []"
  by (simp_all add: pool_ready_def conn_ready_def toy_pool_def)


section \<open>The two ways to read a hash\<close>

lemma elem_strings_fields:
  "elem_strings (map (\<lambda>(f, v). Some (ReplyString f)) kvs) = Some (map (\<lambda>(f, v). c_str f) kvs)"
  by (induction kvs) auto

lemma HKeys_ready:
  assumes up: "redis_documented hr hash" and p: "pool_ready p" "conn_pool p = Some c # q" and k: "plain_word k"
    and fs: "\<forall>(f, v) \<in> set (hash w k). plain_word f"
  shows "\<exists>w'. db_HKeys hr k [] p w = Some (Inr ((True, map fst (hash w k)), p\<lparr>conn_pool := q @ [Some c]\<rparr>, w'))
     \<and> hash w' = hash w"
proof -
  have c: "conn_ready c" using p by (simp add: pool_ready_def)
  then obtain x where x: "ctx c = Some x" by (rule conn_readyE)
  from redis_documentedD(4)[OF up k] obtain w' where
    h: "hr_command hr x (''hkeys '' @ k) [] w = (Some (ReplyArray (map (\<lambda>(f, v). Some (ReplyString f)) (hash w k))), w')"
    "hash w' = hash w" by blast
  have "map (\<lambda>(f, v). c_str f) (hash w k) = map fst (hash w k)"
    using fs by (auto simp: plain_word_nul_free intro!: map_cong)
  then have "ExecuteVector hr [] (''hkeys '' @ k @ [CHR 0x00]) c w = Inr ((True, map fst (hash w k)), c, w')"
    using exec_ready[OF c x c_str_commands(3)[OF k] h(1)]
    by (simp add: ExecuteVector_def ParamRly_elems_strings elem_strings_fields)
  with h(2) p(2) show ?thesis
    by (auto simp: db_HKeys_def intro!: with_conn_ready exI[of _ w'])
qed

lemma hget_loop_ready:
  assumes up: "redis_documented hr hash" and c: "conn_ready c" and k: "plain_word k"
    and sub: "\<forall>(f, v) \<in> set kvs. plain_word f \<and> map_of (hash w k) f = Some v"
  shows "\<exists>w'. hget_loop hr k (map fst kvs) resp c w = Inr (map_puts kvs resp, c, w') \<and> hash w' = hash w"
  using sub
proof (induction kvs arbitrary: resp w)
  case Nil
  then show ?case by auto
next
  case (Cons e kvs)
  obtain f v where e: "e = (f, v)" by fastforce
  from Cons.prems e hget_ready[OF up c k, of f "''''" w] obtain w1 where
    w1: "ExecuteResonse hr '''' (cmd_hget k f) c w = Inr ((True, v), c, w1)" "hash w1 = hash w" by auto
  from Cons.IH[of w1 "map_put f v resp"] Cons.prems w1(2) obtain w' where
    "hget_loop hr k (map fst kvs) (map_put f v resp) c w1 = Inr (map_puts kvs (map_put f v resp), c, w')" "hash w' = hash w1"
    by auto
  with w1 e show ?case by simp
qed



text \<open>When \<^verbatim>\<open>HKeys\<close> fails, \<open>HGetAllByKeys\<close> loses the connection it holds.\<close>

lemma HGetAllByKeys_leaks:
  assumes "conn_pool p = Some c # q" and "db_HKeys hr k [] (p\<lparr>conn_pool := q\<rparr>) w = Some (Inr ((False, ks), p2, w2))"
  shows "db_HGetAllByKeys hr k resp p w = Some (Inr ((False, resp), p2, drop_conn hr (Some c) w2))"
  using assms by (simp add: db_HGetAllByKeys_def GetRedisConn_front)

end
