(* ===== verification/RedisThreads.thy ===== *)
theory RedisThreads
  imports RedisPool Machines "HOL-Library.Multiset"
begin

text \<open>
  The hiredis connection pool used by several threads (hiredis_test/src/redis_pool.cpp). The mutex of the
  pool makes every pass of the loop of \<open>GetRedisConn\<close>, and each of \<open>FreeRedisConn\<close>, \<open>CheckStatus\<close> and
  \<open>ReleaseRedisConn\<close>, one step; between two passes of one thread the others run. The use of a connection
  happens outside the lock. What is tracked is who owns the contexts that \<^verbatim>\<open>redisConnectWithTimeout\<close> gave
  and \<^verbatim>\<open>redisFree\<close> has not taken back.
\<close>

section \<open>One pass of GetRedisConn\<close>

text \<open>\<open>None\<close> is \<^verbatim>\<open>continue\<close>: the lock is released and taken again.\<close>

definition get_pass ::
  "'w hiredis \<Rightarrow> redis_pool \<Rightarrow> 'w \<Rightarrow> (redis_conn option option \<times> redis_pool \<times> 'w) res" where
  "get_pass hr p w =
     (case conn_pool p of
        [] \<Rightarrow>
          (if pool_size p \<le> pool_max_size p
           then bind_res (CreateConnection hr p w) (\<lambda>(p1, w1).
                  Inr (if conn_pool p1 = [] then Some None else None, p1, w1))
           else Inr (None, p, w))
      | Some c # q \<Rightarrow> Inr (Some (Some c), p\<lparr>conn_pool := q\<rparr>, w)
      | None # q \<Rightarrow>
          bind_res (CreateConnection hr (p\<lparr>conn_pool := q\<rparr>) w) (\<lambda>(p1, w1). Inr (None, p1, w1)))"

lemma GetRedisConn_passes:
  "GetRedisConn hr p w =
     (case get_pass hr p w of
        Inl e \<Rightarrow> Some (Inl e)
      | Inr (Some r, p', w') \<Rightarrow> Some (Inr (r, p', w'))
      | Inr (None, p', w') \<Rightarrow> GetRedisConn hr p' w')"
proof (cases "conn_pool p")
  case Nil
  then show ?thesis
    by (cases "CreateConnection hr p w"; subst GetRedisConn.simps) (auto simp: get_pass_def)
next
  case (Cons c q)
  then show ?thesis
    by (cases c; cases "CreateConnection hr (p\<lparr>conn_pool := q\<rparr>) w"; subst GetRedisConn.simps) (auto simp: get_pass_def)
qed

section \<open>Threads over one pool\<close>

datatype thread = Outside | Waiting | Using redis_conn

record 'w rp_state =
  rp_pool :: redis_pool
  rp_threads :: "thread list"
  rp_world :: 'w

text \<open>What the holder of a connection does with it.\<close>

inductive conn_use :: "'w hiredis \<Rightarrow> redis_conn \<Rightarrow> 'w \<Rightarrow> redis_conn \<Rightarrow> 'w \<Rightarrow> bool" for hr where
  use_response: "ExecuteResonse hr v format c w = Inr (r, c', w') \<Longrightarrow> conn_use hr c w c' w'"
| use_vector: "ExecuteVector hr vs format c w = Inr (rs, c', w') \<Longrightarrow> conn_use hr c w c' w'"
| use_map: "ExecuteMap hr m format c w = Inr (rm, c', w') \<Longrightarrow> conn_use hr c w c' w'"
| use_cmd: "ExecuteCmd hr format c w = (reply, w') \<Longrightarrow> conn_use hr c w c w'"
| use_ping: "Ping hr c w = (b, c', w') \<Longrightarrow> conn_use hr c w c' w'"
| use_reconnect: "RedisReConnect hr c w = Inr (b, c', w') \<Longrightarrow> conn_use hr c w c' w'"

definition after_pass :: "redis_conn option option \<Rightarrow> thread" where
  "after_pass r = (case r of None \<Rightarrow> Waiting | Some None \<Rightarrow> Outside | Some (Some c) \<Rightarrow> Using c)"

text \<open>The steps of the threads that use the pool, and those of one that also empties it.\<close>

inductive rp_work :: "'w hiredis \<Rightarrow> 'w rp_state \<Rightarrow> 'w rp_state \<Rightarrow> bool" for hr where
  rp_ask: "\<lbrakk>i < length ts; ts ! i = Outside\<rbrakk>
    \<Longrightarrow> rp_work hr \<lparr>rp_pool = p, rp_threads = ts, rp_world = w\<rparr> \<lparr>rp_pool = p, rp_threads = ts[i := Waiting], rp_world = w\<rparr>"
| rp_pass: "\<lbrakk>i < length ts; ts ! i = Waiting; get_pass hr p w = Inr (r, p', w')\<rbrakk>
    \<Longrightarrow> rp_work hr \<lparr>rp_pool = p, rp_threads = ts, rp_world = w\<rparr>
          \<lparr>rp_pool = p', rp_threads = ts[i := after_pass r], rp_world = w'\<rparr>"
| rp_use: "\<lbrakk>i < length ts; ts ! i = Using c; conn_use hr c w c' w'\<rbrakk>
    \<Longrightarrow> rp_work hr \<lparr>rp_pool = p, rp_threads = ts, rp_world = w\<rparr>
          \<lparr>rp_pool = p, rp_threads = ts[i := Using c'], rp_world = w'\<rparr>"
| rp_free: "\<lbrakk>i < length ts; ts ! i = Using c\<rbrakk>
    \<Longrightarrow> rp_work hr \<lparr>rp_pool = p, rp_threads = ts, rp_world = w\<rparr>
          \<lparr>rp_pool = FreeRedisConn (Some c) p, rp_threads = ts[i := Outside], rp_world = w\<rparr>"
| rp_check: "CheckStatus hr p w = Inr (p', w')
    \<Longrightarrow> rp_work hr \<lparr>rp_pool = p, rp_threads = ts, rp_world = w\<rparr> \<lparr>rp_pool = p', rp_threads = ts, rp_world = w'\<rparr>"

inductive rp_step :: "'w hiredis \<Rightarrow> 'w rp_state \<Rightarrow> 'w rp_state \<Rightarrow> bool" for hr where
  rp_works: "rp_work hr s s' \<Longrightarrow> rp_step hr s s'"
| rp_release: "ReleaseRedisConn hr p w = (p', w')
    \<Longrightarrow> rp_step hr \<lparr>rp_pool = p, rp_threads = ts, rp_world = w\<rparr> \<lparr>rp_pool = p', rp_threads = ts, rp_world = w'\<rparr>"

section \<open>Ownership of contexts\<close>

text \<open>
  The documented behaviour of hiredis: a connect call that gives a context gives a new one, freeing a
  live context ends it, and nothing else creates or ends contexts.
\<close>

definition hr_documented :: "'w hiredis \<Rightarrow> ('w \<Rightarrow> nat set) \<Rightarrow> bool" where
  "hr_documented hr alive \<longleftrightarrow>
     (\<forall>ip port t w. case hr_connect hr ip port t w of
         (None, w') \<Rightarrow> alive w' = alive w
       | (Some (x, err), w') \<Rightarrow> x \<notin> alive w \<and> alive w' = insert x (alive w))
   \<and> (\<forall>x w. x \<in> alive w \<longrightarrow> alive (hr_free hr x w) = alive w - {x})
   \<and> (\<forall>x f args w. alive (snd (hr_command hr x f args w)) = alive w)"

definition conn_ctxs :: "redis_conn \<Rightarrow> nat multiset" where
  "conn_ctxs c = (case ctx c of None \<Rightarrow> {#} | Some x \<Rightarrow> {#x#})"

definition entry_ctxs :: "redis_conn option \<Rightarrow> nat multiset" where
  "entry_ctxs e = (case e of None \<Rightarrow> {#} | Some c \<Rightarrow> conn_ctxs c)"

definition queue_ctxs :: "redis_conn option list \<Rightarrow> nat multiset" where
  "queue_ctxs q = sum_list (map entry_ctxs q)"

fun thread_ctxs :: "thread \<Rightarrow> nat multiset" where
  "thread_ctxs (Using c) = conn_ctxs c"
| "thread_ctxs _ = {#}"

definition owned :: "'w rp_state \<Rightarrow> nat multiset" where
  "owned s = queue_ctxs (conn_pool (rp_pool s)) + sum_list (map thread_ctxs (rp_threads s))"

lemma ctxs_simps [simp]:
  "entry_ctxs None = {#}" "entry_ctxs (Some c) = conn_ctxs c"
  "queue_ctxs [] = {#}" "queue_ctxs (e # q) = entry_ctxs e + queue_ctxs q" "queue_ctxs (q @ q') = queue_ctxs q + queue_ctxs q'"
  "conn_ctxs (c\<lparr>status := b\<rparr>) = conn_ctxs c" "conn_ctxs (c\<lparr>ctx := None\<rparr>) = {#}" "conn_ctxs (c\<lparr>ctx := Some x\<rparr>) = {#x#}"
  "ctx c = Some y \<Longrightarrow> conn_ctxs c = {#y#}" "ctx c = None \<Longrightarrow> conn_ctxs c = {#}"
  by (simp_all add: entry_ctxs_def queue_ctxs_def conn_ctxs_def)

text \<open>
  \<open>turns alive m w m' w'\<close>: a call that owned the contexts \<open>m\<close> owns \<open>m'\<close> afterwards, and touched no context
  of anybody else (\<open>R\<close>).
\<close>

definition turns :: "('w \<Rightarrow> nat set) \<Rightarrow> nat multiset \<Rightarrow> 'w \<Rightarrow> nat multiset \<Rightarrow> 'w \<Rightarrow> bool" where
  "turns alive m w m' w' \<longleftrightarrow>
     (\<forall>R. finite (alive w) \<and> mset_set (alive w) = m + R \<longrightarrow> finite (alive w') \<and> mset_set (alive w') = m' + R)"

lemma turns_refl [simp]: "turns alive m w m w"
  by (simp add: turns_def)

lemma turns_trans [trans]: "turns alive m w m' w' \<Longrightarrow> turns alive m' w' m'' w'' \<Longrightarrow> turns alive m w m'' w''"
  by (simp add: turns_def)

lemma turns_frame: "turns alive m w m' w' \<Longrightarrow> turns alive (m + F) w (m' + F) w'"
  by (simp add: turns_def add.assoc)

lemma turns_frame_left: "turns alive m w m' w' \<Longrightarrow> turns alive (F + m) w (F + m') w'"
  using turns_frame[of alive m w m' w' F] by (simp add: add.commute)

lemma turns_alive: "alive w' = alive w \<Longrightarrow> turns alive m w m w'"
  by (simp add: turns_def)

section \<open>Ownership through the operations of a connection\<close>

lemma hr_connect_documented:
  "hr_documented hr alive \<Longrightarrow> case hr_connect hr ip port t w of
      (None, w') \<Rightarrow> alive w' = alive w | (Some (x, err), w') \<Rightarrow> x \<notin> alive w \<and> alive w' = insert x (alive w)"
  unfolding hr_documented_def by simp

lemma turns_connect_None:
  "hr_documented hr alive \<Longrightarrow> hr_connect hr ip port t w = (None, w') \<Longrightarrow> turns alive m w m w'"
  using hr_connect_documented[where hr = hr and alive = alive and ip = ip and port = port and t = t and w = w] by (simp add: turns_alive)

lemma turns_connect_Some:
  "hr_documented hr alive \<Longrightarrow> hr_connect hr ip port t w = (Some (x, err), w') \<Longrightarrow> turns alive {#} w {#x#} w'"
  using hr_connect_documented[where hr = hr and alive = alive and ip = ip and port = port and t = t and w = w] by (simp add: turns_def)

lemma turns_free:
  assumes "hr_documented hr alive"
  shows "turns alive {#x#} w {#} (hr_free hr x w)"
proof -
  have "finite (alive (hr_free hr x w)) \<and> mset_set (alive (hr_free hr x w)) = R"
    if f: "finite (alive w)" and m: "mset_set (alive w) = {#x#} + R" for R
  proof -
    have x: "x \<in> alive w" using f m by (metis elem_mset_set multi_member_this)
    then have "alive (hr_free hr x w) = alive w - {x}" using assms by (simp add: hr_documented_def)
    with f x m show ?thesis by (simp add: mset_set_Diff)
  qed
  then show ?thesis by (simp add: turns_def)
qed

lemma turns_command:
  "hr_documented hr alive \<Longrightarrow> hr_command hr x f args w = (r, w') \<Longrightarrow> turns alive m w m w'"
  by (rule turns_alive) (metis hr_documented_def snd_conv)

lemma turns_ConnectWithTimeout:
  assumes "hr_documented hr alive" and "ConnectWithTimeout hr c w = (r, w')"
  shows "turns alive {#} w (case r of None \<Rightarrow> {#} | Some x \<Rightarrow> {#x#}) w'"
  using assms(2)
  by (auto simp: ConnectWithTimeout_def split: prod.splits option.splits if_splits
      intro: turns_connect_None[OF assms(1)] turns_connect_Some[OF assms(1)]
        turns_trans[OF turns_connect_Some[OF assms(1)] turns_free[OF assms(1)]])

text \<open>A connection operation hands its context on, and has one afterwards when it had one before.\<close>

definition conn_turns :: "('w \<Rightarrow> nat set) \<Rightarrow> redis_conn \<Rightarrow> 'w \<Rightarrow> redis_conn \<Rightarrow> 'w \<Rightarrow> bool" where
  "conn_turns alive c w c' w' \<longleftrightarrow>
     turns alive (conn_ctxs c) w (conn_ctxs c') w' \<and> size (conn_ctxs c') = size (conn_ctxs c)"

lemma conn_turns_trans: "conn_turns alive c w c' w' \<Longrightarrow> conn_turns alive c' w' c'' w'' \<Longrightarrow> conn_turns alive c w c'' w''"
  by (auto simp: conn_turns_def intro: turns_trans)

lemma conn_turns_refl [simp]: "conn_turns alive c w c w"
  by (simp add: conn_turns_def)

lemma conn_turns_command:
  "hr_documented hr alive \<Longrightarrow> hr_command hr x f args w = (r, w') \<Longrightarrow> conn_turns alive c w c w'"
  by (simp add: conn_turns_def turns_command)

lemma conn_turns_status [simp]: "conn_turns alive c w (c'\<lparr>status := b\<rparr>) w' \<longleftrightarrow> conn_turns alive c w c' w'"
  by (simp add: conn_turns_def)

lemma conn_auth_turns:
  assumes "hr_documented hr alive" and "conn_auth hr c w = Inr (b, c', w')"
  shows "conn_turns alive c w c' w'"
  using assms(2)
  by (auto simp: conn_auth_def Let_def split: prod.splits option.splits if_splits
      intro: conn_turns_command[OF assms(1)])

lemma RedisConnect_turns:
  assumes hr: "hr_documented hr alive" and "ctx c = None" and "RedisConnect hr c w = Inr (b, c', w')"
  shows "turns alive {#} w (conn_ctxs c') w' \<and> size (conn_ctxs c') \<le> 1"
proof -
  obtain r w1 where r: "ConnectWithTimeout hr (c\<lparr>ctx := None\<rparr>) w = (r, w1)" by fastforce
  note t = turns_ConnectWithTimeout[OF hr r]
  show ?thesis
  proof (cases r)
    case None
    then show ?thesis using assms(2,3) r t by (auto simp: RedisConnect_def)
  next
    case (Some x)
    then have "conn_auth hr (c\<lparr>ctx := Some x\<rparr>) w1 = Inr (b, c', w')" using assms(2,3) r by (simp add: RedisConnect_def)
    from conn_auth_turns[OF hr this] Some t show ?thesis by (auto simp: conn_turns_def intro: turns_trans)
  qed
qed

lemma RedisReConnect_turns:
  assumes hr: "hr_documented hr alive" and "RedisReConnect hr c w = Inr (b, c', w')"
  shows "conn_turns alive c w c' w'"
proof (cases "ctx c")
  case None
  then show ?thesis using assms(2) by (simp add: RedisReConnect_def conn_turns_def)
next
  case (Some old)
  obtain r w1 where r: "ConnectWithTimeout hr c w = (r, w1)" by fastforce
  note t = turns_frame[OF turns_ConnectWithTimeout[OF hr r], of "{#old#}"]
  show ?thesis
  proof (cases r)
    case None
    then show ?thesis using assms(2) Some r t by (auto simp: RedisReConnect_def conn_turns_def)
  next
    case (Some x)
    then have a: "conn_auth hr (c\<lparr>ctx := Some x\<rparr>) (hr_free hr old w1) = Inr (b, c', w')"
      using assms(2) \<open>ctx c = Some old\<close> r by (simp add: RedisReConnect_def)
    have "turns alive {#old#} w ({#x#} + {#old#}) w1" using t Some by simp
    also have "turns alive ({#x#} + {#old#}) w1 ({#x#} + {#}) (hr_free hr old w1)"
      by (rule turns_frame_left[OF turns_free[OF hr]])
    finally show ?thesis using conn_auth_turns[OF hr a] \<open>ctx c = Some old\<close>
      by (auto simp: conn_turns_def intro: turns_trans)
  qed
qed

lemma Ping_turns:
  assumes "hr_documented hr alive" and "Ping hr c w = (b, c', w')"
  shows "conn_turns alive c w c' w'"
  using assms(2)
  by (auto simp: Ping_def Let_def split: prod.splits option.splits
      intro: conn_turns_command[OF assms(1)])

lemma exec_command_turns:
  assumes hr: "hr_documented hr alive" and "exec_command hr format c w = Inr (r, c', w')"
  shows "conn_turns alive c w c' w'"
proof (cases "ctx c")
  case None
  then show ?thesis using assms(2) by (auto simp: exec_command_def conn_turns_def)
next
  case (Some x)
  with assms(2) obtain ready c1 w1 where
    r: "(if status c then Inr (True, c, w) else RedisReConnect hr c w) = Inr (ready, c1, w1)"
    and e: "(if \<not> ready then Inr (None, c1, w1)
            else (case ctx c1 of
                    None \<Rightarrow> Inl NullDeref
                  | Some x1 \<Rightarrow>
                      (case hr_command hr x1 (c_str format) [] w1 of
                         (None, w2) \<Rightarrow> Inr (None, c1\<lparr>status := False\<rparr>, w2)
                       | (Some r, w2) \<Rightarrow> Inr (Some r, c1\<lparr>status := True\<rparr>, w2)))) = Inr (r, c', w')"
    by (auto simp: exec_command_def bind_res_eq_Inr)
  have "conn_turns alive c w c1 w1"
    using r RedisReConnect_turns[OF hr] by (auto simp: conn_turns_def split: if_splits)
  moreover have "conn_turns alive c1 w1 c' w'"
    using e by (auto split: if_splits option.splits prod.splits intro: conn_turns_command[OF hr])
  ultimately show ?thesis by (rule conn_turns_trans)
qed

lemma conn_use_turns:
  assumes hr: "hr_documented hr alive" and "conn_use hr c w c' w'"
  shows "conn_turns alive c w c' w'"
  using assms(2)
proof cases
  case (use_response v format r)
  then obtain rl c1 w1 where "exec_command hr format c w = Inr (rl, c1, w1)"
    by (auto simp: ExecuteResonse_def bind_res_eq_Inr)
  with exec_command_turns[OF hr this] use_response show ?thesis
    by (cases rl; cases "the rl") (auto simp: ExecuteResonse_def bind_res_eq_Inr)
next
  case (use_vector v format r)
  then obtain rl c1 w1 where "exec_command hr format c w = Inr (rl, c1, w1)"
    by (auto simp: ExecuteVector_def bind_res_eq_Inr)
  with exec_command_turns[OF hr this] use_vector show ?thesis
    by (cases rl; cases "the rl") (auto simp: ExecuteVector_def bind_res_eq_Inr)
next
  case (use_map v format r)
  then obtain rl c1 w1 where "exec_command hr format c w = Inr (rl, c1, w1)"
    by (auto simp: ExecuteMap_def bind_res_eq_Inr)
  with exec_command_turns[OF hr this] use_map show ?thesis
    by (cases rl; cases "the rl") (auto simp: ExecuteMap_def bind_res_eq_Inr)
next
  case use_cmd
  then show ?thesis
    by (auto simp: ExecuteCmd_def split: option.splits intro: conn_turns_command[OF hr])
qed (auto dest: Ping_turns[OF hr] RedisReConnect_turns[OF hr])

section \<open>Ownership through the operations of the pool\<close>

text \<open>
  \<open>pool_turns alive m p w m' p' w'\<close>: the contexts change hands from \<open>m\<close> to \<open>m'\<close>, the pool keeps its form, every
  context that is added is counted in \<^verbatim>\<open>pool_size_\<close>, and the count passes the maximum by one at most.
\<close>

definition pool_turns ::
  "('w \<Rightarrow> nat set) \<Rightarrow> nat multiset \<Rightarrow> redis_pool \<Rightarrow> 'w \<Rightarrow> nat multiset \<Rightarrow> redis_pool \<Rightarrow> 'w \<Rightarrow> bool" where
  "pool_turns alive m p w m' p' w' \<longleftrightarrow>
     turns alive m w m' w' \<and> pool_wf p' \<and> pool_max_size p' = pool_max_size p
   \<and> size m' + pool_size p \<le> size m + pool_size p'
   \<and> pool_size p' \<le> max (pool_size p) (Suc (pool_max_size p))"

lemma pool_turns_frame: "pool_turns alive m p w m' p' w' \<Longrightarrow> pool_turns alive (m + F) p w (m' + F) p' w'"
  by (simp add: pool_turns_def turns_frame)

lemma CreateConnection_turns:
  assumes hr: "hr_documented hr alive" and c: "CreateConnection hr p w = Inr (p', w')"
  shows "turns alive (queue_ctxs (conn_pool p)) w (queue_ctxs (conn_pool p')) w'
     \<and> size (queue_ctxs (conn_pool p')) + pool_size p \<le> size (queue_ctxs (conn_pool p)) + pool_size p'"
proof -
  let ?c = "conn_Init (pl_ip p) (ucast (pl_port p)) (pl_pwd p) (sint (pl_time_out p)) mk_RedisConn"
  from c obtain ok c1 w1 where r: "RedisConnect hr ?c w = Inr (ok, c1, w1)"
    and e: "(p', w') = (if ok then (p\<lparr>conn_pool := conn_pool p @ [Some c1], pool_size := pool_size p + 1\<rparr>, w1)
          else (p, snd (conn_Release hr c1 w1)))"
    by (auto simp: CreateConnection_def bind_res_eq_Inr split: if_splits)
  have "ctx ?c = None" by (simp add: conn_Init_def mk_RedisConn_def)
  from RedisConnect_turns[OF hr this r]
  have t: "turns alive {#} w (conn_ctxs c1) w1" and n: "size (conn_ctxs c1) \<le> 1" by auto
  show ?thesis
  proof (cases ok)
    case True
    with e n turns_frame_left[OF t, of "queue_ctxs (conn_pool p)"] show ?thesis by auto
  next
    case False
    have "turns alive (conn_ctxs c1) w1 {#} (snd (conn_Release hr c1 w1))"
      by (cases "ctx c1") (auto simp: conn_Release_def turns_free[OF hr])
    from turns_frame_left[OF turns_trans[OF t this], of "queue_ctxs (conn_pool p)"] False e show ?thesis by simp
  qed
qed

lemma CreateConnection_wf: "CreateConnection hr p w = Inr (p', w') \<Longrightarrow> pool_wf p \<Longrightarrow> pool_wf p'"
  by (drule CreateConnection_cases) (auto simp: pool_wf_def)

lemma get_pass_turns:
  assumes hr: "hr_documented hr alive" and wf: "pool_wf p" and g: "get_pass hr p w = Inr (r, p', w')"
  shows "pool_turns alive (queue_ctxs (conn_pool p)) p w (queue_ctxs (conn_pool p') + thread_ctxs (after_pass r)) p' w'"
proof (cases "conn_pool p")
  case (Cons e q)
  then show ?thesis using g wf
    by (auto simp: get_pass_def pool_wf_def pool_turns_def after_pass_def add.commute split: option.splits)
next
  case Nil
  show ?thesis
  proof (cases "pool_size p \<le> pool_max_size p")
    case False
    then show ?thesis using Nil g wf by (auto simp: get_pass_def pool_turns_def after_pass_def)
  next
    case True
    with Nil g have c: "CreateConnection hr p w = Inr (p', w')" and r: "thread_ctxs (after_pass r) = {#}"
      by (auto simp: get_pass_def bind_res_eq_Inr after_pass_def)
    show ?thesis
      using CreateConnection_turns[OF hr c] CreateConnection_wf[OF c wf] CreateConnection_cases[OF c] True
      by (auto simp: pool_turns_def r)
  qed
qed

lemma check_front_turns:
  assumes hr: "hr_documented hr alive" and wf: "pool_wf p" and c: "check_front hr p w = Inr (p', w')"
  shows "pool_turns alive (queue_ctxs (conn_pool p)) p w (queue_ctxs (conn_pool p')) p' w'"
proof -
  from c obtain x q where q: "conn_pool p = Some x # q" by (auto simp: check_front_def split: list.splits option.splits)
  obtain ok c1 w1 where ping: "Ping hr x w = (ok, c1, w1)" by (cases "Ping hr x w") auto
  note t1 = Ping_turns[OF hr ping]
  obtain c2 where p': "p' = p\<lparr>conn_pool := Some c2 # q\<rparr>" and t: "conn_turns alive x w c2 w'"
  proof (cases ok)
    case True
    with c q ping t1 show thesis by (intro that[of c1]) (auto simp: check_front_def)
  next
    case False
    with c q ping obtain b c2 where "RedisReConnect hr c1 w1 = Inr (b, c2, w')" "p' = p\<lparr>conn_pool := Some c2 # q\<rparr>"
      by (auto simp: check_front_def bind_res_eq_Inr)
    with conn_turns_trans[OF t1 RedisReConnect_turns[OF hr]] show thesis by (intro that[of c2]) auto
  qed
  show ?thesis using t p' q wf turns_frame[of alive "conn_ctxs x" w "conn_ctxs c2" w' "queue_ctxs q"]
    by (auto simp: pool_turns_def conn_turns_def pool_wf_def)
qed

lemma check_loop_turns:
  assumes "hr_documented hr alive" and "pool_wf p" and "check_loop hr n p w = Inr (p', w')"
  shows "pool_turns alive (queue_ctxs (conn_pool p)) p w (queue_ctxs (conn_pool p')) p' w'"
  using assms
proof (induction hr n p w arbitrary: p' w' rule: check_loop.induct)
  case (1 hr p w)
  then show ?case by (simp add: pool_turns_def)
next
  case (2 hr n p w)
  from 2(4) obtain p1 w1 where c: "check_front hr p w = Inr (p1, w1)" and r: "check_loop hr n p1 w1 = Inr (p', w')"
    by (auto simp: bind_res_eq_Inr)
  have t: "pool_turns alive (queue_ctxs (conn_pool p)) p w (queue_ctxs (conn_pool p1)) p1 w1"
    using check_front_turns[OF 2(2,3) c] .
  with 2(1)[OF 2(2) _ r] show ?case by (auto simp: pool_turns_def intro: turns_trans)
qed

lemma release_loop_turns:
  assumes "hr_documented hr alive" and "release_loop hr i q w = (q', w')" and "list_all (\<lambda>c. c \<noteq> None) q"
  shows "turns alive (queue_ctxs q) w (queue_ctxs q') w' \<and> size (queue_ctxs q') \<le> size (queue_ctxs q)
     \<and> list_all (\<lambda>c. c \<noteq> None) q'"
  using assms
proof (induction hr i q w rule: release_loop.induct)
  case (1 hr i q w)
  show ?case
  proof (cases "i < length q")
    case False
    with 1(3,4) show ?thesis by (subst (asm) release_loop.simps) simp
  next
    case True
    then obtain e t where q: "q = e # t" by (cases q) auto
    have "turns alive (entry_ctxs e) w {#} (drop_conn hr e w)"
      by (auto simp: drop_conn_def conn_Release_def turns_free[OF 1(2)] split: option.split)
    from turns_frame[OF this, of "queue_ctxs t"]
    have d: "turns alive (queue_ctxs q) w (queue_ctxs t) (drop_conn hr e w)" by (simp add: q)
    have r: "release_loop hr (Suc i) t (drop_conn hr e w) = (q', w')"
      using 1(3) True q by (subst (asm) release_loop.simps) simp
    show ?thesis using 1(1)[OF True 1(2)] r 1(4) turns_trans[OF d] q by (auto simp: add_increasing)
  qed
qed

lemma ReleaseRedisConn_turns:
  assumes hr: "hr_documented hr alive" and "pool_wf p" and "ReleaseRedisConn hr p w = (p', w')"
  shows "pool_turns alive (queue_ctxs (conn_pool p)) p w (queue_ctxs (conn_pool p')) p' w'"
proof -
  obtain q where "release_loop hr 0 (conn_pool p) w = (q, w')" and "p' = p\<lparr>conn_pool := q\<rparr>"
    using assms(3) by (auto simp: ReleaseRedisConn_def Let_def split: prod.splits)
  with release_loop_turns[OF hr this(1)] assms(2) show ?thesis by (simp add: pool_turns_def pool_wf_def)
qed

section \<open>Ownership through the steps of the threads\<close>

lemma sum_list_split:
  fixes f :: "'a \<Rightarrow> 'b :: comm_monoid_add"
  assumes "i < length ts"
  shows "\<exists>R. sum_list (map f ts) = f (ts ! i) + R \<and> (\<forall>t. sum_list (map f (ts[i := t])) = f t + R)"
  using assms
proof (induction ts arbitrary: i)
  case (Cons u ts)
  show ?case
  proof (cases i)
    case 0
    then show ?thesis by (intro exI[of _ "sum_list (map f ts)"]) simp
  next
    case (Suc j)
    with Cons.IH[of j] Cons.prems obtain R where "sum_list (map f ts) = f (ts ! j) + R"
      "\<forall>t. sum_list (map f (ts[j := t])) = f t + R" by auto
    then show ?thesis using Suc by (intro exI[of _ "f u + R"]) (simp add: add.left_commute)
  qed
qed simp

lemmas threads_split = sum_list_split[where f = thread_ctxs]

lemma rp_work_turns:
  assumes "rp_work hr s s'" and hr: "hr_documented hr alive" and wf: "pool_wf (rp_pool s)"
  shows "pool_turns alive (owned s) (rp_pool s) (rp_world s) (owned s') (rp_pool s') (rp_world s')
     \<and> length (rp_threads s') = length (rp_threads s)"
  using assms(1)
proof cases
  case (rp_ask i ts p w)
  then show ?thesis using wf threads_split[of i ts] by (auto simp: owned_def pool_turns_def)
next
  case (rp_pass i ts p w r p' w')
  obtain R where R: "sum_list (map thread_ctxs ts) = R" "sum_list (map thread_ctxs (ts[i := after_pass r])) = thread_ctxs (after_pass r) + R"
    using threads_split[OF rp_pass(3)] rp_pass(4) by auto
  have "pool_turns alive (queue_ctxs (conn_pool p)) p w (queue_ctxs (conn_pool p') + thread_ctxs (after_pass r)) p' w'"
    using get_pass_turns[OF hr _ rp_pass(5)] wf rp_pass(1) by simp
  from pool_turns_frame[OF this, of R] show ?thesis by (simp add: owned_def rp_pass(1,2) R add.assoc)
next
  case (rp_use i ts c w c' w' p)
  obtain R where R: "sum_list (map thread_ctxs ts) = conn_ctxs c + R" "sum_list (map thread_ctxs (ts[i := Using c'])) = conn_ctxs c' + R"
    using threads_split[OF rp_use(3)] rp_use(4) by auto
  have t: "conn_turns alive c w c' w'" by (rule conn_use_turns[OF hr rp_use(5)])
  then have "pool_turns alive (conn_ctxs c) p w (conn_ctxs c') p w'"
    using wf rp_use(1) by (simp add: conn_turns_def pool_turns_def)
  from pool_turns_frame[OF this, of "R + queue_ctxs (conn_pool p)"] show ?thesis
    by (simp add: owned_def rp_use(1,2) R ac_simps)
next
  case (rp_free i ts c p w)
  obtain R where R: "sum_list (map thread_ctxs ts) = conn_ctxs c + R" "sum_list (map thread_ctxs (ts[i := Outside])) = R"
    using threads_split[OF rp_free(3)] rp_free(4) by auto
  have "owned s' = owned s" by (simp add: owned_def rp_free(1,2) R FreeRedisConn_def ac_simps)
  then show ?thesis using wf by (simp add: pool_turns_def rp_free(1,2)) (simp add: FreeRedisConn_def)
next
  case (rp_check p w p' w' ts)
  have "pool_turns alive (queue_ctxs (conn_pool p)) p w (queue_ctxs (conn_pool p')) p' w'"
    using check_loop_turns[OF hr _ rp_check(3)[unfolded CheckStatus_def]] wf rp_check(1) by simp
  from pool_turns_frame[OF this] show ?thesis by (simp add: owned_def rp_check(1,2))
qed

lemma rp_step_turns:
  assumes "rp_step hr s s'" and hr: "hr_documented hr alive" and wf: "pool_wf (rp_pool s)"
  shows "pool_turns alive (owned s) (rp_pool s) (rp_world s) (owned s') (rp_pool s') (rp_world s')
     \<and> length (rp_threads s') = length (rp_threads s)"
  using assms(1)
proof cases
  case rp_works
  then show ?thesis by (rule rp_work_turns[OF _ hr wf])
next
  case (rp_release p w p' w' ts)
  have "pool_turns alive (queue_ctxs (conn_pool p)) p w (queue_ctxs (conn_pool p')) p' w'"
    using ReleaseRedisConn_turns[OF hr _ rp_release(3)] wf rp_release(1) by simp
  from pool_turns_frame[OF this] show ?thesis by (simp add: owned_def rp_release(1,2))
qed

text \<open>
  The invariant: the live contexts are the owned ones, each owned once; \<open>base\<close> is what \<^verbatim>\<open>pool_size_\<close> counts
  too much, \<open>cap\<close> bounds it.
\<close>

definition rp_inv :: "('w \<Rightarrow> nat set) \<Rightarrow> nat \<Rightarrow> nat \<Rightarrow> nat \<Rightarrow> 'w rp_state \<Rightarrow> bool" where
  "rp_inv alive base cap n s \<longleftrightarrow>
     pool_wf (rp_pool s) \<and> finite (alive (rp_world s)) \<and> mset_set (alive (rp_world s)) = owned s
   \<and> size (owned s) + base \<le> pool_size (rp_pool s) \<and> pool_size (rp_pool s) \<le> cap \<and> pool_max_size (rp_pool s) < cap
   \<and> length (rp_threads s) = n"

lemma rp_inv_step:
  assumes "hr_documented hr alive" and "rp_inv alive base cap n s" and "rp_step hr s s'"
  shows "rp_inv alive base cap n s'"
proof -
  have t: "pool_turns alive (owned s) (rp_pool s) (rp_world s) (owned s') (rp_pool s') (rp_world s')"
    and l: "length (rp_threads s') = length (rp_threads s)"
    using rp_step_turns[OF assms(3,1)] assms(2) by (auto simp: rp_inv_def)
  from t have "finite (alive (rp_world s')) \<and> mset_set (alive (rp_world s')) = owned s' + {#}"
    using assms(2) unfolding pool_turns_def turns_def rp_inv_def by (metis add_0_right)
  then show ?thesis using t l assms(2) by (auto simp: rp_inv_def pool_turns_def max_def split: if_splits)
qed

interpretation rp: machine "rp_step hr" "\<lambda>s. hr_documented hr alive \<and> rp_inv alive base cap n s" for hr alive base cap n
  by unfold_locales (blast intro: rp_inv_step)

text \<open>The pool that \<open>InitPool\<close> makes, before any thread has asked for a connection.\<close>

lemma create_connections_turns:
  assumes "hr_documented hr alive" and "create_connections hr n p w = Inr (p', w')"
  shows "turns alive (queue_ctxs (conn_pool p)) w (queue_ctxs (conn_pool p')) w'
     \<and> size (queue_ctxs (conn_pool p')) + pool_size p \<le> size (queue_ctxs (conn_pool p)) + pool_size p'"
  using assms
proof (induction hr n p w arbitrary: p' w' rule: create_connections.induct)
  case (2 hr n p w)
  from 2(3) obtain p1 w1 where c: "CreateConnection hr p w = Inr (p1, w1)" and r: "create_connections hr n p1 w1 = Inr (p', w')"
    by (auto simp: bind_res_eq_Inr)
  from CreateConnection_turns[OF 2(2) c] 2(1)[OF 2(2) r] show ?case by (auto intro: turns_trans)
qed simp

lemma threads_outside [simp]: "sum_list (replicate n ({#} :: nat multiset)) = {#}"
  by (induction n) auto

lemma InitPool_rp_inv:
  assumes hr: "hr_documented hr alive" and w0: "alive w0 = {}"
    and i: "InitPool hr addr port pwd timeout psize pmax mk_RedisPool w0 = Inr (ok, p, w)"
  shows "rp_inv alive psize (max (2 * psize) 151) n \<lparr>rp_pool = p, rp_threads = replicate n Outside, rp_world = w\<rparr>"
proof -
  let ?p = "mk_RedisPool\<lparr>pl_ip := addr, pl_port := ucast port, pl_pwd := pwd, pl_time_out := of_int timeout,
    pool_size := psize, pool_max_size := pool_max_size mk_RedisPool\<rparr>"
  have e: "conn_pool ?p = []" "pool_size ?p = psize" "pool_max_size ?p = 150" "pool_wf ?p"
    by (simp_all add: mk_RedisPool_def pool_wf_def)
  from i have r: "create_connections hr psize ?p w0 = Inr (p, w)"
    by (auto simp: InitPool_def Let_def bind_res_eq_Inr)
  from create_connections_turns[OF hr r] have t: "turns alive {#} w0 (queue_ctxs (conn_pool p)) w"
    and n: "size (queue_ctxs (conn_pool p)) + psize \<le> pool_size p" by (simp_all only: e ctxs_simps size_empty) simp
  from create_connections_count[OF r e(4)] obtain cs where "conn_pool p = map Some cs" "length cs \<le> psize"
    "pool_size p = psize + length cs" "pool_max_size p = 150" by (auto simp only: e append_Nil)
  moreover from t w0 have "finite (alive w) \<and> mset_set (alive w) = queue_ctxs (conn_pool p)" by (simp add: turns_def)
  ultimately show ?thesis using n by (auto simp: rp_inv_def owned_def pool_wf_def list_all_iff)
qed

lemma owned_thread:
  assumes "i < length (rp_threads s)" and "rp_threads s ! i = Using c" and "ctx c = Some x"
  shows "x \<in># owned s"
proof -
  obtain R where "sum_list (map thread_ctxs (rp_threads s)) = thread_ctxs (Using c) + R"
    using threads_split[OF assms(1)] assms(2) by metis
  with assms(3) show ?thesis by (simp add: owned_def del: sum_list.Cons)
qed

text \<open>A context that is owned once is in one place.\<close>

lemma owned_once:
  assumes once: "count (owned s) x \<le> 1" and i: "i < length (rp_threads s)" "rp_threads s ! i = Using c" "ctx c = Some x"
  shows "(\<forall>j d. j < length (rp_threads s) \<and> j \<noteq> i \<and> rp_threads s ! j = Using d \<longrightarrow> ctx d \<noteq> Some x)
     \<and> (\<forall>d. Some d \<in> set (conn_pool (rp_pool s)) \<longrightarrow> ctx d \<noteq> Some x)"
proof -
  let ?ts = "rp_threads s"
  obtain R where R: "sum_list (map thread_ctxs ?ts) = add_mset x R" "sum_list (map thread_ctxs (?ts[i := Outside])) = R"
    using threads_split[OF i(1)] i(2,3) by fastforce
  from once R(1) have q: "x \<notin># queue_ctxs (conn_pool (rp_pool s))" and r: "x \<notin># R"
    by (auto simp: owned_def not_in_iff)
  have "ctx d \<noteq> Some x" if j: "j < length ?ts" "j \<noteq> i" "?ts ! j = Using d" for j d
  proof
    assume d: "ctx d = Some x"
    have "thread_ctxs (Using d) \<subseteq># R"
      using threads_split[of j "?ts[i := Outside]"] j R(2) by auto
    with d r show False by simp
  qed
  moreover have "ctx d \<noteq> Some x" if "Some d \<in> set (conn_pool (rp_pool s))" for d
  proof
    assume d: "ctx d = Some x"
    from that obtain q1 q2 where "conn_pool (rp_pool s) = q1 @ Some d # q2" by (meson split_list)
    with d q show False by simp
  qed
  ultimately show ?thesis by blast
qed

text \<open>What the invariant says of a state.\<close>

lemma rp_inv_safe:
  assumes inv: "rp_inv alive psize (max (2 * psize) 151) n s"
  shows "mset_set (alive (rp_world s)) = owned s
     \<and> (\<forall>i c x. i < n \<and> rp_threads s ! i = Using c \<and> ctx c = Some x
         \<longrightarrow> x \<in> alive (rp_world s)
           \<and> (\<forall>j d. j < n \<and> j \<noteq> i \<and> rp_threads s ! j = Using d \<longrightarrow> ctx d \<noteq> Some x)
           \<and> (\<forall>d. Some d \<in> set (conn_pool (rp_pool s)) \<longrightarrow> ctx d \<noteq> Some x))
     \<and> card (alive (rp_world s)) \<le> max psize (151 - psize)"
proof -
  from inv have o: "mset_set (alive (rp_world s)) = owned s" and f: "finite (alive (rp_world s))"
    and l: "length (rp_threads s) = n" by (auto simp: rp_inv_def)
  have "size (owned s) = card (alive (rp_world s))" by (simp flip: o)
  then have "card (alive (rp_world s)) \<le> max psize (151 - psize)" using inv by (auto simp: rp_inv_def)
  moreover have "x \<in> alive (rp_world s)
      \<and> (\<forall>j d. j < n \<and> j \<noteq> i \<and> rp_threads s ! j = Using d \<longrightarrow> ctx d \<noteq> Some x)
      \<and> (\<forall>d. Some d \<in> set (conn_pool (rp_pool s)) \<longrightarrow> ctx d \<noteq> Some x)"
    if "i < n" "rp_threads s ! i = Using c" "ctx c = Some x" for i c x
  proof
    have once: "count (owned s) x \<le> 1" by (simp flip: o add: count_mset_set')
    have i: "i < length (rp_threads s)" using that(1) l by simp
    show "x \<in> alive (rp_world s)" using owned_thread[OF i that(2,3)] f by (simp flip: o)
    show "(\<forall>j d. j < n \<and> j \<noteq> i \<and> rp_threads s ! j = Using d \<longrightarrow> ctx d \<noteq> Some x)
      \<and> (\<forall>d. Some d \<in> set (conn_pool (rp_pool s)) \<longrightarrow> ctx d \<noteq> Some x)"
      using owned_once[OF once i that(2,3)] l by simp
  qed
  ultimately show ?thesis using o by blast
qed

text \<open>
  C15. Threads share the pool. From the pool that \<open>InitPool\<close> made, after any interleaving of passes of
  \<open>GetRedisConn\<close>, commands, reconnects, returns, status checks and releases by any number of threads:
  the live hiredis contexts are exactly those owned by the queue and the threads, each owned once (none is
  leaked, none freed twice or used after it was freed); the context a thread works on is live and
  neither another thread nor the queue has it; and at most as many contexts are open as the initial
  size, or 151 less the initial size when that is more.
\<close>

theorem redis_threads_safe:
  assumes "hr_documented hr alive" and "alive w0 = {}"
    and "InitPool hr addr port pwd timeout psize pmax mk_RedisPool w0 = Inr (ok, p, w)"
    and "(rp_step hr)\<^sup>*\<^sup>* \<lparr>rp_pool = p, rp_threads = replicate n Outside, rp_world = w\<rparr> s"
  shows "mset_set (alive (rp_world s)) = owned s
     \<and> (\<forall>i c x. i < n \<and> rp_threads s ! i = Using c \<and> ctx c = Some x
         \<longrightarrow> x \<in> alive (rp_world s)
           \<and> (\<forall>j d. j < n \<and> j \<noteq> i \<and> rp_threads s ! j = Using d \<longrightarrow> ctx d \<noteq> Some x)
           \<and> (\<forall>d. Some d \<in> set (conn_pool (rp_pool s)) \<longrightarrow> ctx d \<noteq> Some x))
     \<and> card (alive (rp_world s)) \<le> max psize (151 - psize)"
proof -
  have "rp_inv alive psize (max (2 * psize) 151) n s"
    using rp.inv_run[OF assms(4)] InitPool_rp_inv[OF assms(1-3)] assms(1) by blast
  then show ?thesis by (rule rp_inv_safe)
qed

text \<open>A server that accepts every connection; its world lists the live contexts.\<close>

definition list_hr :: "nat list hiredis" where
  "list_hr = \<lparr>hr_connect = (\<lambda>ip port t w. (Some (Suc (sum_list w), False), Suc (sum_list w) # w)),
     hr_free = (\<lambda>x w. filter (\<lambda>y. y \<noteq> x) w), hr_command = (\<lambda>x f args w. (Some (ReplyStatus ''OK''), w))\<rparr>"

lemma list_hr_documented: "hr_documented list_hr set"
proof -
  have "Suc (sum_list w) \<notin> set w" for w :: "nat list" using member_le_sum_list[of _ w] by fastforce
  then show ?thesis by (auto simp: hr_documented_def list_hr_def)
qed

definition list_conn :: "redis_pool \<Rightarrow> nat \<Rightarrow> redis_conn" where
  "list_conn p x = (conn_Init (pl_ip p) (ucast (pl_port p)) (pl_pwd p) (sint (pl_time_out p)) mk_RedisConn)
     \<lparr>ctx := Some x, status := True\<rparr>"

lemma list_hr_create:
  "pl_pwd p = '''' \<Longrightarrow> CreateConnection list_hr p w
     = Inr (p\<lparr>conn_pool := conn_pool p @ [Some (list_conn p (Suc (sum_list w)))], pool_size := pool_size p + 1\<rparr>, Suc (sum_list w) # w)"
  by (simp add: CreateConnection_def RedisConnect_def ConnectWithTimeout_def conn_auth_def list_hr_def
      conn_Init_def mk_RedisConn_def list_conn_def)

lemma list_hr_create_one:
  assumes "conn_pool q = []" and "pool_size q = 1" and "pl_pwd q = ''''"
  shows "create_connections list_hr 1 q [] = Inr (q\<lparr>conn_pool := [Some (list_conn q 1)], pool_size := 2\<rparr>, [1])"
  using assms by (simp add: list_hr_create numeral_2_eq_2)

text \<open>Two threads: the second finds the queue empty, makes a connection in one pass and takes it in the next.\<close>

lemma two_threads_run:
  assumes "conn_pool p = [Some c]" and "pl_pwd p = ''''" and "pool_size p = 2" and "pool_max_size p = 150"
  shows "\<exists>s d. (rp_step list_hr)\<^sup>*\<^sup>* \<lparr>rp_pool = p, rp_threads = [Outside, Outside], rp_world = [1]\<rparr> s
     \<and> rp_threads s = [Using c, Using d] \<and> ctx d = Some 2 \<and> rp_world s = [2, 1]"
proof -
  let ?d = "list_conn p 2"
  let ?f = "p\<lparr>conn_pool := [Some ?d], pool_size := 3\<rparr>" and ?e = "p\<lparr>conn_pool := [Some ?d], pool_size := 3, conn_pool := []\<rparr>"
  let ?st = "\<lambda>q ts w. \<lparr>rp_pool = q, rp_threads = ts, rp_world = w\<rparr>"
  have lc: "list_conn (p\<lparr>conn_pool := q\<rparr>) x = list_conn p x" for q x by (simp add: list_conn_def)
  have "rp_step list_hr (?st p [Outside, Outside] [1]) (?st p [Waiting, Outside] [1])"
    using rp_works[OF rp_ask, of 0 "[Outside, Outside]" list_hr] by simp
  moreover have "rp_step list_hr (?st p [Waiting, Outside] [1]) (?st (p\<lparr>conn_pool := []\<rparr>) [Using c, Outside] [1])"
    using rp_works[OF rp_pass, of 0 "[Waiting, Outside]" list_hr p "[1]"] assms(1) by (auto simp: get_pass_def after_pass_def)
  moreover have "rp_step list_hr (?st (p\<lparr>conn_pool := []\<rparr>) [Using c, Outside] [1]) (?st (p\<lparr>conn_pool := []\<rparr>) [Using c, Waiting] [1])"
    using rp_works[OF rp_ask, of 1 "[Using c, Outside]" list_hr] by simp
  moreover have "rp_step list_hr (?st (p\<lparr>conn_pool := []\<rparr>) [Using c, Waiting] [1]) (?st ?f [Using c, Waiting] [2, 1])"
    using rp_works[OF rp_pass, of 1 "[Using c, Waiting]" list_hr "p\<lparr>conn_pool := []\<rparr>" "[1]"] assms(2-4)
    by (auto simp: get_pass_def after_pass_def list_hr_create lc numeral_2_eq_2 numeral_3_eq_3)
  moreover have "rp_step list_hr (?st ?f [Using c, Waiting] [2, 1]) (?st ?e [Using c, Using ?d] [2, 1])"
    using rp_works[OF rp_pass, of 1 "[Using c, Waiting]" list_hr "?f" "[2, 1]"]
    by (auto simp: get_pass_def after_pass_def)
  ultimately have "(rp_step list_hr)\<^sup>*\<^sup>* (?st p [Outside, Outside] [1]) (?st ?e [Using c, Using ?d] [2, 1])"
    by (meson converse_rtranclp_into_rtranclp rtranclp.rtrancl_refl)
  then show ?thesis
    by (intro exI[of _ "?st ?e [Using c, Using ?d] [2, 1]"] exI[of _ ?d]) (simp add: list_conn_def)
qed

lemma list_hr_InitPool:
  "\<exists>p c. InitPool list_hr ''h'' 6379 '''' 1 1 1 mk_RedisPool [] = Inr (True, p, [1]) \<and> ctx c = Some 1
     \<and> conn_pool p = [Some c] \<and> pl_pwd p = '''' \<and> pool_size p = 2 \<and> pool_max_size p = 150"
proof -
  let ?q = "mk_RedisPool\<lparr>pl_ip := ''h'', pl_port := ucast (6379 :: u64), pl_pwd := '''', pl_time_out := of_int 1,
    pool_size := 1, pool_max_size := pool_max_size mk_RedisPool\<rparr>"
  let ?p = "?q\<lparr>conn_pool := [Some (list_conn ?q 1)], pool_size := 2\<rparr>"
  have "conn_pool ?q = []" "pool_size ?q = 1" "pl_pwd ?q = ''''" by (simp_all add: mk_RedisPool_def)
  then have "create_connections list_hr 1 ?q [] = Inr (?p, [1])" by (rule list_hr_create_one)
  then have i: "InitPool list_hr ''h'' 6379 '''' 1 1 1 mk_RedisPool [] = Inr (True, ?p, [1])"
    by (simp only: InitPool_def Let_def) simp
  have "ctx (list_conn ?q 1) = Some 1" by (simp add: list_conn_def)
  moreover have "conn_pool ?p = [Some (list_conn ?q 1)]" "pl_pwd ?p = ''''" "pool_size ?p = 2" "pool_max_size ?p = 150"
    by (simp_all add: mk_RedisPool_def)
  ultimately show ?thesis using i by blast
qed

theorem redis_threads_safe_witness:
  "\<exists>p s c d. InitPool list_hr ''h'' 6379 '''' 1 1 1 mk_RedisPool [] = Inr (True, p, [1])
     \<and> (rp_step list_hr)\<^sup>*\<^sup>* \<lparr>rp_pool = p, rp_threads = [Outside, Outside], rp_world = [1]\<rparr> s
     \<and> rp_threads s = [Using c, Using d] \<and> ctx c = Some 1 \<and> ctx d \<noteq> Some 1 \<and> mset_set {1, 2} = owned s
     \<and> card (set (rp_world s)) \<le> 150"
proof -
  obtain p c where i: "InitPool list_hr ''h'' 6379 '''' 1 1 1 mk_RedisPool [] = Inr (True, p, [1])"
    and p: "conn_pool p = [Some c]" "pl_pwd p = ''''" "pool_size p = 2" "pool_max_size p = 150" and c: "ctx c = Some 1"
    using list_hr_InitPool by blast
  from two_threads_run[OF p] obtain s d where
    run: "(rp_step list_hr)\<^sup>*\<^sup>* \<lparr>rp_pool = p, rp_threads = [Outside, Outside], rp_world = [1]\<rparr> s"
    and s: "rp_threads s = [Using c, Using d]" "rp_world s = [2, 1]" by blast
  have two: "replicate 2 Outside = [Outside, Outside]" by (simp add: numeral_2_eq_2)
  note safe = redis_threads_safe[OF list_hr_documented _ i, of 2 s, unfolded two, OF _ run]
  have "mset_set {1, 2} = owned s" and "card (set (rp_world s)) \<le> 150"
    using safe s(2) by (simp_all add: insert_commute)
  moreover have "ctx d \<noteq> Some 1"
    using safe[THEN conjunct2, THEN conjunct1, rule_format, of 0 c 1, THEN conjunct2, THEN conjunct1, rule_format, of 1 d] s(1) c
    by simp
  ultimately show ?thesis using i run s(1) c by blast
qed

section \<open>Nobody waits for ever\<close>

text \<open>Connections in the queue and in use; as long as nobody empties the pool they are conserved.\<close>

fun in_use :: "thread \<Rightarrow> nat" where
  "in_use (Using c) = 1"
| "in_use _ = 0"

definition conns :: "'w rp_state \<Rightarrow> nat" where
  "conns s = length (conn_pool (rp_pool s)) + sum_list (map in_use (rp_threads s))"

definition conns_inv :: "nat \<Rightarrow> nat \<Rightarrow> 'w rp_state \<Rightarrow> bool" where
  "conns_inv base n s \<longleftrightarrow> pool_wf (rp_pool s) \<and> conns s + base = pool_size (rp_pool s) \<and> base < pool_size (rp_pool s)
     \<and> length (rp_threads s) = n"

lemmas users_split = sum_list_split[where f = in_use]

lemma get_pass_counts:
  assumes "pool_wf p" and "get_pass hr p w = Inr (r, p', w')"
  shows "pool_wf p' \<and> pool_size p \<le> pool_size p'
     \<and> length (conn_pool p') + in_use (after_pass r) + pool_size p = length (conn_pool p) + pool_size p'"
proof (cases "conn_pool p")
  case (Cons e q)
  then show ?thesis using assms by (auto simp: get_pass_def pool_wf_def after_pass_def split: option.splits)
next
  case Nil
  then show ?thesis using assms CreateConnection_wf[of hr p w p' w'] CreateConnection_cases[of hr p w p' w']
    by (auto simp: get_pass_def bind_res_eq_Inr after_pass_def split: if_splits)
qed

lemma check_loop_wf: "check_loop hr n p w = Inr (p', w') \<Longrightarrow> pool_wf p \<Longrightarrow> pool_wf p'"
proof (induction hr n p w arbitrary: p' w' rule: check_loop.induct)
  case (2 hr n p w)
  then obtain p1 w1 where c: "check_front hr p w = Inr (p1, w1)" and r: "check_loop hr n p1 w1 = Inr (p', w')"
    by (auto simp: bind_res_eq_Inr)
  have "pool_wf p1" using c 2(3)
    by (auto simp: check_front_def bind_res_eq_Inr pool_wf_def Let_def split: list.splits option.splits if_splits prod.splits)
  with 2(1)[OF r] show ?case by simp
qed simp

lemma conns_inv_work:
  assumes "conns_inv base n s" and "rp_work hr s s'"
  shows "conns_inv base n s'"
  using assms(2)
proof cases
  case (rp_ask i ts p w)
  then show ?thesis using assms(1) users_split[of i ts] by (auto simp: conns_inv_def conns_def)
next
  case (rp_pass i ts p w r p' w')
  then show ?thesis using assms(1) users_split[of i ts] get_pass_counts[OF _ rp_pass(5)]
    by (auto simp: conns_inv_def conns_def)
next
  case (rp_use i ts c w c' w' p)
  then show ?thesis using assms(1) users_split[of i ts] by (auto simp: conns_inv_def conns_def)
next
  case (rp_free i ts c p w)
  then show ?thesis using assms(1) users_split[of i ts]
    by (auto simp: conns_inv_def conns_def FreeRedisConn_def pool_wf_def)
next
  case (rp_check p w p' w' ts)
  then have c: "check_loop hr (length (conn_pool p)) p w = Inr (p', w')" by (simp add: CheckStatus_def)
  show ?thesis using assms(1) check_loop_wf[OF c] check_loop_front[OF c] rp_check(1,2)
    by (simp add: conns_inv_def conns_def)
qed

interpretation rp_users: machine "rp_work hr" "conns_inv base n" for hr base n
  by unfold_locales (rule conns_inv_work)

lemma InitPool_conns_inv:
  assumes "InitPool hr addr port pwd timeout psize pmax mk_RedisPool w0 = Inr (True, p, w)"
  shows "conns_inv psize n \<lparr>rp_pool = p, rp_threads = replicate n Outside, rp_world = w\<rparr>"
proof -
  have z: "sum_list (replicate n (0::nat)) = 0" by (induction n) auto
  have "conn_pool mk_RedisPool = []" by (simp add: mk_RedisPool_def)
  from InitPool_counts[OF assms this] show ?thesis
    by (auto simp: conns_inv_def conns_def pool_wf_def list_all_iff z)
qed

text \<open>A waiting thread is served in its next pass when the queue is not empty.\<close>

lemma pass_serves:
  assumes "pool_wf p" and "conn_pool p \<noteq> []" and "i < length ts" and "ts ! i = Waiting"
  shows "\<exists>c q. rp_work hr \<lparr>rp_pool = p, rp_threads = ts, rp_world = w\<rparr>
     \<lparr>rp_pool = p\<lparr>conn_pool := q\<rparr>, rp_threads = ts[i := Using c], rp_world = w\<rparr>"
proof -
  from assms(1,2) obtain c q where q: "conn_pool p = Some c # q" by (cases "conn_pool p") (auto simp: pool_wf_def)
  then have "get_pass hr p w = Inr (Some (Some c), p\<lparr>conn_pool := q\<rparr>, w)" by (simp add: get_pass_def)
  from rp_pass[OF assms(3,4) this] show ?thesis by (auto simp: after_pass_def)
qed

lemma sum_in_use_pos:
  assumes "0 < sum_list (map in_use ts)"
  shows "\<exists>j c. j < length ts \<and> ts ! j = Using c"
proof -
  have "\<not> (\<forall>t \<in> set ts. in_use t = 0)" using assms by (induction ts) auto
  then obtain t where t: "t \<in> set ts" "in_use t \<noteq> 0" by blast
  then obtain c where "t = Using c" by (cases t rule: in_use.cases) auto
  with t(1) show ?thesis by (metis in_set_conv_nth)
qed



text \<open>
  \<open>ReleaseRedisConn\<close> does not take back what it drops from \<^verbatim>\<open>pool_size_\<close>: once it has emptied a pool whose
  count is past the maximum and no thread has a connection, nobody is ever served again.
\<close>

definition starved :: "'w rp_state \<Rightarrow> bool" where
  "starved s \<longleftrightarrow> conn_pool (rp_pool s) = [] \<and> pool_max_size (rp_pool s) < pool_size (rp_pool s)
     \<and> (\<forall>c. Using c \<notin> set (rp_threads s))"

lemma starved_step:
  assumes "starved s" and "rp_step hr s s'"
  shows "starved s'"
  using assms(2)
proof cases
  case rp_works
  then show ?thesis
  proof cases
    case (rp_pass i ts p w r p' w')
    then show ?thesis using assms(1) set_update_subset_insert[of ts i Waiting]
      by (auto simp: starved_def get_pass_def after_pass_def)
  next
    case (rp_ask i ts p w)
    then show ?thesis using assms(1) set_update_subset_insert[of ts i Waiting] by (auto simp: starved_def)
  qed (use assms(1) in \<open>auto simp: starved_def CheckStatus_def dest: nth_mem\<close>)
next
  case (rp_release p w p' w' ts)
  then show ?thesis using assms(1) by (auto simp: starved_def ReleaseRedisConn_def release_loop.simps)
qed

interpretation rp_starved: machine "rp_step hr" starved for hr
  by unfold_locales (rule starved_step)

lemma starved_for_ever: "(rp_step hr)\<^sup>*\<^sup>* s s' \<Longrightarrow> starved s \<Longrightarrow> Using c \<notin> set (rp_threads s')"
  using rp_starved.inv_run unfolding starved_def by blast

end
