(* ===== verification/RedisService.thy ===== *)
theory RedisService
  imports RedisClient RedisThreads
begin

text \<open>
  The redis client on the threads of RedisThreads (hiredis_test/src/redis_client.cpp, redis_manage.cpp, mian.cpp): every
  operation of the client that a thread runs is a run of the pool's steps of that thread, so that what holds in
  every interleaving of the steps holds of threads that call the client. The last section is the
  program of mian.cpp: set up, then the threads.
\<close>

section \<open>Operations as runs\<close>

abbreviation pst :: "redis_pool \<Rightarrow> thread list \<Rightarrow> 'w \<Rightarrow> 'w rp_state" where
  "pst p ts w \<equiv> \<lparr>rp_pool = p, rp_threads = ts, rp_world = w\<rparr>"

abbreviation conn_uses :: "'w hiredis \<Rightarrow> redis_conn \<times> 'w \<Rightarrow> redis_conn \<times> 'w \<Rightarrow> bool" where
  "conn_uses hr \<equiv> (\<lambda>(c, w) (c', w'). conn_use hr c w c' w')\<^sup>*\<^sup>*"

lemma conn_uses_one: "conn_use hr c w c' w' \<Longrightarrow> conn_uses hr (c, w) (c', w')"
  by (rule r_into_rtranclp) simp

lemma uses_run:
  assumes "conn_uses hr (c, w) (c', w')" and "i < length ts"
  shows "(rp_work hr)\<^sup>*\<^sup>* (pst p (ts[i := Using c]) w) (pst p (ts[i := Using c']) w')"
  using assms(1)
proof (induction "(c', w')" arbitrary: c' w' rule: rtranclp_induct)
  case (step y)
  obtain d v where y: "y = (d, v)" by fastforce
  have "rp_work hr (pst p (ts[i := Using d]) v) (pst p (ts[i := Using c']) w')"
    using rp_use[of i "ts[i := Using d]" d hr v c' w' p] step(2) assms(2) by (simp add: y)
  with step(3)[OF y] show ?case by (rule rtranclp.rtrancl_into_rtrancl)
qed simp

text \<open>The loop of \<open>GetRedisConn\<close> that returns is a sequence of passes.\<close>

lemma get_run:
  fixes hr :: "'w hiredis"
  assumes "GetRedisConn hr p w = Some (Inr (r, p', w'))" and "i < length ts" and "ts ! i = Waiting"
  shows "(rp_work hr)\<^sup>*\<^sup>* (pst p ts w) (pst p' (ts[i := after_pass (Some r)]) w')"
proof -
  let ?P = "\<lambda>hr p w x. \<forall>r p' w'. x = (Inr (r, p', w') :: (redis_conn option \<times> redis_pool \<times> 'w) res) \<longrightarrow>
    (rp_work hr)\<^sup>*\<^sup>* (pst p ts w) (pst p' (ts[i := after_pass (Some r)]) w')"
  have "?P hr p w (Inr (r, p', w'))" using assms(1)
  proof (rule GetRedisConn.raw_induct[where P = ?P, rotated], goal_cases)
    case (1 rec hr p w x)
    have pass: "case get_pass hr p w of
        Inl e \<Rightarrow> x = Inl e
      | Inr (Some r, p', w') \<Rightarrow> x = Inr (r, p', w')
      | Inr (None, p', w') \<Rightarrow> rec hr p' w' = Some x"
      using 1(2) by (auto simp: get_pass_def bind_res_def split: list.splits option.splits sum.splits if_splits)
    show ?case
    proof (intro allI impI)
      fix r p' w' assume x: "x = Inr (r, p', w')"
      then obtain q p1 w1 where g: "get_pass hr p w = Inr (q, p1, w1)" using pass by (cases "get_pass hr p w") auto
      note st = rp_pass[OF assms(2,3) g]
      show "(rp_work hr)\<^sup>*\<^sup>* (pst p ts w) (pst p' (ts[i := after_pass (Some r)]) w')"
      proof (cases q)
        case None
        then have "rec hr p1 w1 = Some x" using pass g by simp
        moreover have "ts[i := Waiting] = ts" using assms(3) by (metis list_update_id)
        ultimately show ?thesis using 1(1) st x None
          by (auto simp: after_pass_def intro: converse_rtranclp_into_rtranclp)
      next
        case (Some y)
        then show ?thesis using pass g st x by auto
      qed
    qed
  qed
  then show ?thesis by blast
qed

lemma with_conn_run:
  assumes "with_conn hr dflt body p w = Some (Inr (r, p', w'))" and i: "i < length ts" "ts ! i = Outside"
    and body: "\<And>c v r c' v'. body c v = Inr (r, c', v') \<Longrightarrow> conn_uses hr (c, v) (c', v')"
  shows "(rp_work hr)\<^sup>*\<^sup>* (pst p ts w) (pst p' ts w')"
proof -
  have idle: "ts[i := Outside] = ts" using i(2) by (metis list_update_id)
  have ask: "rp_work hr (pst p ts w) (pst p (ts[i := Waiting]) w)" by (rule rp_ask[OF i])
  from assms(1) obtain c p1 w1 where g: "GetRedisConn hr p w = Some (Inr (c, p1, w1))"
    by (auto simp: with_conn_def bind_run_def split: option.splits sum.splits)
  have "(rp_work hr)\<^sup>*\<^sup>* (pst p (ts[i := Waiting]) w) (pst p1 (ts[i := after_pass (Some c)]) w1)"
    using get_run[OF g, of i "ts[i := Waiting]"] i by simp
  with ask have got: "(rp_work hr)\<^sup>*\<^sup>* (pst p ts w) (pst p1 (ts[i := after_pass (Some c)]) w1)"
    by (rule converse_rtranclp_into_rtranclp)
  show ?thesis
  proof (cases c)
    case None
    then show ?thesis using assms(1) g got idle by (simp add: with_conn_def after_pass_def)
  next
    case (Some d)
    then obtain d' where b: "body d w1 = Inr (r, d', w')" and p': "p' = FreeRedisConn (Some d') p1"
      using assms(1) g by (auto simp: with_conn_def bind_run_def split: sum.splits)
    have "rp_work hr (pst p1 (ts[i := Using d']) w') (pst p' ts w')"
      using rp_free[of i "ts[i := Using d']" d' hr p1 w'] i idle p' by simp
    with got uses_run[OF body[OF b] i(1), of p1] Some show ?thesis
      by (auto simp: after_pass_def intro: rtranclp.rtrancl_into_rtrancl rtranclp_trans)
  qed
qed

text \<open>The operations of \<open>DBIORedis\<close> and \<open>RedisManage\<close>, with what they leave of pool and world.\<close>

inductive redis_call :: "'w hiredis \<Rightarrow> redis_pool \<Rightarrow> 'w \<Rightarrow> redis_pool \<Rightarrow> 'w \<Rightarrow> bool" for hr where
  call_Set: "db_Set hr k f v p w = Some (Inr (rb, p', w')) \<Longrightarrow> redis_call hr p w p' w'"
| call_Get: "db_Get hr k f p w = Some (Inr (rc, p', w')) \<Longrightarrow> redis_call hr p w p' w'"
| call_HSet: "db_HSet hr k f v p w = Some (Inr (rb, p', w')) \<Longrightarrow> redis_call hr p w p' w'"
| call_HGet: "db_HGet hr k f v p w = Some (Inr (rs, p', w')) \<Longrightarrow> redis_call hr p w p' w'"
| call_HKeys: "db_HKeys hr k vs p w = Some (Inr (rv, p', w')) \<Longrightarrow> redis_call hr p w p' w'"
| call_HGetAll: "db_HGetAll hr k m p w = Some (Inr (rm, p', w')) \<Longrightarrow> redis_call hr p w p' w'"
| call_CheckStatus: "db_CheckStatus hr p w = Inr (p', w') \<Longrightarrow> redis_call hr p w p' w'"

lemma redis_call_run:
  assumes "redis_call hr p w p' w'" and i: "i < length ts" "ts ! i = Outside"
  shows "(rp_work hr)\<^sup>*\<^sup>* (pst p ts w) (pst p' ts w')"
  using assms(1)
proof cases
  case (call_Set k f v rb)
  show ?thesis by (rule with_conn_run[OF call_Set[unfolded db_Set_def] i])
      (auto simp: bind_res_eq_Inr dest!: use_response[THEN conn_uses_one])
next
  case (call_Get k f rc)
  show ?thesis by (rule with_conn_run[OF call_Get[unfolded db_Get_def] i])
      (auto simp: bind_res_eq_Inr dest!: use_response[THEN conn_uses_one])
next
  case (call_HSet k f v rb)
  show ?thesis by (rule with_conn_run[OF call_HSet[unfolded db_HSet_def] i])
      (auto simp: bind_res_eq_Inr dest!: use_response[THEN conn_uses_one])
next
  case (call_HGet k f v rs)
  show ?thesis by (rule with_conn_run[OF call_HGet[unfolded db_HGet_def] i]) (auto dest!: use_response[THEN conn_uses_one])
next
  case (call_HKeys k vs rv)
  show ?thesis by (rule with_conn_run[OF call_HKeys[unfolded db_HKeys_def] i]) (auto dest!: use_vector[THEN conn_uses_one])
next
  case (call_HGetAll k m rm)
  show ?thesis by (rule with_conn_run[OF call_HGetAll[unfolded db_HGetAll_def] i]) (auto dest!: use_map[THEN conn_uses_one])
next
  case call_CheckStatus
  then show ?thesis using rp_check[of hr p w p' w' ts] by (auto simp: db_CheckStatus_def)
qed

text \<open>The thread function of mian.cpp, for any number of passes of its loop.\<close>

lemma redis_worker_run:
  assumes "redis_worker hr n p w = Some (Inr (p', w'))" and i: "i < length ts" "ts ! i = Outside"
  shows "(rp_work hr)\<^sup>*\<^sup>* (pst p ts w) (pst p' ts w')"
  using assms(1)
proof (induction n arbitrary: p w)
  case (Suc n)
  then obtain r p1 w1 where g: "rm_HGet hr ''user:base'' redis_user '''' p w = Some (Inr (r, p1, w1))"
    and rest: "redis_worker hr n p1 w1 = Some (Inr (p', w'))"
    by (auto simp: bind_run_def split: option.splits sum.splits)
  have "(rp_work hr)\<^sup>*\<^sup>* (pst p ts w) (pst p1 ts w1)"
    by (rule redis_call_run[OF call_HGet[OF g[unfolded rm_HGet_def]] i])
  from this Suc.IH[OF rest] show ?case by (rule rtranclp_trans)
qed simp


section \<open>The program\<close>

text \<open>\<^verbatim>\<open>main\<close> of mian.cpp up to its threads: thread 0 is the one that set up the pool, the others are the 150 it started.\<close>

definition redis_main :: "'w hiredis \<Rightarrow> 'w \<Rightarrow> 'w rp_state run" where
  "redis_main hr w =
     bind_run (redis_main_setup hr w) (\<lambda>(_, p, w1).
       Some (Inr \<lparr>rp_pool = p, rp_threads = replicate (150 + 1) Outside, rp_world = w1\<rparr>))"

lemma rp_works_run: "(rp_work hr)\<^sup>*\<^sup>* s s' \<Longrightarrow> (rp_step hr)\<^sup>*\<^sup>* s s'"
  by (erule rtranclp_mono[THEN predicate2D, rotated]) (auto intro: rp_works)

lemma redis_main_run:
  assumes "redis_main hr w0 = Some (Inr s0)"
  shows "\<exists>ok p w. InitPool hr ''192.168.0.172'' 6379 '''' 1 50 100 mk_RedisPool w0 = Inr (ok, p, w)
     \<and> (rp_step hr)\<^sup>*\<^sup>* (pst p (replicate (150 + 1) Outside) w) s0"
proof -
  let ?ts = "replicate (150 + 1) Outside"
  from assms obtain ok p w p1 w1 m p2 w2 where
    i: "InitPool hr ''192.168.0.172'' 6379 '''' 1 50 100 mk_RedisPool w0 = Inr (ok, p, w)"
    and c: "CheckStatus hr p w = Inr (p1, w1)"
    and g: "db_HGetAll hr ''user:base'' [] p1 w1 = Some (Inr (m, p2, w2))" and s0: "s0 = pst p2 ?ts w2"
    by (auto simp: redis_main_def redis_main_setup_def rm_InitPool_def db_InitPool_def rm_CheckStatus_def db_CheckStatus_def
        rm_HGetAll_def bind_run_def split: option.splits sum.splits)
  have "rp_work hr (pst p ?ts w) (pst p1 ?ts w1)" by (rule rp_check[OF c])
  moreover have "(rp_work hr)\<^sup>*\<^sup>* (pst p1 ?ts w1) s0"
    unfolding s0 by (rule redis_call_run[OF call_HGetAll[OF g], of 0]) (simp_all only: length_replicate nth_replicate)
  ultimately have "(rp_work hr)\<^sup>*\<^sup>* (pst p ?ts w) s0" by (rule converse_rtranclp_into_rtranclp)
  with i show ?thesis using rp_works_run by blast
qed


section \<open>Runs\<close>

lemma list_hr_HGet:
  assumes "conn_pool p = Some c # q" and "ctx c = Some x" and "status c"
  shows "db_HGet list_hr k f v p w = Some (Inr ((True, ''OK''), p\<lparr>conn_pool := q @ [Some (c\<lparr>status := True\<rparr>)]\<rparr>, w))"
  using assms by (simp add: db_HGet_def with_conn_def GetRedisConn_front ExecuteResonse_def exec_command_def list_hr_def FreeRedisConn_def)


text \<open>The setup of the program on the server that accepts everything.\<close>

definition usable :: "redis_pool \<Rightarrow> bool" where
  "usable p \<longleftrightarrow> pl_pwd p = '''' \<and> conn_pool p \<noteq> []
     \<and> list_all (\<lambda>e. \<exists>c x. e = Some c \<and> ctx c = Some x \<and> redis_pwd c = '''' \<and> status c) (conn_pool p)"

lemma list_hr_creates:
  assumes "pl_pwd p = ''''" and "n = 0 \<longrightarrow> usable p"
    and "list_all (\<lambda>e. \<exists>c x. e = Some c \<and> ctx c = Some x \<and> redis_pwd c = '''' \<and> status c) (conn_pool p)"
  shows "\<exists>p' w'. create_connections list_hr n p w = Inr (p', w') \<and> usable p'"
  using assms
proof (induction n arbitrary: p w)
  case 0
  then show ?case by simp
next
  case (Suc n)
  let ?c = "list_conn p (Suc (sum_list w))"
  let ?p = "p\<lparr>conn_pool := conn_pool p @ [Some ?c], pool_size := pool_size p + 1\<rparr>"
  have "redis_pwd ?c = ''''" "ctx ?c = Some (Suc (sum_list w))" "status ?c"
    using Suc.prems(1) by (simp_all add: list_conn_def conn_Init_def)
  then have "usable ?p" using Suc.prems by (auto simp: usable_def)
  with Suc.IH[of ?p "Suc (sum_list w) # w"] list_hr_create[OF Suc.prems(1), of w] show ?case
    by (auto simp: usable_def)
qed

lemma list_hr_check_front:
  assumes "usable p"
  shows "\<exists>p' w'. check_front list_hr p w = Inr (p', w') \<and> usable p'"
proof -
  obtain c x q where c: "conn_pool p = Some c # q" "ctx c = Some x" "redis_pwd c = ''''" using assms by (cases "conn_pool p") (auto simp: usable_def)
  then show ?thesis using assms
    by (auto simp: check_front_def Ping_def list_hr_def RedisReConnect_def ConnectWithTimeout_def conn_auth_def Let_def
        strcasecmp_eq_def c_str_def to_lower_def usable_def)
qed

lemma list_hr_check: "usable p \<Longrightarrow> \<exists>p' w'. check_loop list_hr n p w = Inr (p', w') \<and> usable p'"
proof (induction n arbitrary: p w)
  case (Suc n)
  then obtain p1 w1 where "check_front list_hr p w = Inr (p1, w1)" "usable p1" using list_hr_check_front by blast
  with Suc.IH[of p1 w1] show ?case by simp
qed auto

lemma list_hr_main: "\<exists>s0. redis_main list_hr [] = Some (Inr s0)"
proof -
  let ?q = "mk_RedisPool\<lparr>pl_ip := ''192.168.0.172'', pl_port := ucast (6379 :: u64), pl_pwd := '''', pl_time_out := of_int 1,
    pool_size := 50, pool_max_size := pool_max_size mk_RedisPool\<rparr>"
  have q: "pl_pwd ?q = ''''" "conn_pool ?q = []" by (simp_all add: mk_RedisPool_def)
  obtain p w where c: "create_connections list_hr 50 ?q [] = Inr (p, w)" "usable p"
    using list_hr_creates[of ?q 50 "[]"] q by auto
  have i: "InitPool list_hr ''192.168.0.172'' 6379 '''' 1 50 100 mk_RedisPool [] = Inr (conn_pool p \<noteq> [], p, w)"
    using c(1) by (simp only: InitPool_def Let_def) simp
  obtain p1 w1 where k: "CheckStatus list_hr p w = Inr (p1, w1)" "usable p1"
    using list_hr_check[OF c(2)] unfolding CheckStatus_def by blast
  obtain d x r where d: "conn_pool p1 = Some d # r" "ctx d = Some x" "status d"
    using k(2) by (cases "conn_pool p1") (auto simp: usable_def)
  have "\<exists>m p2 w2. db_HGetAll list_hr ''user:base'' [] p1 w1 = Some (Inr (m, p2, w2))"
    using d by (simp add: db_HGetAll_def with_conn_def GetRedisConn_front ExecuteMap_def exec_command_def list_hr_def) blast
  then obtain m p2 w2 where "db_HGetAll list_hr ''user:base'' [] p1 w1 = Some (Inr (m, p2, w2))" by blast
  then show ?thesis using i k(1)
    by (cases m) (simp add: redis_main_def redis_main_setup_def rm_InitPool_def db_InitPool_def rm_CheckStatus_def
        db_CheckStatus_def rm_HGetAll_def)
qed


end
