(* ===== verification/WorkerPool.thy ===== *)
theory WorkerPool
  imports Machines "HOL-Library.Multiset"
begin

text \<open>
  The thread pool of mong-c-test/inc/ThreadPool.h as a step relation: the state is what the mutex
  protects (the task queue and \<^verbatim>\<open>stop\<close>) plus where each worker stands; a step is one critical section or
  one task. \<open>submitted\<close>, \<open>started\<close> and \<open>finished\<close> record the history. The lemmas show that tasks are
  started in the order of submission, each exactly once, that the destructor always comes to an
  end, and that every submitted task has then been run.
\<close>

section \<open>State and steps\<close>

datatype 't worker = Waiting | Running 't | Exited_worker

record 't thread_pool =
  workers :: "'t worker list"
  tasks :: "'t list"
  stop :: bool
  submitted :: "'t list"
  started :: "'t list"
  finished :: "'t list"

definition mk_ThreadPool :: "nat \<Rightarrow> 't thread_pool" where
  "mk_ThreadPool threads = \<lparr>workers = replicate threads Waiting, tasks = [], stop = False,
     submitted = [], started = [], finished = []\<rparr>"

definition enqueue :: "'t \<Rightarrow> 't thread_pool \<Rightarrow> 't thread_pool res" where
  "enqueue t p =
     (if stop p then Inl (Thrown ''enqueue on stopped ThreadPool'')
      else Inr (p\<lparr>tasks := tasks p @ [t], submitted := submitted p @ [t]\<rparr>))"

text \<open>
  The critical section of worker \<open>i\<close>: \<open>None\<close> while the wait predicate is false; otherwise it leaves its loop or
  takes the front task.
\<close>

definition worker_section :: "nat \<Rightarrow> 't thread_pool \<Rightarrow> 't thread_pool option" where
  "worker_section i p =
     (if \<not> (stop p \<or> tasks p \<noteq> []) then None
      else if stop p \<and> tasks p = [] then Some (p\<lparr>workers := (workers p)[i := Exited_worker]\<rparr>)
      else Some (p\<lparr>workers := (workers p)[i := Running (hd (tasks p))], tasks := tl (tasks p),
                   started := started p @ [hd (tasks p)]\<rparr>))"

definition worker_task :: "nat \<Rightarrow> 't \<Rightarrow> 't thread_pool \<Rightarrow> 't thread_pool" where
  "worker_task i t p = p\<lparr>workers := (workers p)[i := Waiting], finished := finished p @ [t]\<rparr>"

definition destroy_begin :: "'t thread_pool \<Rightarrow> 't thread_pool" where
  "destroy_begin p = p\<lparr>stop := True\<rparr>"

text \<open>All workers joined: the destructor returns.\<close>

definition all_joined :: "'t thread_pool \<Rightarrow> bool" where
  "all_joined p \<longleftrightarrow> stop p \<and> list_all (\<lambda>x. x = Exited_worker) (workers p)"

inductive tp_step :: "'t thread_pool \<Rightarrow> 't thread_pool \<Rightarrow> bool" where
  do_enqueue: "enqueue t p = Inr p' \<Longrightarrow> tp_step p p'"
| do_section: "i < length (workers p) \<Longrightarrow> workers p ! i = Waiting \<Longrightarrow> worker_section i p = Some p' \<Longrightarrow> tp_step p p'"
| do_task: "i < length (workers p) \<Longrightarrow> workers p ! i = Running t \<Longrightarrow> tp_step p (worker_task i t p)"
| do_destroy: "\<not> stop p \<Longrightarrow> tp_step p (destroy_begin p)"

inductive_cases tp_stepE: "tp_step p p'"

abbreviation tp_reach :: "nat \<Rightarrow> 't thread_pool \<Rightarrow> bool" where
  "tp_reach n \<equiv> tp_step\<^sup>*\<^sup>* (mk_ThreadPool n)"

section \<open>Invariant\<close>

definition running_tasks :: "'t worker list \<Rightarrow> 't multiset" where
  "running_tasks ws = (\<Sum>x \<in># mset ws. case x of Running t \<Rightarrow> {#t#} | _ \<Rightarrow> {#})"

definition tp_inv :: "nat \<Rightarrow> 't thread_pool \<Rightarrow> bool" where
  "tp_inv n p \<longleftrightarrow> length (workers p) = n
     \<and> started p @ tasks p = submitted p
     \<and> mset (started p) = mset (finished p) + running_tasks (workers p)
     \<and> (Exited_worker \<in> set (workers p) \<longrightarrow> stop p \<and> tasks p = [])"

lemma running_tasks_simps [simp]:
  "running_tasks [] = {#}"
  "running_tasks (x # ws) = (case x of Running t \<Rightarrow> {#t#} | _ \<Rightarrow> {#}) + running_tasks ws"
  by (simp_all add: running_tasks_def)

lemma running_tasks_update:
  "i < length ws \<Longrightarrow> running_tasks (ws[i := y]) + (case ws ! i of Running t \<Rightarrow> {#t#} | _ \<Rightarrow> {#})
     = running_tasks ws + (case y of Running t \<Rightarrow> {#t#} | _ \<Rightarrow> {#})"
  by (induction ws arbitrary: i) (auto split: nat.splits worker.splits)

lemma tp_step_inv: "tp_step p p' \<Longrightarrow> tp_inv n p \<Longrightarrow> tp_inv n p'"
proof (induction rule: tp_step.induct)
  case (do_enqueue t p p')
  then show ?case by (auto simp: enqueue_def tp_inv_def split: if_splits)
next
  case (do_section i p p')
  show ?case
  proof (cases "stop p \<and> tasks p = []")
    case True
    with do_section running_tasks_update[of i "workers p" Exited_worker] show ?thesis
      by (auto simp: worker_section_def tp_inv_def dest!: set_update_subset_insert[THEN subsetD])
  next
    case False
    then obtain t ts where t: "tasks p = t # ts" using do_section(3)
      by (cases "tasks p") (auto simp: worker_section_def split: if_splits)
    then have p': "p' = p\<lparr>workers := (workers p)[i := Running t], tasks := ts, started := started p @ [t]\<rparr>"
      using do_section(3) by (simp add: worker_section_def)
    have "Exited_worker \<notin> set (workers p)" using do_section(4) t by (auto simp: tp_inv_def)
    then have "Exited_worker \<notin> set ((workers p)[i := Running t])"
      using set_update_subset_insert[of "workers p" i "Running t"] by auto
    with do_section t p' running_tasks_update[of i "workers p" "Running t"] show ?thesis
      by (auto simp: tp_inv_def)
  qed
next
  case (do_task i p t)
  have "Exited_worker \<in> set ((workers p)[i := Waiting]) \<Longrightarrow> Exited_worker \<in> set (workers p)"
    using set_update_subset_insert[of "workers p" i Waiting] by auto
  with do_task running_tasks_update[of i "workers p" Waiting] show ?case
    by (auto simp: worker_task_def tp_inv_def)
next
  case (do_destroy p)
  then show ?case by (simp add: destroy_begin_def tp_inv_def)
qed

interpretation tp: machine tp_step "tp_inv n" for n
  by unfold_locales (rule tp_step_inv)

lemma tp_reach_inv: "tp_reach n p \<Longrightarrow> tp_inv n p"
proof (erule tp.inv_run)
  have "running_tasks (replicate n Waiting :: 'a worker list) = {#}" by (induction n) auto
  then show "tp_inv n (mk_ThreadPool n :: 'a thread_pool)" by (simp add: tp_inv_def mk_ThreadPool_def)
qed

text \<open>
  C10. In every state the pool can reach, whatever the interleaving: the tasks started so far followed by the
  tasks still queued are exactly the submitted ones in order, every started task is either finished or
  running on one worker (none twice), and no worker has left while tasks are queued.
\<close>

theorem tasks_fifo_once:
  assumes "tp_reach n p"
  shows "started p @ tasks p = submitted p
     \<and> mset (started p) = mset (finished p) + running_tasks (workers p)
     \<and> (Exited_worker \<in> set (workers p) \<longrightarrow> stop p \<and> tasks p = [])"
  using tp_reach_inv[OF assms] by (simp add: tp_inv_def)

theorem tasks_fifo_once_witness:
  "\<exists>p :: nat thread_pool. tp_reach 1 p \<and> tasks p = [5] \<and> started p @ tasks p = [5]"
proof -
  let ?p = "(mk_ThreadPool 1 :: nat thread_pool)\<lparr>tasks := [5], submitted := [5]\<rparr>"
  have "enqueue 5 (mk_ThreadPool 1) = Inr ?p" by (simp add: enqueue_def mk_ThreadPool_def)
  then have r: "tp_reach 1 ?p" by (blast intro: r_into_rtranclp tp_step.intros)
  from tasks_fifo_once[OF r] r show ?thesis by (intro exI[of _ ?p]) (simp add: mk_ThreadPool_def)
qed

section \<open>Shutting down\<close>

fun weight :: "'t worker \<Rightarrow> nat" where
  "weight (Running t) = 2"
| "weight Waiting = 1"
| "weight Exited_worker = 0"

definition shutdown_measure :: "'t thread_pool \<Rightarrow> nat" where
  "shutdown_measure p = 3 * length (tasks p) + sum_list (map weight (workers p))"

lemma sum_update:
  "i < length ws \<Longrightarrow> sum_list (map f (ws[i := y])) + f (ws ! i) = sum_list (map f ws) + (f y :: nat)"
  by (induction ws arbitrary: i) (auto split: nat.splits)

lemma step_after_stop:
  assumes "tp_step p p'" and "stop p"
  shows "stop p' \<and> shutdown_measure p' < shutdown_measure p"
  using assms
proof (induction rule: tp_step.induct)
  case (do_section i p p')
  show ?case
  proof (cases "tasks p")
    case Nil
    with do_section sum_update[of i "workers p" weight Exited_worker] show ?thesis
      by (auto simp: worker_section_def shutdown_measure_def)
  next
    case (Cons t ts)
    with do_section sum_update[of i "workers p" weight "Running t"] show ?thesis
      by (auto simp: worker_section_def shutdown_measure_def)
  qed
next
  case (do_task i p t)
  from do_task sum_update[of i "workers p" weight Waiting] show ?case
    by (auto simp: worker_task_def shutdown_measure_def)
qed (auto simp: enqueue_def)

lemma stopped_not_stuck:
  assumes "stop p" and "\<not> all_joined p"
  shows "\<exists>p'. tp_step p p'"
proof -
  obtain i where i: "i < length (workers p)" "workers p ! i \<noteq> Exited_worker"
    using assms by (auto simp: all_joined_def list_all_length)
  then show ?thesis
  proof (cases "workers p ! i")
    case Waiting
    have "worker_section i p \<noteq> None" using assms(1) by (simp add: worker_section_def)
    then show ?thesis using do_section[OF i(1) Waiting] by auto
  next
    case (Running t)
    then show ?thesis using do_task[OF i(1)] by blast
  qed simp
qed



text \<open>
  C12. When the destructor of a pool with at least one worker has joined all of them, every task that was ever
  submitted has been run to its end exactly once, and nothing is left in the queue.
\<close>

theorem shutdown_runs_all:
  assumes "tp_reach n p" and "0 < n" and "all_joined p"
  shows "mset (finished p) = mset (submitted p) \<and> tasks p = []"
proof -
  have inv: "tp_inv n p" using tp_reach_inv[OF assms(1)] .
  have all: "list_all (\<lambda>x. x = Exited_worker) (workers p)" using assms(3) by (simp add: all_joined_def)
  then have "workers p \<noteq> [] \<Longrightarrow> Exited_worker \<in> set (workers p)" by (cases "workers p") auto
  with inv assms(2) have t: "tasks p = []" by (auto simp: tp_inv_def)
  have "running_tasks ws = {#}" if "list_all (\<lambda>x. x = Exited_worker) ws" for ws :: "'a worker list"
    using that by (induction ws) auto
  with all inv t show ?thesis by (auto simp: tp_inv_def)
qed

theorem shutdown_runs_all_witness:
  "\<exists>p :: nat thread_pool. tp_reach 1 p \<and> all_joined p \<and> mset (finished p) = mset (submitted p)"
proof -
  let ?p0 = "mk_ThreadPool 1 :: nat thread_pool"
  let ?p1 = "destroy_begin ?p0" and ?p2 = "(destroy_begin ?p0)\<lparr>workers := [Exited_worker]\<rparr>"
  have "tp_step ?p0 ?p1" by (rule do_destroy) (simp add: mk_ThreadPool_def)
  moreover have "tp_step ?p1 ?p2"
    by (rule do_section[of 0]) (simp_all add: mk_ThreadPool_def destroy_begin_def worker_section_def)
  ultimately have r: "tp_reach 1 ?p2" using rtranclp.rtrancl_into_rtrancl[OF r_into_rtranclp[of tp_step]] by blast
  have j: "all_joined ?p2" by (simp add: all_joined_def destroy_begin_def)
  from shutdown_runs_all[OF r _ j] r j show ?thesis by (intro exI[of _ ?p2]) simp
qed

text \<open>A pool built with zero threads never runs anything, and its destructor drops the queue.\<close>

lemma zero_workers_drop_tasks:
  "all_joined (destroy_begin ((mk_ThreadPool 0 :: nat thread_pool)\<lparr>tasks := [1], submitted := [1]\<rparr>))"
  by (simp add: all_joined_def destroy_begin_def mk_ThreadPool_def)

end
