(* ===== verification/LoadThreads.thy ===== *)
theory LoadThreads
  imports WorkerPool
begin

text \<open>
  The threads of the two MongoDB load generators (mong-c-test/src/main.cpp and mongo-cxx-test/src/main.cpp): \<^verbatim>\<open>main\<close>
  starts a number of detached threads, and each of them inserts a number of records, one after the other, through a
  client that it borrows from a shared pool for each insertion. A step is one call into the driver, so
  that all interleavings of the borrowing are covered. What one thread does next is the argument \<open>turn\<close>; the two
  locales are what the drivers that satisfy \<open>good\<close> promise about it, first the accounting of clients, then the absence
  of faults.
\<close>

section \<open>Threads\<close>

text \<open>Where a thread stands: before insertion \<open>i\<close>, with a client for it, or with a client to give back after it.\<close>

datatype phase = Insert_at nat | Holding nat nat | Releasing nat nat

record 'w load =
  ld_world :: 'w
  ld_threads :: "phase list"
  ld_pending :: nat
  ld_fault :: "fault option"

text \<open>
  \<open>turn ph w\<close>: the thread is done (\<open>None\<close>), faults, or goes on. \<open>ld_pending\<close> is what is left of the loop that starts the threads.
  A fault, or an exception that nobody catches, ends the process.
\<close>

inductive load_step :: "(phase \<Rightarrow> 'w \<Rightarrow> (phase \<times> 'w) res option) \<Rightarrow> 'w load \<Rightarrow> 'w load \<Rightarrow> bool" for turn where
  do_spawn: "ld_fault s = None \<Longrightarrow> 0 < ld_pending s
     \<Longrightarrow> load_step turn s (s\<lparr>ld_threads := ld_threads s @ [Insert_at 0], ld_pending := ld_pending s - 1\<rparr>)"
| do_turn: "ld_fault s = None \<Longrightarrow> k < length (ld_threads s) \<Longrightarrow> turn (ld_threads s ! k) (ld_world s) = Some (Inr (ph, w))
     \<Longrightarrow> load_step turn s (s\<lparr>ld_threads := (ld_threads s)[k := ph], ld_world := w\<rparr>)"
| do_fault: "ld_fault s = None \<Longrightarrow> k < length (ld_threads s) \<Longrightarrow> turn (ld_threads s ! k) (ld_world s) = Some (Inl e)
     \<Longrightarrow> load_step turn s (s\<lparr>ld_fault := Some e\<rparr>)"

inductive_cases load_stepE: "load_step turn s s'"

section \<open>Accounting\<close>

fun holding :: "phase \<Rightarrow> bool" where
  "holding (Insert_at i) = False"
| "holding _ = True"

definition held :: "phase list \<Rightarrow> nat" where
  "held ts = (\<Sum>ph \<leftarrow> ts. of_bool (holding ph))"

text \<open>The calls a thread has still to make at most, and the range of its loop variable.\<close>

fun calls_left :: "nat \<Rightarrow> phase \<Rightarrow> nat" where
  "calls_left n (Insert_at i) = 3 * (n - i)"
| "calls_left n (Holding i c) = 3 * (n - Suc i) + 2"
| "calls_left n (Releasing i c) = 3 * (n - Suc i) + 1"

fun within :: "nat \<Rightarrow> phase \<Rightarrow> bool" where
  "within n (Insert_at i) = (i \<le> n)"
| "within n (Holding i c) = (i < n)"
| "within n (Releasing i c) = (i < n)"

definition load_left :: "nat \<Rightarrow> 'w load \<Rightarrow> nat" where
  "load_left n s = Suc (3 * n) * ld_pending s + (\<Sum>ph \<leftarrow> ld_threads s. calls_left n ph) + of_bool (ld_fault s = None)"

lemma held_simps [simp]: "held [] = 0" "held (ts @ us) = held ts + held us" "held [ph] = of_bool (holding ph)"
  by (simp_all add: held_def)

lemma held_update: "k < length ts \<Longrightarrow> held (ts[k := ph]) + of_bool (holding (ts ! k)) = held ts + of_bool (holding ph)"
  unfolding held_def by (rule sum_update)

lemma held_le: "held ts \<le> length ts"
  by (induction ts) (auto simp: held_def of_bool_def)

text \<open>As many clients are out as threads hold one; \<open>base\<close> is the number at the start, \<open>cnt\<close> the number of threads in the end.\<close>

definition balanced :: "('w \<Rightarrow> int) \<Rightarrow> nat \<Rightarrow> int \<Rightarrow> nat \<Rightarrow> 'w load \<Rightarrow> bool" where
  "balanced out n base cnt s \<longleftrightarrow> out (ld_world s) = base + int (held (ld_threads s))
     \<and> list_all (within n) (ld_threads s) \<and> length (ld_threads s) + ld_pending s = cnt"

locale lent_threads =
  fixes good :: "'d \<Rightarrow> bool"
    and turn :: "'d \<Rightarrow> phase \<Rightarrow> 'w \<Rightarrow> (phase \<times> 'w) res option"
    and out :: "'w \<Rightarrow> int"
    and n :: nat
  assumes turn_done: "good d \<Longrightarrow> within n ph \<Longrightarrow> turn d ph w = None \<longleftrightarrow> ph = Insert_at n"
    and turn_within: "good d \<Longrightarrow> turn d ph w = Some (Inr (ph', w')) \<Longrightarrow> within n ph \<Longrightarrow> within n ph'"
    and turn_left: "good d \<Longrightarrow> turn d ph w = Some (Inr (ph', w')) \<Longrightarrow> calls_left n ph' < calls_left n ph"
    and turn_out: "good d \<Longrightarrow> turn d ph w = Some (Inr (ph', w')) \<Longrightarrow> out w' + of_bool (holding ph) = out w + of_bool (holding ph')"
begin

lemma balanced_step:
  assumes good: "good d"
  shows "load_step (turn d) s s' \<Longrightarrow> balanced out n base cnt s \<Longrightarrow> balanced out n base cnt s'"
proof (induction rule: load_step.induct)
  case (do_spawn s)
  then show ?case by (simp add: balanced_def)
next
  case (do_turn s k ph w)
  have "within n (ld_threads s ! k)" using do_turn by (simp add: balanced_def list_all_length)
  then have "within n ph" using turn_within[OF good] do_turn(3) by blast
  then have "list_all (within n) ((ld_threads s)[k := ph])" using do_turn
    by (auto simp: balanced_def list_all_length nth_list_update)
  moreover have "out w = base + int (held ((ld_threads s)[k := ph]))"
    using turn_out[OF good do_turn(3)] held_update[OF do_turn(2), of ph] do_turn(4) by (auto simp: balanced_def of_bool_def split: if_splits)
  ultimately show ?case using do_turn(4) by (simp add: balanced_def)
next
  case (do_fault s k e)
  then show ?case by (simp add: balanced_def)
qed

lemma step_left:
  assumes good: "good d"
  shows "load_step (turn d) s s' \<Longrightarrow> load_left n s' < load_left n s"
proof (induction rule: load_step.induct)
  case (do_spawn s)
  then obtain m where "ld_pending s = Suc m" by (cases "ld_pending s") auto
  with do_spawn show ?case by (simp add: load_left_def)
next
  case (do_turn s k ph w)
  then show ?case using sum_update[OF do_turn(2), of "calls_left n" ph] turn_left[OF good do_turn(3)]
    by (simp add: load_left_def)
next
  case (do_fault s k e)
  then show ?case by (simp add: load_left_def)
qed

text \<open>When no step is left and nothing faulted, every thread has been started and has run to its end.\<close>

lemma stuck_done:
  assumes good: "good d" and "balanced out n base cnt s" and "ld_fault s = None" and "\<not> (\<exists>s'. load_step (turn d) s s')"
  shows "ld_threads s = replicate cnt (Insert_at n) \<and> out (ld_world s) = base"
proof -
  have p: "ld_pending s = 0" using assms(3,4) do_spawn[of s "turn d"] by auto
  have "ld_threads s ! k = Insert_at n" if k: "k < length (ld_threads s)" for k
  proof -
    have "turn d (ld_threads s ! k) (ld_world s) = None"
    proof (rule ccontr)
      assume "turn d (ld_threads s ! k) (ld_world s) \<noteq> None"
      then obtain r where "turn d (ld_threads s ! k) (ld_world s) = Some r" by blast
      with assms(3,4) k show False
        by (cases r) (use do_fault[of s k "turn d"] do_turn[of s k "turn d"] in fastforce)+
    qed
    then show ?thesis using turn_done[OF good] assms(2) k by (simp add: balanced_def list_all_length)
  qed
  with p assms(2) have t: "ld_threads s = replicate cnt (Insert_at n)"
    by (simp add: balanced_def list_eq_iff_nth_eq)
  have "held (replicate m (Insert_at n)) = 0" for m by (induction m) (simp_all add: held_def)
  with t assms(2) show ?thesis by (simp add: balanced_def)
qed

end

section \<open>Threads beside a thread pool\<close>

text \<open>
  mong-c-test also has one task in a thread pool, with the same loop as a thread. The worker that takes the task runs that
  loop as one more thread, number \<open>pl_task\<close>; when the loop is done the task is. The pool is never
  destroyed, because \<^verbatim>\<open>main\<close> does not leave its last loop.
\<close>

record 'w pooled_load =
  pl_load :: "'w load"
  pl_pool :: "unit thread_pool"
  pl_task :: "nat option"

inductive pooled_step :: "(phase \<Rightarrow> 'w \<Rightarrow> (phase \<times> 'w) res option) \<Rightarrow> 'w pooled_load \<Rightarrow> 'w pooled_load \<Rightarrow> bool" for turn where
  do_load: "load_step turn (pl_load s) l \<Longrightarrow> pooled_step turn s (s\<lparr>pl_load := l\<rparr>)"
| do_take: "ld_fault (pl_load s) = None \<Longrightarrow> i < length (workers (pl_pool s)) \<Longrightarrow> workers (pl_pool s) ! i = Waiting
     \<Longrightarrow> worker_section i (pl_pool s) = Some p
     \<Longrightarrow> pooled_step turn s (s\<lparr>pl_pool := p, pl_task := Some (length (ld_threads (pl_load s))),
           pl_load := (pl_load s)\<lparr>ld_threads := ld_threads (pl_load s) @ [Insert_at 0]\<rparr>\<rparr>)"
| do_finish: "ld_fault (pl_load s) = None \<Longrightarrow> i < length (workers (pl_pool s)) \<Longrightarrow> workers (pl_pool s) ! i = Running ()
     \<Longrightarrow> pl_task s = Some k \<Longrightarrow> turn (ld_threads (pl_load s) ! k) (ld_world (pl_load s)) = None
     \<Longrightarrow> pooled_step turn s (s\<lparr>pl_pool := worker_task i () (pl_pool s)\<rparr>)"

text \<open>The threads that there are in the end, the task included once it has been taken.\<close>

definition loaders :: "nat \<Rightarrow> 'w pooled_load \<Rightarrow> nat" where
  "loaders cnt s = cnt + of_bool (pl_task s \<noteq> None)"

definition pooled_inv :: "('w \<Rightarrow> int) \<Rightarrow> nat \<Rightarrow> int \<Rightarrow> nat \<Rightarrow> nat \<Rightarrow> 'w pooled_load \<Rightarrow> bool" where
  "pooled_inv out n base ws cnt s \<longleftrightarrow> ld_fault (pl_load s) = None \<and> balanced out n base (loaders cnt s) (pl_load s)
     \<and> tp_inv ws (pl_pool s) \<and> \<not> stop (pl_pool s) \<and> submitted (pl_pool s) = [()]
     \<and> (case pl_task s of None \<Rightarrow> started (pl_pool s) = []
        | Some k \<Rightarrow> started (pl_pool s) = [()] \<and> k < length (ld_threads (pl_load s)))"

definition pooled_left :: "nat \<Rightarrow> 'w pooled_load \<Rightarrow> nat" where
  "pooled_left n s = load_left n (pl_load s) + (3 * n + 2) * length (tasks (pl_pool s))
     + size (running_tasks (workers (pl_pool s)))"

lemma running_worker: "running_tasks ws \<noteq> {#} \<Longrightarrow> \<exists>i t. i < length ws \<and> ws ! i = Running t"
proof -
  assume "running_tasks ws \<noteq> {#}"
  then have "\<exists>t. Running t \<in> set ws" by (induction ws) (auto split: worker.splits)
  then show ?thesis by (auto simp: in_set_conv_nth)
qed

lemma load_step_threads: "load_step turn s s' \<Longrightarrow> length (ld_threads s) \<le> length (ld_threads s')"
  by (induction rule: load_step.induct) auto

lemma section_takes:
  assumes "\<not> stop p" and "worker_section i p = Some p'"
  shows "\<exists>t ts. tasks p = t # ts \<and> p' = p\<lparr>workers := (workers p)[i := Running t], tasks := ts, started := started p @ [t]\<rparr>"
  using assms by (cases "tasks p") (auto simp: worker_section_def)

text \<open>A driver that neither faults nor throws.\<close>

locale steady_threads = lent_threads +
  assumes turn_steady: "good d \<Longrightarrow> turn d ph w \<noteq> Some (Inl e)"
begin

lemma fault_free_step:
  assumes "good d"
  shows "load_step (turn d) s s' \<Longrightarrow> ld_fault s = None \<Longrightarrow> ld_fault s' = None"
  by (induction rule: load_step.induct) (auto simp: turn_steady[OF assms])

lemma never_stuck_early:
  assumes "good d" and "balanced out n base cnt s" and "ld_fault s = None"
  shows "(\<exists>s'. load_step (turn d) s s') \<or> ld_threads s = replicate cnt (Insert_at n) \<and> out (ld_world s) = base"
  using stuck_done[OF assms] by blast

lemma pooled_inv_step:
  assumes good: "good d"
  shows "pooled_step (turn d) s s' \<Longrightarrow> pooled_inv out n base ws cnt s \<Longrightarrow> pooled_inv out n base ws cnt s'"
proof (induction rule: pooled_step.induct)
  case (do_load s l)
  then show ?case
    using fault_free_step[OF good do_load(1)] balanced_step[OF good do_load(1)] load_step_threads[OF do_load(1)]
    by (auto simp: pooled_inv_def loaders_def split: option.splits)
next
  case (do_take s i p)
  then have ns: "\<not> stop (pl_pool s)" by (simp add: pooled_inv_def)
  from section_takes[OF ns do_take(4)] obtain t ts where t: "tasks (pl_pool s) = t # ts"
    "p = (pl_pool s)\<lparr>workers := (workers (pl_pool s))[i := Running t], tasks := ts, started := started (pl_pool s) @ [t]\<rparr>" by blast
  have "tp_inv ws p" using tp_step_inv[OF tp_step.do_section[OF do_take(2-4)]] do_take(5) by (simp add: pooled_inv_def)
  moreover have "pl_task s = None" "started (pl_pool s) = []"
    using do_take(5) t(1) by (auto simp: pooled_inv_def tp_inv_def split: option.splits)
  ultimately show ?case using do_take(5) t(2) by (auto simp: pooled_inv_def loaders_def balanced_def)
next
  case (do_finish s i k)
  have "tp_inv ws (worker_task i () (pl_pool s))"
    using tp_step_inv[OF tp_step.do_task[OF do_finish(2,3)]] do_finish(6) by (simp add: pooled_inv_def)
  with do_finish show ?case by (simp add: pooled_inv_def worker_task_def loaders_def)
qed

lemma pooled_left_step:
  assumes good: "good d" and "pooled_inv out n base ws cnt s" and "pooled_step (turn d) s s'"
  shows "pooled_left n s' < pooled_left n s"
  using assms(3,2)
proof (induction rule: pooled_step.induct)
  case (do_load s l)
  then show ?case using step_left[OF good do_load(1)] by (simp add: pooled_left_def)
next
  case (do_take s i p)
  then have ns: "\<not> stop (pl_pool s)" by (simp add: pooled_inv_def)
  from section_takes[OF ns do_take(4)] obtain t ts where t: "tasks (pl_pool s) = t # ts"
    "p = (pl_pool s)\<lparr>workers := (workers (pl_pool s))[i := Running t], tasks := ts, started := started (pl_pool s) @ [t]\<rparr>" by blast
  have "size (running_tasks ((workers (pl_pool s))[i := Running t])) = Suc (size (running_tasks (workers (pl_pool s))))"
    using running_tasks_update[OF do_take(2), of "Running t"] do_take(3) by simp
  with t show ?case by (simp add: pooled_left_def load_left_def)
next
  case (do_finish s i k)
  have "size (running_tasks (workers (pl_pool s))) = Suc (size (running_tasks ((workers (pl_pool s))[i := Waiting])))"
    using arg_cong[OF running_tasks_update[OF do_finish(2), of Waiting], of size] do_finish(3) by simp
  then show ?case by (simp add: pooled_left_def worker_task_def)
qed

text \<open>Whatever has happened so far, there is a step to take, or the task and all threads have made all their insertions.\<close>

lemma pooled_progress:
  assumes good: "good d" and inv: "pooled_inv out n base ws cnt s" and "0 < ws"
  shows "(\<exists>s'. pooled_step (turn d) s s') \<or> finished (pl_pool s) = [()]
     \<and> ld_threads (pl_load s) = replicate (Suc cnt) (Insert_at n) \<and> out (ld_world (pl_load s)) = base"
proof (cases "\<exists>l. load_step (turn d) (pl_load s) l")
  case True
  then show ?thesis using pooled_step.do_load by blast
next
  case False
  let ?p = "pl_pool s" and ?l = "pl_load s"
  have f: "ld_fault ?l = None" and b: "balanced out n base (loaders cnt s) ?l" using inv by (simp_all add: pooled_inv_def)
  have fin: "ld_threads ?l = replicate (loaders cnt s) (Insert_at n)" "out (ld_world ?l) = base"
    using stuck_done[OF good b f] False by simp_all
  have p: "length (workers ?p) = ws" "started ?p @ tasks ?p = [()]" "Exited_worker \<notin> set (workers ?p)"
    "mset (started ?p) = mset (finished ?p) + running_tasks (workers ?p)"
    using inv by (auto simp: pooled_inv_def tp_inv_def)
  show ?thesis
  proof (cases "pl_task s")
    case None
    then have "tasks ?p = [()]" "running_tasks (workers ?p) = {#}" using inv p by (auto simp: pooled_inv_def)
    moreover have "workers ?p ! 0 = Waiting"
      using calculation p(1,3) assms(3) by (cases "workers ?p"; cases "hd (workers ?p)") auto
    ultimately show ?thesis
      using pooled_step.do_take[of s 0] f p(1) assms(3) by (auto simp: worker_section_def)
  next
    case (Some k)
    then have k: "k < length (ld_threads ?l)" "started ?p = [()]" using inv by (auto simp: pooled_inv_def)
    show ?thesis
    proof (cases "finished ?p")
      case Nil
      with k p(4) have "running_tasks (workers ?p) = {#()#}" by simp
      then obtain i where i: "i < length (workers ?p)" "workers ?p ! i = Running ()"
        using running_worker[of "workers ?p"] by auto
      have "turn d (ld_threads ?l ! k) (ld_world ?l) = None"
        using k(1) fin turn_done[OF good] by simp
      with pooled_step.do_finish[OF f i Some] show ?thesis by blast
    next
      case (Cons t ts)
      with k p(4) have "finished ?p = [()]" by (auto simp: add_mset_eq_single)
      with fin Some show ?thesis by (simp add: loaders_def)
    qed
  qed
qed

end

end
