(* ===== verification/AclRedis.thy ===== *)
theory AclRedis
  imports Prelude
begin

text \<open>
  The redis client over the acl library (acl-redis-test/src/redis_conn.cpp, redis_manage.cpp). The acl
  connection pool and command classes are the argument \<open>acl\<close>; their return values are as the headers under
  src/inc/acl_cpp document them, in particular \<^verbatim>\<open>redis_hash::hset\<close> returns 1, 0 or -1. The lemmas show
  when a borrowed connection goes back to the pool and what the Boolean result of \<open>HSet\<close> means.
\<close>

section \<open>The acl interface\<close>

record 'w acl_api =
  acl_pool_new :: "string \<Rightarrow> nat \<Rightarrow> 'w \<Rightarrow> nat \<times> 'w"
  acl_set_timeout :: "nat \<Rightarrow> int \<Rightarrow> int \<Rightarrow> 'w \<Rightarrow> 'w"
  acl_peek :: "nat \<Rightarrow> 'w \<Rightarrow> nat option \<times> 'w"
  acl_put :: "nat \<Rightarrow> nat option \<Rightarrow> bool \<Rightarrow> 'w \<Rightarrow> 'w"
  acl_set :: "nat option \<Rightarrow> string \<Rightarrow> string \<Rightarrow> 'w \<Rightarrow> bool \<times> 'w"
  acl_get :: "nat option \<Rightarrow> string \<Rightarrow> 'w \<Rightarrow> (bool \<times> string) \<times> 'w"
  acl_hset :: "nat option \<Rightarrow> string \<Rightarrow> string \<Rightarrow> string \<Rightarrow> 'w \<Rightarrow> int \<times> 'w"
  acl_hget :: "nat option \<Rightarrow> string \<Rightarrow> string \<Rightarrow> 'w \<Rightarrow> (bool \<times> string) \<times> 'w"

section \<open>RedisConn\<close>

text \<open>The object is its \<^verbatim>\<open>pool_\<close> pointer.\<close>

type_synonym acl_conn = "nat option"

definition mk_AclConn :: acl_conn where
  "mk_AclConn = None"

definition acl_InitPool :: "'w acl_api \<Rightarrow> string \<Rightarrow> nat \<Rightarrow> int \<Rightarrow> int \<Rightarrow> acl_conn \<Rightarrow> 'w \<Rightarrow> bool \<times> acl_conn \<times> 'w" where
  "acl_InitPool acl redis_addr count conn_timeout rw_timeout c w =
     (let (pool, w1) = acl_pool_new acl redis_addr count w
      in (True, Some pool, acl_set_timeout acl pool conn_timeout rw_timeout w1))"

text \<open>
  The frame of the four commands: peek a connection, run the command; \<open>None\<close> as its outcome is the early
  return, which skips \<^verbatim>\<open>put\<close>.
\<close>

definition acl_command ::
  "'w acl_api \<Rightarrow> acl_conn \<Rightarrow> (nat option \<Rightarrow> 'w \<Rightarrow> 'r option \<times> 'w) \<Rightarrow> 'w \<Rightarrow> ('r option \<times> 'w) res" where
  "acl_command acl c body w =
     (case c of
        None \<Rightarrow> Inl NullDeref
      | Some pool \<Rightarrow>
          let (client, w1) = acl_peek acl pool w;
              (r, w2) = body client w1
          in Inr (r, case r of None \<Rightarrow> w2 | Some _ \<Rightarrow> acl_put acl pool client True w2))"

definition acl_Set :: "'w acl_api \<Rightarrow> string \<Rightarrow> string \<Rightarrow> string \<Rightarrow> acl_conn \<Rightarrow> 'w \<Rightarrow> (bool \<times> 'w) res" where
  "acl_Set acl key field value c w =
     bind_res (acl_command acl c (\<lambda>client w1.
         let (ok, w2) = acl_set acl client key value w1 in (if ok = False then None else Some (), w2)) w)
       (\<lambda>(r, w'). Inr (r \<noteq> None, w'))"

datatype acl_ptr = AclNull | AclDangling

definition acl_Get :: "'w acl_api \<Rightarrow> string \<Rightarrow> string \<Rightarrow> acl_conn \<Rightarrow> 'w \<Rightarrow> (acl_ptr \<times> 'w) res" where
  "acl_Get acl key field c w =
     bind_res (acl_command acl c (\<lambda>client w1.
         let ((ok, buf), w2) = acl_get acl client key w1 in (if ok = False then None else Some buf, w2)) w)
       (\<lambda>(r, w'). Inr (case r of None \<Rightarrow> AclNull | Some _ \<Rightarrow> AclDangling, w'))"

text \<open>\<^verbatim>\<open>hset(...) == false\<close> compares an \<^verbatim>\<open>int\<close> with 0.\<close>

definition acl_HSet :: "'w acl_api \<Rightarrow> string \<Rightarrow> string \<Rightarrow> string \<Rightarrow> acl_conn \<Rightarrow> 'w \<Rightarrow> (bool \<times> 'w) res" where
  "acl_HSet acl key field value c w =
     bind_res (acl_command acl c (\<lambda>client w1.
         let (n, w2) = acl_hset acl client key field value w1 in (if n = 0 then None else Some (), w2)) w)
       (\<lambda>(r, w'). Inr (r \<noteq> None, w'))"

definition acl_HGet ::
  "'w acl_api \<Rightarrow> string \<Rightarrow> string \<Rightarrow> string \<Rightarrow> acl_conn \<Rightarrow> 'w \<Rightarrow> ((bool \<times> string) \<times> 'w) res" where
  "acl_HGet acl key field value c w =
     bind_res (acl_command acl c (\<lambda>client w1.
         let ((ok, buf), w2) = acl_hget acl client key field w1 in (if ok = False then None else Some buf, w2)) w)
       (\<lambda>(r, w'). Inr (case r of None \<Rightarrow> (False, value) | Some buf \<Rightarrow> (True, c_str buf), w'))"

section \<open>RedisManage\<close>

text \<open>The facade passes everything on.\<close>

definition am_InitPool :: "'w acl_api \<Rightarrow> string \<Rightarrow> nat \<Rightarrow> int \<Rightarrow> int \<Rightarrow> acl_conn \<Rightarrow> 'w \<Rightarrow> bool \<times> acl_conn \<times> 'w" where
  "am_InitPool acl redis_addr count conn_timeout rw_timeout c w =
     acl_InitPool acl redis_addr count conn_timeout rw_timeout c w"

definition am_Set :: "'w acl_api \<Rightarrow> string \<Rightarrow> string \<Rightarrow> string \<Rightarrow> acl_conn \<Rightarrow> 'w \<Rightarrow> (bool \<times> 'w) res" where
  "am_Set = acl_Set"

definition am_Get :: "'w acl_api \<Rightarrow> string \<Rightarrow> string \<Rightarrow> acl_conn \<Rightarrow> 'w \<Rightarrow> (acl_ptr \<times> 'w) res" where
  "am_Get = acl_Get"

definition am_HSet :: "'w acl_api \<Rightarrow> string \<Rightarrow> string \<Rightarrow> string \<Rightarrow> acl_conn \<Rightarrow> 'w \<Rightarrow> (bool \<times> 'w) res" where
  "am_HSet = acl_HSet"

definition am_HGet ::
  "'w acl_api \<Rightarrow> string \<Rightarrow> string \<Rightarrow> string \<Rightarrow> acl_conn \<Rightarrow> 'w \<Rightarrow> ((bool \<times> string) \<times> 'w) res" where
  "am_HGet = acl_HGet"

text \<open>One thread of \<^verbatim>\<open>main\<close>, cut off after \<open>n\<close> rounds (its own bound never ends the loop).\<close>

fun acl_worker :: "'w acl_api \<Rightarrow> nat \<Rightarrow> acl_conn \<Rightarrow> 'w \<Rightarrow> 'w res" where
  "acl_worker acl 0 c w = Inr w"
| "acl_worker acl (Suc n) c w =
     bind_res (am_HGet acl ''user:base'' ''DE61F1EF-FC53-968F-118A-9378CE037D85@1569505695714'' '''' c w)
       (\<lambda>(_, w1). acl_worker acl n c w1)"

text \<open>\<^verbatim>\<open>main\<close> up to its threads.\<close>

definition acl_main_setup :: "'w acl_api \<Rightarrow> 'w \<Rightarrow> acl_conn \<times> 'w" where
  "acl_main_setup acl w = (let (_, c, w1) = am_InitPool acl ''192.168.0.212:6379'' 30 20 20 mk_AclConn w in (c, w1))"

text \<open>
  \<^verbatim>\<open>test\<close> of src/mian.cpp: the line it prints and the state it leaves; the connection is never put back.
\<close>

definition acl_test :: "'w acl_api \<Rightarrow> 'w \<Rightarrow> string \<times> 'w" where
  "acl_test acl w =
     (let (pool, w1) = acl_pool_new acl ''192.168.0.172:6379'' 20 w;
          w2 = acl_set_timeout acl pool 20 20 w1;
          (conn, w3) = acl_peek acl pool w2
      in (case conn of
            None \<Rightarrow> (''conn is null'', w3)
          | Some c \<Rightarrow>
              let (ok, w4) = acl_set acl (Some c) ''user:base'' ''test_value'' w3
              in if ok = False then (''set key: user:base error: '', w4) else (''set key: user:base ok!'', w4)))"

section \<open>Borrowed connections\<close>

text \<open>
  \<open>out w\<close> is the number of connections handed out by \<^verbatim>\<open>peek\<close> and not \<^verbatim>\<open>put\<close> back; a pool that has connections to
  give, and commands that leave the pool alone.
\<close>

definition acl_documented :: "'w acl_api \<Rightarrow> ('w \<Rightarrow> int) \<Rightarrow> bool" where
  "acl_documented acl out \<longleftrightarrow>
     (\<forall>p w x w'. acl_peek acl p w = (x, w') \<longrightarrow> x \<noteq> None \<and> out w' = out w + 1)
     \<and> (\<forall>p c k w. out (acl_put acl p c k w) = out w - 1)
     \<and> (\<forall>c k v w r w'. acl_set acl c k v w = (r, w') \<longrightarrow> out w' = out w)
     \<and> (\<forall>c k w r w'. acl_get acl c k w = (r, w') \<longrightarrow> out w' = out w)
     \<and> (\<forall>c k f v w r w'. acl_hset acl c k f v w = (r, w') \<longrightarrow> out w' = out w)
     \<and> (\<forall>c k f w r w'. acl_hget acl c k f w = (r, w') \<longrightarrow> out w' = out w)"

lemma acl_documentedD:
  assumes "acl_documented acl out"
  shows "acl_peek acl p w = (x, w') \<Longrightarrow> out w' = out w + 1"
    and "out (acl_put acl p c keep w) = out w - 1"
    and "acl_set acl c k v w = (b, w') \<Longrightarrow> out w' = out w"
    and "acl_get acl c k w = (g, w') \<Longrightarrow> out w' = out w"
    and "acl_hset acl c k f v w = (n, w') \<Longrightarrow> out w' = out w"
    and "acl_hget acl c k f w = (g, w') \<Longrightarrow> out w' = out w"
  using assms unfolding acl_documented_def by metis+

lemma acl_command_out:
  assumes acl: "acl_documented acl out" and run: "acl_command acl c body w = Inr (r, w')"
    and body: "\<And>x w r w'. body x w = (r, w') \<Longrightarrow> out w' = out w"
  shows "out w' = out w + (if r = None then 1 else 0)"
proof -
  obtain pool where c: "c = Some pool" using run by (cases c) (auto simp: acl_command_def)
  obtain x w1 where x: "acl_peek acl pool w = (x, w1)" by fastforce
  obtain r' w2 where b: "body x w1 = (r', w2)" by fastforce
  have "out w2 = out w + 1" using acl_documentedD(1)[OF acl x] body[OF b] by simp
  with run c x b show ?thesis
    by (auto simp: acl_command_def acl_documentedD(2)[OF acl] split: option.splits)
qed

text \<open>
  Each command gives its connection back exactly when it reports success: on the failure path the
  connection that \<^verbatim>\<open>peek\<close> handed out is lost to the pool.
\<close>

theorem acl_failure_leaks:
  assumes "acl_documented acl out"
  shows "(acl_Set acl k f v c w = Inr (ok, w') \<longrightarrow> out w' = out w + (if ok then 0 else 1))
     \<and> (acl_HSet acl k f v c w = Inr (ok, w') \<longrightarrow> out w' = out w + (if ok then 0 else 1))
     \<and> (acl_HGet acl k f v c w = Inr ((ok, s), w') \<longrightarrow> out w' = out w + (if ok then 0 else 1))
     \<and> (acl_Get acl k f c w = Inr (ptr, w') \<longrightarrow> out w' = out w + (if ptr = AclNull then 1 else 0))"
proof -
  note D = acl_documentedD[OF assms]
  have "out w' = out w + (if ok then 0 else 1)" if "acl_Set acl k f v c w = Inr (ok, w')"
    using that unfolding acl_Set_def bind_res_eq_Inr
    by (auto dest!: acl_command_out[OF assms] simp: D(3) Let_def split: prod.splits if_splits)
  moreover have "out w' = out w + (if ok then 0 else 1)" if "acl_HSet acl k f v c w = Inr (ok, w')"
    using that unfolding acl_HSet_def bind_res_eq_Inr
    by (auto dest!: acl_command_out[OF assms] simp: D(5) Let_def split: prod.splits if_splits)
  moreover have "out w' = out w + (if ok then 0 else 1)" if "acl_HGet acl k f v c w = Inr ((ok, s), w')"
    using that unfolding acl_HGet_def bind_res_eq_Inr
    by (auto dest!: acl_command_out[OF assms] simp: D(6) Let_def split: prod.splits if_splits option.splits)
  moreover have "out w' = out w + (if ptr = AclNull then 1 else 0)" if "acl_Get acl k f c w = Inr (ptr, w')"
    using that unfolding acl_Get_def bind_res_eq_Inr
    by (auto dest!: acl_command_out[OF assms] simp: D(4) Let_def split: prod.splits if_splits option.splits)
  ultimately show ?thesis by blast
qed

text \<open>
  So a thread of \<^verbatim>\<open>main\<close> whose field does not exist takes one connection out of the pool in every round, for good.
\<close>

lemma acl_worker_drains:
  assumes acl: "acl_documented acl out" and missing: "\<And>c k f w. \<not> fst (fst (acl_hget acl c k f w))"
  shows "acl_worker acl n (Some pool) w = Inr w' \<Longrightarrow> out w' = out w + int n"
proof (induction n arbitrary: w)
  case (Suc n)
  let ?get = "acl_HGet acl ''user:base'' ''DE61F1EF-FC53-968F-118A-9378CE037D85@1569505695714'' '''' (Some pool) w"
  obtain ok v w1 where g: "?get = Inr ((ok, v), w1)" and r: "acl_worker acl n (Some pool) w1 = Inr w'"
    using Suc.prems by (auto simp: am_HGet_def bind_res_eq_Inr)
  obtain x u where x: "acl_peek acl pool w = (x, u)" by fastforce
  obtain h u' where h: "acl_hget acl x ''user:base'' ''DE61F1EF-FC53-968F-118A-9378CE037D85@1569505695714'' u = (h, u')" by fastforce
  have "\<not> fst h" using missing[of x "''user:base''" _ u] h by (metis fst_conv)
  with g x h have "w1 = u'" by (auto simp: acl_HGet_def acl_command_def split: prod.splits)
  then have "out w1 = out w + 1" using acl_documentedD(1)[OF acl x] acl_documentedD(6)[OF acl h] by simp
  with Suc.IH[OF r] show ?case by simp
qed simp

text \<open>A toy server: connections out and one hash; it refuses the empty key.\<close>

definition toy_acl :: "(int \<times> (string \<times> string \<rightharpoonup> string)) acl_api" where
  "toy_acl = \<lparr>acl_pool_new = (\<lambda>a n w. (1, w)), acl_set_timeout = (\<lambda>p a b w. w),
     acl_peek = (\<lambda>p (n, h). (Some 4, (n + 1, h))), acl_put = (\<lambda>p c k (n, h). (n - 1, h)),
     acl_set = (\<lambda>c k v (n, h). (k \<noteq> '''', (n, h))), acl_get = (\<lambda>c k w. ((k \<noteq> '''', ''''), w)),
     acl_hset = (\<lambda>c k f v (n, h). if k = '''' then (- 1, (n, h))
                  else (if h (k, f) = None then 1 else 0, (n, h((k, f) \<mapsto> v)))),
     acl_hget = (\<lambda>c k f (n, h). ((h (k, f) \<noteq> None, case h (k, f) of None \<Rightarrow> '''' | Some v \<Rightarrow> v), (n, h)))\<rparr>"

lemma toy_acl_documented: "acl_documented toy_acl fst"
  by (auto simp: acl_documented_def toy_acl_def split: if_splits)

theorem acl_failure_leaks_witness:
  "\<exists>w'. acl_Set toy_acl '''' ''f'' ''v'' (Some 1) (0, Map.empty) = Inr (False, w') \<and> fst w' = 1"
proof -
  have r: "acl_Set toy_acl '''' ''f'' ''v'' (Some 1) (0, Map.empty) = Inr (False, (1, Map.empty))"
    by (simp add: acl_Set_def acl_command_def toy_acl_def)
  with acl_failure_leaks[OF toy_acl_documented, of "''''" "''f''" "''v''" "Some 1" "(0, Map.empty)" False "(1, Map.empty)"]
  show ?thesis by auto
qed

section \<open>What HSet reports\<close>

text \<open>\<^verbatim>\<open>redis_hash::hset\<close> as its header documents it: 1 for a new field, 0 for an old one, -1 for an error.\<close>

definition hset_documented :: "'w acl_api \<Rightarrow> ('w \<Rightarrow> string \<times> string \<rightharpoonup> string) \<Rightarrow> bool" where
  "hset_documented acl hash \<longleftrightarrow>
     (\<forall>p w. hash (snd (acl_peek acl p w)) = hash w) \<and> (\<forall>p c k w. hash (acl_put acl p c k w) = hash w)
     \<and> (\<forall>c k f v w n w'. acl_hset acl c k f v w = (n, w') \<longrightarrow>
          (n = - 1 \<and> hash w' = hash w)
          \<or> (n = (if hash w (k, f) = None then 1 else 0) \<and> hash w' = (hash w)((k, f) \<mapsto> v)))"

text \<open>
  \<open>HSet\<close> reports the opposite of what its callers expect on two of the three outcomes: updating a field
  that already exists stores the value but returns \<^verbatim>\<open>false\<close>, and a refused command stores nothing but
  returns \<^verbatim>\<open>true\<close>; only for a new field does \<^verbatim>\<open>true\<close> mean that the value was stored.
\<close>

theorem acl_HSet_report:
  assumes "hset_documented acl hash" and "acl_HSet acl k f v c w = Inr (ok, w')"
  shows "(ok \<and> hash w' = hash w)
     \<or> (ok = (hash w (k, f) = None) \<and> hash w' = (hash w)((k, f) \<mapsto> v))"
proof -
  obtain pool where c: "c = Some pool" using assms(2) by (cases c) (auto simp: acl_HSet_def acl_command_def)
  obtain x w1 where x: "acl_peek acl pool w = (x, w1)" by fastforce
  obtain n w2 where n: "acl_hset acl x k f v w1 = (n, w2)" by fastforce
  have h: "hash w1 = hash w" "\<And>cl b z. hash (acl_put acl pool cl b z) = hash z"
    using assms(1) x unfolding hset_documented_def by (metis snd_conv)+
  have "(n = - 1 \<and> hash w2 = hash w1) \<or> (n = (if hash w1 (k, f) = None then 1 else 0) \<and> hash w2 = (hash w1)((k, f) \<mapsto> v))"
    using assms(1) n unfolding hset_documented_def by blast
  with assms(2) c x n h show ?thesis
    by (auto simp: acl_HSet_def acl_command_def Let_def split: if_splits)
qed

theorem acl_HSet_report_witness:
  "\<exists>w'. acl_HSet toy_acl ''k'' ''f'' ''new'' (Some 1) (0, [(''k'', ''f'') \<mapsto> ''old'']) = Inr (False, w')
     \<and> snd w' (''k'', ''f'') = Some ''new''"
proof -
  have d: "hset_documented toy_acl snd" by (auto simp: hset_documented_def toy_acl_def split: if_splits)
  obtain w' where r: "acl_HSet toy_acl ''k'' ''f'' ''new'' (Some 1) (0, [(''k'', ''f'') \<mapsto> ''old'']) = Inr (False, w')"
    by (simp add: acl_HSet_def acl_command_def toy_acl_def)
  from acl_HSet_report[OF d r] r show ?thesis by auto
qed

end
