(* ===== verification/AclLoad.thy ===== *)
theory AclLoad
  imports LoadThreads AclRedis
begin

text \<open>
  The program of acl-redis-test/src/mian.cpp as a whole: \<^verbatim>\<open>main\<close> makes a pool of at most 30 connections and starts 100 threads
  that read a hash field over and over. The threads are those of LoadThreads, with \<open>HGet\<close> cut at its calls into acl;
  the third client of the locale \<open>lent_threads\<close>. Since a failed \<open>HGet\<close> does not give its connection back, what the
  theorem shows is how the pool runs dry.
\<close>

section \<open>One thread\<close>

text \<open>
  The loop variable is an \<^verbatim>\<open>int\<close>, and its bound 10000000000 is out of the range of \<^verbatim>\<open>int\<close>. The second component of the world
  counts the connections lost so far. A null client touches nothing shared, so the whole call is one step. What \<^verbatim>\<open>printf\<close> makes
  of the string object is left out.
\<close>

definition next_round :: "nat \<Rightarrow> 'v \<Rightarrow> (phase \<times> 'v) res" where
  "next_round i v = (if 2 ^ 31 \<le> i + 1 then Inl SignedOverflow else Inr (Insert_at (i + 1), v))"

definition acl_turn :: "'w acl_api \<Rightarrow> acl_conn \<Rightarrow> phase \<Rightarrow> 'w \<times> nat \<Rightarrow> (phase \<times> ('w \<times> nat)) res option" where
  "acl_turn acl c ph v =
     (let (w, lost) = v;
          hget = (\<lambda>client. acl_hget acl client ''user:base'' ''DE61F1EF-FC53-968F-118A-9378CE037D85@1569505695714'')
      in (case ph of
            Insert_at i \<Rightarrow>
              if 10000000000 \<le> i then None
              else Some (case c of
                None \<Rightarrow> Inl NullDeref
              | Some pool \<Rightarrow>
                  (case acl_peek acl pool w of
                     (Some client, w1) \<Rightarrow> Inr (Holding i client, (w1, lost))
                   | (None, w1) \<Rightarrow>
                       let ((ok, _), w2) = hget None w1
                       in next_round i (if ok = False then w2 else acl_put acl pool None True w2, lost)))
          | Holding i client \<Rightarrow>
              (let ((ok, _), w1) = hget (Some client) w
               in Some (if ok = False then next_round i (w1, lost + 1) else Inr (Releasing i client, (w1, lost))))
          | Releasing i client \<Rightarrow>
              Some (case c of
                None \<Rightarrow> Inl NullDeref
              | Some pool \<Rightarrow> next_round i (acl_put acl pool (Some client) True w, lost))))"

definition acl_main :: "'w acl_api \<Rightarrow> 'w \<Rightarrow> acl_conn \<times> ('w \<times> nat) load" where
  "acl_main acl w =
     (let (c, w1) = acl_main_setup acl w
      in (c, \<lparr>ld_world = (w1, 0), ld_threads = [], ld_pending = 100, ld_fault = None\<rparr>))"

text \<open>A thread that runs alone does what \<open>HGet\<close> does, and loses a connection exactly when that fails with one in its hands.\<close>

lemma acl_turns_HGet:
  assumes "acl_HGet acl ''user:base'' ''DE61F1EF-FC53-968F-118A-9378CE037D85@1569505695714'' val (Some pool) w = Inr ((ok, s), w')"
    and "acl_peek acl pool w = (Some c, w1)" and "i + 1 < 2 ^ 31"
  shows "\<exists>w2. acl_turn acl (Some pool) (Insert_at i) (w, l) = Some (Inr (Holding i c, (w1, l)))
     \<and> (if ok then acl_turn acl (Some pool) (Holding i c) (w1, l) = Some (Inr (Releasing i c, (w2, l)))
                \<and> acl_turn acl (Some pool) (Releasing i c) (w2, l) = Some (Inr (Insert_at (i + 1), (w', l)))
        else acl_turn acl (Some pool) (Holding i c) (w1, l) = Some (Inr (Insert_at (i + 1), (w', l + 1))))"
  using assms by (auto simp: acl_turn_def acl_HGet_def acl_command_def next_round_def split: prod.splits if_splits)

section \<open>Accounting\<close>

text \<open>
  The pool as its header documents it: it hands out at most \<open>lim\<close> connections and null beyond, \<^verbatim>\<open>put\<close> takes one back, and
  a command on a null client fails and leaves the pool alone.
\<close>

definition acl_limited :: "('w \<Rightarrow> int) \<Rightarrow> int \<Rightarrow> 'w acl_api \<times> acl_conn \<Rightarrow> bool" where
  "acl_limited out lim d \<longleftrightarrow>
     (\<forall>p w c w'. acl_peek (fst d) p w = (Some c, w') \<longrightarrow> out w < lim \<and> out w' = out w + 1)
     \<and> (\<forall>p w w'. acl_peek (fst d) p w = (None, w') \<longrightarrow> out w' = out w)
     \<and> (\<forall>p c k w. out (acl_put (fst d) p (Some c) k w) = out w - 1)
     \<and> (\<forall>c k f w r w'. acl_hget (fst d) c k f w = (r, w') \<longrightarrow> out w' = out w \<and> (c = None \<longrightarrow> \<not> fst r))"

lemma acl_limitedD:
  assumes "acl_limited out lim d"
  shows "acl_peek (fst d) p w = (Some c, w') \<Longrightarrow> out w < lim \<and> out w' = out w + 1"
    and "acl_peek (fst d) p w = (None, w') \<Longrightarrow> out w' = out w"
    and "out (acl_put (fst d) p (Some c) k w) = out w - 1"
    and "acl_hget (fst d) x key f w = (r, w') \<Longrightarrow> out w' = out w"
    and "acl_hget (fst d) None key f w = ((ok, buf), w') \<Longrightarrow> \<not> ok"
  using assms unfolding acl_limited_def by (metis, metis, metis, metis, metis fst_conv)

lemma next_round_Inr: "next_round i v = Inr (ph, v') \<longleftrightarrow> i + 1 < 2 ^ 31 \<and> ph = Insert_at (i + 1) \<and> v' = v"
  by (auto simp: next_round_def)

lemma acl_turn_cases:
  assumes d: "acl_limited out lim d" and "acl_turn (fst d) (snd d) ph (w, l) = Some (Inr (ph', (w', l')))"
  shows "(\<exists>i c. ph = Insert_at i \<and> i < 10000000000 \<and> ph' = Holding i c \<and> out w < lim \<and> out w' = out w + 1 \<and> l' = l)
     \<or> (\<exists>i. ph = Insert_at i \<and> i < 10000000000 \<and> ph' = Insert_at (i + 1) \<and> out w' = out w \<and> l' = l)
     \<or> (\<exists>i c. ph = Holding i c \<and> ph' = Insert_at (i + 1) \<and> out w' = out w \<and> l' = l + 1)
     \<or> (\<exists>i c. ph = Holding i c \<and> ph' = Releasing i c \<and> out w' = out w \<and> l' = l)
     \<or> (\<exists>i c. ph = Releasing i c \<and> ph' = Insert_at (i + 1) \<and> out w' = out w - 1 \<and> l' = l)"
proof (cases ph)
  case (Insert_at i)
  with assms(2) obtain pool where p: "snd d = Some pool" by (cases "snd d") (auto simp: acl_turn_def split: if_splits)
  obtain x w1 where x: "acl_peek (fst d) pool w = (x, w1)" by fastforce
  show ?thesis
  proof (cases x)
    case None
    obtain ok buf w2 where h: "acl_hget (fst d) None ''user:base'' ''DE61F1EF-FC53-968F-118A-9378CE037D85@1569505695714'' w1 = ((ok, buf), w2)"
      by (metis prod.exhaust)
    from acl_limitedD(5)[OF d h] acl_limitedD(4)[OF d h] acl_limitedD(2)[OF d] x None assms(2) Insert_at p h show ?thesis
      by (auto simp: acl_turn_def next_round_Inr split: if_splits)
  next
    case (Some c)
    with acl_limitedD(1)[OF d] x assms(2) Insert_at p show ?thesis by (auto simp: acl_turn_def split: if_splits)
  qed
next
  case (Holding i c)
  obtain ok buf w1 where h: "acl_hget (fst d) (Some c) ''user:base'' ''DE61F1EF-FC53-968F-118A-9378CE037D85@1569505695714'' w = ((ok, buf), w1)"
    by (metis prod.exhaust)
  from acl_limitedD(4)[OF d h] assms(2) Holding h show ?thesis by (auto simp: acl_turn_def next_round_Inr split: if_splits)
next
  case (Releasing i c)
  with assms(2) acl_limitedD(3)[OF d] show ?thesis by (auto simp: acl_turn_def next_round_Inr split: option.splits)
qed

interpretation acl: lent_threads "acl_limited out lim" "\<lambda>d. acl_turn (fst d) (snd d)" "\<lambda>v. out (fst v) - int (snd v)" 10000000000
  for out lim
proof
  fix d :: "'a acl_api \<times> acl_conn" and ph ph' :: phase and v v' :: "'a \<times> nat"
  let ?t = "acl_turn (fst d) (snd d)"
  assume d: "acl_limited out lim d"
  show "?t ph v = None \<longleftrightarrow> ph = Insert_at 10000000000" if "within 10000000000 ph"
    using that by (auto simp: acl_turn_def Let_def split: phase.splits prod.splits if_splits)
  assume "?t ph v = Some (Inr (ph', v'))"
  then have "?t ph (fst v, snd v) = Some (Inr (ph', (fst v', snd v')))" by simp
  note c = acl_turn_cases[OF d this]
  from c show "within 10000000000 ph \<Longrightarrow> within 10000000000 ph'" by auto
  from c show "calls_left 10000000000 ph' < calls_left 10000000000 ph" by auto
  from c show "out (fst v') - int (snd v') + of_bool (holding ph) = out (fst v) - int (snd v) + of_bool (holding ph')" by auto
qed

section \<open>The pool runs dry\<close>

abbreviation lost :: "('w \<times> nat) load \<Rightarrow> nat" where
  "lost s \<equiv> snd (ld_world s)"

abbreviation given :: "('w \<Rightarrow> int) \<Rightarrow> ('w \<times> nat) load \<Rightarrow> int" where
  "given out s \<equiv> out (fst (ld_world s))"

text \<open>As many connections are out as threads hold and have lost, and they are at most \<open>lim\<close>.\<close>

definition acl_inv :: "('w \<Rightarrow> int) \<Rightarrow> int \<Rightarrow> 'w acl_api \<times> acl_conn \<Rightarrow> ('w \<times> nat) load \<Rightarrow> bool" where
  "acl_inv out lim d s \<longleftrightarrow> acl_limited out lim d
     \<and> balanced (\<lambda>v. out (fst v) - int (snd v)) 10000000000 0 100 s \<and> given out s \<le> lim"

lemma acl_step_world:
  assumes "acl_limited out lim d" and "load_step (acl_turn (fst d) (snd d)) s s'" and "given out s \<le> lim"
  shows "given out s' \<le> lim" and "lost s \<le> lost s'"
proof -
  have "given out s' \<le> lim \<and> lost s \<le> lost s'" using assms(2,3)
  proof (induction rule: load_step.induct)
    case (do_turn s k ph v)
    then have "acl_turn (fst d) (snd d) (ld_threads s ! k) (fst (ld_world s), snd (ld_world s)) = Some (Inr (ph, (fst v, snd v)))"
      by simp
    from acl_turn_cases[OF assms(1) this] do_turn(4) show ?case by auto
  qed simp_all
  then show "given out s' \<le> lim" and "lost s \<le> lost s'" by simp_all
qed

interpretation acl_prog: growing_machine "load_step (acl_turn (fst d) (snd d))" "acl_inv out lim d" "\<lambda>s s'. lost s \<le> lost s'"
  for d out lim
  by unfold_locales (auto simp: acl_inv_def intro: acl.balanced_step acl_step_world)

text \<open>
  C20. The acl redis program, in every interleaving of its 100 threads. At any time the connections out are those that a
  thread is using and those lost to a failed \<open>HGet\<close>, together at most the 30 of the pool; no lost connection
  ever comes back; and when 30 are lost, the program is starved for good: no thread holds a connection from then on, so
  that every further \<open>HGet\<close> of every thread fails, whether the field exists or not.
\<close>

theorem acl_pool_starves:
  assumes "acl_main acl w0 = (c, s0)" and "acl_limited out 30 (acl, c)" and "given out s0 = 0"
    and "(load_step (acl_turn acl c))\<^sup>*\<^sup>* s0 s"
  shows "given out s = int (held (ld_threads s) + lost s) \<and> held (ld_threads s) + lost s \<le> 30
     \<and> (\<forall>s'. (load_step (acl_turn acl c))\<^sup>*\<^sup>* s s' \<longrightarrow>
          lost s \<le> lost s' \<and> (lost s = 30 \<longrightarrow> lost s' = 30 \<and> held (ld_threads s') = 0))"
proof -
  have count: "given out t = int (held (ld_threads t) + lost t) \<and> held (ld_threads t) + lost t \<le> 30"
    if "acl_inv out 30 (acl, c) t" for t using that by (simp add: acl_inv_def balanced_def)
  have "acl_inv out 30 (acl, c) s0"
    using assms(1-3) by (auto simp: acl_inv_def balanced_def acl_main_def split: prod.splits)
  then have s: "acl_inv out 30 (acl, c) s" using acl_prog.inv_run[of "(acl, c)"] assms(4) by simp
  have "lost s \<le> lost s' \<and> acl_inv out 30 (acl, c) s'" if "(load_step (acl_turn acl c))\<^sup>*\<^sup>* s s'" for s'
    using acl_prog.inv_run[of "(acl, c)" s s' out 30] acl_prog.le_run[of "(acl, c)" s s' out 30] that s by simp
  with count s show ?thesis by fastforce
qed

text \<open>A pool of 30 connections in front of a server that has no such field.\<close>

definition empty_acl :: "int acl_api" where
  "empty_acl = \<lparr>acl_pool_new = (\<lambda>a n w. (1, w)), acl_set_timeout = (\<lambda>p a b w. w),
     acl_peek = (\<lambda>p w. if w < 30 then (Some 4, w + 1) else (None, w)), acl_put = (\<lambda>p c k w. if c = None then w else w - 1),
     acl_set = (\<lambda>c k v w. (False, w)), acl_get = (\<lambda>c k w. ((False, ''''), w)),
     acl_hset = (\<lambda>c k f v w. (- 1, w)), acl_hget = (\<lambda>c k f w. ((False, ''''), w))\<rparr>"

theorem acl_pool_starves_witness:
  "\<exists>s0 s. acl_main empty_acl 0 = (Some 1, s0) \<and> (load_step (acl_turn empty_acl (Some 1)))\<^sup>*\<^sup>* s0 s
     \<and> lost s = 1 \<and> ld_world s = (1, 1)
     \<and> (\<forall>s'. (load_step (acl_turn empty_acl (Some 1)))\<^sup>*\<^sup>* s s' \<longrightarrow> 1 \<le> lost s')"
proof -
  let ?turn = "acl_turn empty_acl (Some 1)"
  let ?at = "\<lambda>w ts. (\<lparr>ld_world = w, ld_threads = ts, ld_pending = 99, ld_fault = None\<rparr> :: (int \<times> nat) load)"
  let ?start = "\<lparr>ld_world = (0, 0), ld_threads = [], ld_pending = 100, ld_fault = None\<rparr> :: (int \<times> nat) load"
  have m: "acl_main empty_acl 0 = (Some 1, ?start)"
    by (simp add: acl_main_def acl_main_setup_def am_InitPool_def acl_InitPool_def empty_acl_def)
  have d: "acl_limited (\<lambda>w. w) 30 (empty_acl, Some 1)" by (simp add: acl_limited_def empty_acl_def)
  have "load_step ?turn ?start (?at (0, 0) [Insert_at 0])" using do_spawn[of ?start ?turn] by simp
  moreover have "load_step ?turn (?at (0, 0) [Insert_at 0]) (?at (1, 0) [Holding 0 4])"
    using do_turn[of "?at (0, 0) [Insert_at 0]" 0 ?turn "Holding 0 4" "(1, 0)"] by (simp add: acl_turn_def empty_acl_def)
  moreover have "load_step ?turn (?at (1, 0) [Holding 0 4]) (?at (1, 1) [Insert_at 1])"
    using do_turn[of "?at (1, 0) [Holding 0 4]" 0 ?turn "Insert_at 1" "(1, 1)"]
    by (simp add: acl_turn_def empty_acl_def next_round_def)
  ultimately have r: "(load_step ?turn)\<^sup>*\<^sup>* ?start (?at (1, 1) [Insert_at 1])" by auto
  from acl_pool_starves[OF m d _ r] m r show ?thesis
    by (intro exI[of _ ?start] exI[of _ "?at (1, 1) [Insert_at 1]"]) auto
qed

end
