(* ===== verification/MongoC.thy ===== *)
theory MongoC
  imports Lending
begin

text \<open>
  The MongoDB client of mong-c-test (inc/dbio_mongodb.h, src/dbio_mongodb.cpp): \<open>MongoDBConnectionPool\<close>,
  which borrows a client from libmongoc's pool for each operation, and \<open>DBIOMongoDB\<close>, which turns maps
  into BSON documents. libbson and libmongoc are the arguments \<open>bs\<close> and \<open>mc\<close>: a document is of an
  abstract type \<open>'b\<close>, seen through its elements. The lemmas show which operations give their client
  back, and what is read back of what was written.
\<close>

section \<open>libbson and libmongoc\<close>

datatype 'b bval = BUtf8 string | BArray 'b | BDocument 'b | BOther

text \<open>
  \<open>bs_array\<close> and \<open>bs_document\<close> are a \<^verbatim>\<open>..._begin\<close> / \<^verbatim>\<open>..._end\<close> pair with the child that was filled in between (a
  child starts out as \<open>bs_new\<close>), or \<^verbatim>\<open>BSON_APPEND_DOCUMENT\<close>; \<open>bs_elems\<close> is what an iterator visits.
\<close>

record 'b bson_api =
  bs_new :: 'b
  bs_utf8 :: "'b \<Rightarrow> string \<Rightarrow> string \<Rightarrow> 'b"
  bs_array :: "'b \<Rightarrow> string \<Rightarrow> 'b \<Rightarrow> 'b"
  bs_document :: "'b \<Rightarrow> string \<Rightarrow> 'b \<Rightarrow> 'b"
  bs_elems :: "'b \<Rightarrow> (string \<times> 'b bval) list"

text \<open>\<open>mc_next\<close> gives the document pointer stored through the second argument, null at the end.\<close>

record ('b, 'w) mongoc =
  mc_uri_new :: "string \<Rightarrow> 'w \<Rightarrow> nat option \<times> 'w"
  mc_pool_new :: "nat \<Rightarrow> 'w \<Rightarrow> nat \<times> 'w"
  mc_pool_destroy :: "nat \<Rightarrow> 'w \<Rightarrow> 'w"
  mc_uri_destroy :: "nat \<Rightarrow> 'w \<Rightarrow> 'w"
  mc_pop :: "nat \<Rightarrow> 'w \<Rightarrow> nat option \<times> 'w"
  mc_push :: "nat \<Rightarrow> nat \<Rightarrow> 'w \<Rightarrow> 'w"
  mc_insert :: "nat \<Rightarrow> string \<Rightarrow> string \<Rightarrow> 'b \<Rightarrow> 'w \<Rightarrow> bool \<times> 'w"
  mc_remove :: "nat \<Rightarrow> string \<Rightarrow> string \<Rightarrow> 'b \<Rightarrow> 'w \<Rightarrow> bool \<times> 'w"
  mc_update :: "nat \<Rightarrow> string \<Rightarrow> string \<Rightarrow> 'b \<Rightarrow> 'b \<Rightarrow> 'w \<Rightarrow> bool \<times> 'w"
  mc_insert_many :: "nat \<Rightarrow> string \<Rightarrow> string \<Rightarrow> 'b list \<Rightarrow> 'w \<Rightarrow> bool \<times> 'w"
  mc_find :: "nat \<Rightarrow> string \<Rightarrow> string \<Rightarrow> 'b \<Rightarrow> 'b option \<Rightarrow> 'w \<Rightarrow> nat \<times> 'w"
  mc_error :: "nat \<Rightarrow> 'w \<Rightarrow> bool \<times> 'w"
  mc_more :: "nat \<Rightarrow> 'w \<Rightarrow> bool \<times> 'w"
  mc_next :: "nat \<Rightarrow> 'w \<Rightarrow> 'b option \<times> 'w"
  mc_cursor_destroy :: "nat \<Rightarrow> 'w \<Rightarrow> 'w"

type_synonym record_map = "(string, string) std_map"

section \<open>Reading documents\<close>

fun record_loop :: "(string \<times> 'b bval) list \<Rightarrow> record_map \<Rightarrow> record_map" where
  "record_loop [] tmp = tmp"
| "record_loop ((key, BUtf8 v) # es) tmp = record_loop es (map_put (c_str key) (c_str v) tmp)"
| "record_loop (_ # es) tmp = record_loop es tmp"

definition GetRecord :: "'b bson_api \<Rightarrow> 'b \<Rightarrow> record_map list \<Rightarrow> record_map list" where
  "GetRecord bs doc msg_data =
     (let tmp = record_loop (bs_elems bs doc) [] in if tmp = [] then msg_data else msg_data @ [tmp])"

text \<open>The innermost loop of \<^verbatim>\<open>GetVecRecord\<close>; \<open>value\<close> keeps its last content when an element is not a string.\<close>

fun vec_fields :: "(string \<times> 'b bval) list \<Rightarrow> string \<Rightarrow> record_map \<Rightarrow> string \<times> record_map" where
  "vec_fields [] val tmp = (val, tmp)"
| "vec_fields ((k1, BUtf8 v) # es) val tmp = vec_fields es (c_str v) (map_put (c_str k1) (c_str v) tmp)"
| "vec_fields ((k1, _) # es) val tmp = vec_fields es val (map_put (c_str k1) val tmp)"

text \<open>
  The loop over the elements of an array. \<^verbatim>\<open>bson_iter_recurse\<close> fails on an element that is neither document
  nor array and leaves \<^verbatim>\<open>child1\<close> as it was: exhausted, or never initialised (\<open>ready\<close> is false).
\<close>

fun vec_elems ::
  "'b bson_api \<Rightarrow> (string \<times> 'b bval) list \<Rightarrow> bool \<Rightarrow> string \<Rightarrow> record_map \<Rightarrow> record_map list
     \<Rightarrow> (bool \<times> string \<times> record_map \<times> record_map list) res" where
  "vec_elems bs [] ready val tmp msg = Inr (ready, val, tmp, msg)"
| "vec_elems bs ((k, BDocument d) # es) ready val tmp msg =
     (let (val', tmp') = vec_fields (bs_elems bs d) val tmp in vec_elems bs es True val' tmp' (msg @ [tmp']))"
| "vec_elems bs ((k, BArray d) # es) ready val tmp msg =
     (let (val', tmp') = vec_fields (bs_elems bs d) val tmp in vec_elems bs es True val' tmp' (msg @ [tmp']))"
| "vec_elems bs ((k, _) # es) ready val tmp msg =
     (if ready then vec_elems bs es ready val tmp (msg @ [tmp]) else Inl OutOfBounds)"

fun vec_loop ::
  "'b bson_api \<Rightarrow> (string \<times> 'b bval) list \<Rightarrow> bool \<Rightarrow> string \<Rightarrow> record_map \<Rightarrow> record_map list \<Rightarrow> record_map list res" where
  "vec_loop bs [] ready val tmp msg = Inr msg"
| "vec_loop bs ((key, BUtf8 v) # es) ready val tmp msg =
     vec_loop bs es ready (c_str v) (map_put (c_str key) (c_str v) tmp) msg"
| "vec_loop bs ((key, BArray a) # es) ready val tmp msg =
     bind_res (vec_elems bs (bs_elems bs a) ready val [] msg) (\<lambda>(ready', val', tmp', msg').
       vec_loop bs es ready' val' tmp' msg')"
| "vec_loop bs (_ # es) ready val tmp msg = vec_loop bs es ready val tmp msg"

definition GetVecRecord :: "'b bson_api \<Rightarrow> 'b \<Rightarrow> record_map list \<Rightarrow> record_map list res" where
  "GetVecRecord bs doc msg_data = vec_loop bs (bs_elems bs doc) False '''' [] msg_data"

section \<open>MongoDBConnectionPool\<close>

record mongo_pool =
  m_pool :: "nat option"
  m_url :: "nat option"
  m_strurl :: string

definition mk_MongoDBConnectionPool :: mongo_pool where
  "mk_MongoDBConnectionPool = \<lparr>m_pool = None, m_url = None, m_strurl = ''''\<rparr>"

text \<open>An invalid URL gives a null \<^verbatim>\<open>uri\<close>, which \<^verbatim>\<open>mongoc_client_pool_new\<close> dereferences.\<close>

definition create_client_pool :: "('b, 'w) mongoc \<Rightarrow> mongo_pool \<Rightarrow> 'w \<Rightarrow> (bool \<times> mongo_pool \<times> 'w) res" where
  "create_client_pool mc mp w =
     (case mc_uri_new mc (c_str (m_strurl mp)) w of
        (None, w1) \<Rightarrow> Inl NullDeref
      | (Some uri, w1) \<Rightarrow>
          let (pool, w2) = mc_pool_new mc uri w1
          in Inr (True, mp\<lparr>m_pool := Some pool, m_url := Some uri\<rparr>, w2))"

definition pool_mongodb_init :: "('b, 'w) mongoc \<Rightarrow> string \<Rightarrow> mongo_pool \<Rightarrow> 'w \<Rightarrow> (mongo_pool \<times> 'w) res" where
  "pool_mongodb_init mc url mp w =
     bind_res (create_client_pool mc (mp\<lparr>m_strurl := c_str url\<rparr>) w) (\<lambda>(_, mp1, w1). Inr (mp1, w1))"

text \<open>The members keep pointing to what was destroyed.\<close>

definition destory_client_pool :: "('b, 'w) mongoc \<Rightarrow> mongo_pool \<Rightarrow> 'w \<Rightarrow> bool \<times> 'w" where
  "destory_client_pool mc mp w =
     (case (m_url mp, m_pool mp) of
        (Some uri, Some pool) \<Rightarrow> (True, mc_uri_destroy mc uri (mc_pool_destroy mc pool w))
      | _ \<Rightarrow> (False, w))"

text \<open>Borrow a client, run \<open>body\<close>, push the client back: the frame of the simple operations.\<close>

definition with_client ::
  "('b, 'w) mongoc \<Rightarrow> mongo_pool \<Rightarrow> (nat \<Rightarrow> 'w \<Rightarrow> bool \<times> 'w) \<Rightarrow> 'w \<Rightarrow> (bool \<times> 'w) res" where
  "with_client mc mp body w =
     (case m_pool mp of
        None \<Rightarrow> Inl NullDeref
      | Some pool \<Rightarrow>
          (case mc_pop mc pool w of
             (None, w1) \<Rightarrow> Inr (False, w1)
           | (Some client, w1) \<Rightarrow> let (ok, w2) = body client w1 in Inr (ok, mc_push mc pool client w2)))"

definition pool_insert_coll ::
  "('b, 'w) mongoc \<Rightarrow> mongo_pool \<Rightarrow> string \<Rightarrow> string \<Rightarrow> 'b \<Rightarrow> 'w \<Rightarrow> (bool \<times> 'w) res" where
  "pool_insert_coll mc mp db coll doc = with_client mc mp (\<lambda>client. mc_insert mc client db coll doc)"

definition pool_delete_coll ::
  "('b, 'w) mongoc \<Rightarrow> mongo_pool \<Rightarrow> string \<Rightarrow> string \<Rightarrow> 'b \<Rightarrow> 'w \<Rightarrow> (bool \<times> 'w) res" where
  "pool_delete_coll mc mp db coll doc = with_client mc mp (\<lambda>client. mc_remove mc client db coll doc)"

definition pool_update_coll ::
  "('b, 'w) mongoc \<Rightarrow> mongo_pool \<Rightarrow> string \<Rightarrow> string \<Rightarrow> 'b \<Rightarrow> 'b \<Rightarrow> 'w \<Rightarrow> (bool \<times> 'w) res" where
  "pool_update_coll mc mp db coll ident doc = with_client mc mp (\<lambda>client. mc_update mc client db coll ident doc)"

definition batch_insert_coll ::
  "('b, 'w) mongoc \<Rightarrow> mongo_pool \<Rightarrow> string \<Rightarrow> string \<Rightarrow> 'b list \<Rightarrow> 'w \<Rightarrow> (bool \<times> 'w) res" where
  "batch_insert_coll mc mp db coll docs = with_client mc mp (\<lambda>client. mc_insert_many mc client db coll docs)"

text \<open>What \<^verbatim>\<open>const bson_t *doc\<close> holds: nothing yet, null, or a document owned by the cursor.\<close>

datatype doc_var = DocUninit | DocNull | DocOwned

text \<open>The cursor loop of the selects, with the function that stores a document.\<close>

partial_function (option) cursor_loop ::
  "('b, 'w) mongoc \<Rightarrow> nat \<Rightarrow> ('b \<Rightarrow> 'm \<Rightarrow> 'm res) \<Rightarrow> doc_var \<Rightarrow> 'm \<Rightarrow> 'w \<Rightarrow> (doc_var \<times> 'm \<times> 'w) run" where
  "cursor_loop mc cursor get doc msg w =
     (let (err, w1) = mc_error mc cursor w
      in if err then Some (Inr (doc, msg, w1))
         else let (more, w2) = mc_more mc cursor w1
              in if \<not> more then Some (Inr (doc, msg, w2))
                 else (case mc_next mc cursor w2 of
                         (None, w3) \<Rightarrow> cursor_loop mc cursor get DocNull msg w3
                       | (Some d, w3) \<Rightarrow>
                           (case get d msg of
                              Inl e \<Rightarrow> Some (Inl e)
                            | Inr msg' \<Rightarrow> cursor_loop mc cursor get DocOwned msg' w3)))"

text \<open>
  After the loop \<^verbatim>\<open>doc\<close> is read and deleted: harmless only when it is null, since the cursor owns what it
  points to.
\<close>

definition delete_doc :: "doc_var \<Rightarrow> unit res" where
  "delete_doc d = (case d of DocUninit \<Rightarrow> Inl OutOfBounds | DocOwned \<Rightarrow> Inl DoubleFree | DocNull \<Rightarrow> Inr ())"

definition select_with ::
  "('b, 'w) mongoc \<Rightarrow> mongo_pool \<Rightarrow> string \<Rightarrow> string \<Rightarrow> 'b \<Rightarrow> 'b option \<Rightarrow> ('b \<Rightarrow> 'm \<Rightarrow> 'm res) \<Rightarrow> 'm \<Rightarrow> 'w
     \<Rightarrow> (bool \<times> 'm \<times> 'w) run" where
  "select_with mc mp db coll query proj get msg w =
     (case m_pool mp of
        None \<Rightarrow> Some (Inl NullDeref)
      | Some pool \<Rightarrow>
          (case mc_pop mc pool w of
             (None, w1) \<Rightarrow> Some (Inr (False, msg, w1))
           | (Some client, w1) \<Rightarrow>
               let (cursor, w2) = mc_find mc client db coll query proj w1
               in bind_run (cursor_loop mc cursor get DocUninit msg w2) (\<lambda>(doc, msg', w3).
                    let (err, w4) = mc_error mc cursor w3
                    in bind_run (Some (delete_doc doc)) (\<lambda>_.
                         Some (Inr (\<not> err, msg', mc_push mc pool client (mc_cursor_destroy mc cursor w4)))))))"

definition pool_select_coll ::
  "'b bson_api \<Rightarrow> ('b, 'w) mongoc \<Rightarrow> mongo_pool \<Rightarrow> string \<Rightarrow> string \<Rightarrow> 'b \<Rightarrow> record_map list \<Rightarrow> 'w
     \<Rightarrow> (bool \<times> record_map list \<times> 'w) run" where
  "pool_select_coll bs mc mp db coll query msg =
     select_with mc mp db coll query None (\<lambda>d m. Inr (GetRecord bs d m)) msg"

definition select_coll_by_fields ::
  "'b bson_api \<Rightarrow> ('b, 'w) mongoc \<Rightarrow> mongo_pool \<Rightarrow> string \<Rightarrow> string \<Rightarrow> 'b \<Rightarrow> 'b \<Rightarrow> record_map list \<Rightarrow> 'w
     \<Rightarrow> (bool \<times> record_map list \<times> 'w) run" where
  "select_coll_by_fields bs mc mp db coll query proj msg =
     select_with mc mp db coll query (Some proj) (GetVecRecord bs) msg"

text \<open>\<^verbatim>\<open>find_coll\<close> returns from inside the loop, before the cursor is destroyed and the client pushed.\<close>

partial_function (option) find_loop :: "('b, 'w) mongoc \<Rightarrow> nat \<Rightarrow> 'w \<Rightarrow> (bool \<times> 'w) option" where
  "find_loop mc cursor w =
     (let (err, w1) = mc_error mc cursor w
      in if err then Some (False, w1)
         else let (more, w2) = mc_more mc cursor w1
              in if \<not> more then Some (False, w2)
                 else (case mc_next mc cursor w2 of
                         (None, w3) \<Rightarrow> find_loop mc cursor w3
                       | (Some d, w3) \<Rightarrow> Some (True, w3)))"

definition pool_find_coll ::
  "('b, 'w) mongoc \<Rightarrow> mongo_pool \<Rightarrow> string \<Rightarrow> string \<Rightarrow> 'b \<Rightarrow> 'w \<Rightarrow> (bool \<times> 'w) run" where
  "pool_find_coll mc mp db coll query w =
     (case m_pool mp of
        None \<Rightarrow> Some (Inl NullDeref)
      | Some pool \<Rightarrow>
          (case mc_pop mc pool w of
             (None, w1) \<Rightarrow> Some (Inr (False, w1))
           | (Some client, w1) \<Rightarrow>
               let (cursor, w2) = mc_find mc client db coll query None w1
               in (case find_loop mc cursor w2 of
                     None \<Rightarrow> None
                   | Some (True, w3) \<Rightarrow> Some (Inr (True, w3))
                   | Some (False, w3) \<Rightarrow>
                       Some (Inr (False, mc_push mc pool client (mc_cursor_destroy mc cursor w3))))))"


section \<open>DBIOMongoDB\<close>

text \<open>Appending the entries of a map in iteration order, as every operation does.\<close>

definition append_map :: "'b bson_api \<Rightarrow> record_map \<Rightarrow> 'b \<Rightarrow> 'b" where
  "append_map bs m doc = foldl (\<lambda>d (k, v). bs_utf8 bs d (c_str k) (c_str v)) doc m"

type_synonym mongo_db = "mongo_pool option"

text \<open>The operations dereference \<^verbatim>\<open>m_mongodb_ptr\<close>, which is null before \<^verbatim>\<open>mongodb_init\<close>.\<close>

definition deref_db :: "mongo_db \<Rightarrow> (mongo_pool \<Rightarrow> 'a res) \<Rightarrow> 'a res" where
  "deref_db db f = (case db of None \<Rightarrow> Inl NullDeref | Some mp \<Rightarrow> f mp)"

definition deref_db_run :: "mongo_db \<Rightarrow> (mongo_pool \<Rightarrow> 'a run) \<Rightarrow> 'a run" where
  "deref_db_run db f = (case db of None \<Rightarrow> Some (Inl NullDeref) | Some mp \<Rightarrow> f mp)"

definition mongodb_init :: "('b, 'w) mongoc \<Rightarrow> string \<Rightarrow> 'w \<Rightarrow> (bool \<times> mongo_db \<times> 'w) res" where
  "mongodb_init mc url w =
     bind_res (pool_mongodb_init mc url mk_MongoDBConnectionPool w) (\<lambda>(mp, w1). Inr (True, Some mp, w1))"

definition mongodb_cleanup :: "('b, 'w) mongoc \<Rightarrow> mongo_db \<Rightarrow> 'w \<Rightarrow> (bool \<times> 'w) res" where
  "mongodb_cleanup mc db w = deref_db db (\<lambda>mp. Inr (destory_client_pool mc mp w))"

definition select_all ::
  "'b bson_api \<Rightarrow> ('b, 'w) mongoc \<Rightarrow> mongo_db \<Rightarrow> string \<Rightarrow> string \<Rightarrow> string \<Rightarrow> record_map list \<Rightarrow> 'w
     \<Rightarrow> (bool \<times> record_map list \<times> 'w) run" where
  "select_all bs mc db dbname coll ident msg w =
     deref_db_run db (\<lambda>mp. pool_select_coll bs mc mp dbname coll (bs_new bs) msg w)"

definition insert_coll ::
  "'b bson_api \<Rightarrow> ('b, 'w) mongoc \<Rightarrow> mongo_db \<Rightarrow> string \<Rightarrow> string \<Rightarrow> record_map \<Rightarrow> 'w \<Rightarrow> (bool \<times> 'w) res" where
  "insert_coll bs mc db dbname coll map_data w =
     deref_db db (\<lambda>mp. pool_insert_coll mc mp dbname coll (append_map bs map_data (bs_new bs)) w)"

definition delete_coll ::
  "'b bson_api \<Rightarrow> ('b, 'w) mongoc \<Rightarrow> mongo_db \<Rightarrow> string \<Rightarrow> string \<Rightarrow> record_map \<Rightarrow> 'w \<Rightarrow> (bool \<times> 'w) res" where
  "delete_coll bs mc db dbname coll map_data w =
     (if length map_data < 1 then Inr (False, w)
      else deref_db db (\<lambda>mp. pool_delete_coll mc mp dbname coll (append_map bs map_data (bs_new bs)) w))"

definition update_coll ::
  "'b bson_api \<Rightarrow> ('b, 'w) mongoc \<Rightarrow> mongo_db \<Rightarrow> string \<Rightarrow> string \<Rightarrow> record_map \<Rightarrow> record_map \<Rightarrow> 'w \<Rightarrow> (bool \<times> 'w) res" where
  "update_coll bs mc db dbname coll map_qurey map_data w =
     (if length map_data < 1 \<or> length map_qurey < 1 then Inr (False, w)
      else deref_db db (\<lambda>mp.
        pool_update_coll mc mp dbname coll (append_map bs map_qurey (bs_new bs)) (append_map bs map_data (bs_new bs)) w))"

definition select_coll ::
  "'b bson_api \<Rightarrow> ('b, 'w) mongoc \<Rightarrow> mongo_db \<Rightarrow> string \<Rightarrow> string \<Rightarrow> record_map \<Rightarrow> record_map list \<Rightarrow> 'w
     \<Rightarrow> (bool \<times> record_map list \<times> 'w) run" where
  "select_coll bs mc db dbname coll map_data msg w =
     (if length map_data < 1 then Some (Inr (False, msg, w))
      else deref_db_run db (\<lambda>mp. pool_select_coll bs mc mp dbname coll (append_map bs map_data (bs_new bs)) msg w))"

definition find_coll ::
  "'b bson_api \<Rightarrow> ('b, 'w) mongoc \<Rightarrow> mongo_db \<Rightarrow> string \<Rightarrow> string \<Rightarrow> record_map \<Rightarrow> 'w \<Rightarrow> (bool \<times> 'w) run" where
  "find_coll bs mc db dbname coll map_data w =
     deref_db_run db (\<lambda>mp. pool_find_coll mc mp dbname coll (append_map bs map_data (bs_new bs)) w)"

text \<open>The array of \<^verbatim>\<open>InsertNoticeColl\<close>: one document per map, under the keys \<^verbatim>\<open>"0"\<close>, \<^verbatim>\<open>"1"\<close>, ...\<close>

fun notice_array :: "'b bson_api \<Rightarrow> nat \<Rightarrow> record_map list \<Rightarrow> 'b \<Rightarrow> 'b" where
  "notice_array bs i [] child = child"
| "notice_array bs i (m # ms) child =
     notice_array bs (Suc i) ms (bs_document bs child (dec_nat i) (append_map bs m (bs_new bs)))"

definition notice_doc :: "'b bson_api \<Rightarrow> record_map \<Rightarrow> (string, record_map list) std_map \<Rightarrow> 'b" where
  "notice_doc bs id_map map_data =
     foldl (\<lambda>d (k, ms). bs_array bs d (c_str k) (notice_array bs 0 ms (bs_new bs)))
       (append_map bs id_map (bs_new bs)) map_data"

definition InsertNoticeColl ::
  "'b bson_api \<Rightarrow> ('b, 'w) mongoc \<Rightarrow> mongo_db \<Rightarrow> string \<Rightarrow> string \<Rightarrow> record_map \<Rightarrow> (string, record_map list) std_map
     \<Rightarrow> 'w \<Rightarrow> (bool \<times> 'w) res" where
  "InsertNoticeColl bs mc db dbname coll id_map map_data w =
     (if length map_data < 1 then Inr (False, w)
      else deref_db db (\<lambda>mp. pool_insert_coll mc mp dbname coll (notice_doc bs id_map map_data) w))"

text \<open>The operand of \<^verbatim>\<open>$push\<close> and \<^verbatim>\<open>$pull\<close>: one sub-document per key.\<close>

definition nested_doc :: "'b bson_api \<Rightarrow> (string, record_map) std_map \<Rightarrow> 'b" where
  "nested_doc bs map_data =
     foldl (\<lambda>d (k, m). bs_document bs d (c_str k) (append_map bs m (bs_new bs))) (bs_new bs) map_data"

definition modify_notice ::
  "string \<Rightarrow> 'b bson_api \<Rightarrow> ('b, 'w) mongoc \<Rightarrow> mongo_db \<Rightarrow> string \<Rightarrow> string \<Rightarrow> record_map \<Rightarrow> (string, record_map) std_map
     \<Rightarrow> 'w \<Rightarrow> (bool \<times> 'w) res" where
  "modify_notice oper bs mc db dbname coll id_map map_data w =
     (if length map_data < 1 then Inr (False, w)
      else deref_db db (\<lambda>mp.
        pool_update_coll mc mp dbname coll (append_map bs id_map (bs_new bs))
          (bs_document bs (bs_new bs) oper (nested_doc bs map_data)) w))"

definition PushNoticeColl ::
  "'b bson_api \<Rightarrow> ('b, 'w) mongoc \<Rightarrow> mongo_db \<Rightarrow> string \<Rightarrow> string \<Rightarrow> record_map \<Rightarrow> (string, record_map) std_map
     \<Rightarrow> 'w \<Rightarrow> (bool \<times> 'w) res" where
  "PushNoticeColl = modify_notice ''$push''"

definition DelNoticeColl ::
  "'b bson_api \<Rightarrow> ('b, 'w) mongoc \<Rightarrow> mongo_db \<Rightarrow> string \<Rightarrow> string \<Rightarrow> record_map \<Rightarrow> (string, record_map) std_map
     \<Rightarrow> 'w \<Rightarrow> (bool \<times> 'w) res" where
  "DelNoticeColl = modify_notice ''$pull''"

definition SelectNoticeColl ::
  "'b bson_api \<Rightarrow> ('b, 'w) mongoc \<Rightarrow> mongo_db \<Rightarrow> string \<Rightarrow> string \<Rightarrow> record_map \<Rightarrow> string list \<Rightarrow> record_map list \<Rightarrow> 'w
     \<Rightarrow> (bool \<times> record_map list \<times> 'w) run" where
  "SelectNoticeColl bs mc db dbname coll id_map field_map msg w =
     deref_db_run db (\<lambda>mp.
       select_coll_by_fields bs mc mp dbname coll (append_map bs id_map (bs_new bs))
         (foldl (\<lambda>d k. bs_utf8 bs d (c_str k) ''1'') (bs_new bs) field_map) msg w)"

section \<open>What is written is what is read\<close>

text \<open>The documented behaviour of libbson: appended elements are visited in order, last one last.\<close>

definition bson_documented :: "'b bson_api \<Rightarrow> bool" where
  "bson_documented bs \<longleftrightarrow>
     bs_elems bs (bs_new bs) = []
     \<and> (\<forall>d k v. bs_elems bs (bs_utf8 bs d k v) = bs_elems bs d @ [(k, BUtf8 v)])
     \<and> (\<forall>d k a. bs_elems bs (bs_array bs d k a) = bs_elems bs d @ [(k, BArray a)])
     \<and> (\<forall>d k a. bs_elems bs (bs_document bs d k a) = bs_elems bs d @ [(k, BDocument a)])"

lemma bson_documentedD:
  assumes "bson_documented bs"
  shows "bs_elems bs (bs_new bs) = []"
    and "bs_elems bs (bs_utf8 bs d k v) = bs_elems bs d @ [(k, BUtf8 v)]"
    and "bs_elems bs (bs_array bs d k a) = bs_elems bs d @ [(k, BArray a)]"
    and "bs_elems bs (bs_document bs d k a) = bs_elems bs d @ [(k, BDocument a)]"
  using assms unfolding bson_documented_def by blast+

definition nul_free_map :: "record_map \<Rightarrow> bool" where
  "nul_free_map m \<longleftrightarrow> (\<forall>(k, v) \<in> set m. nul_free k \<and> nul_free v)"

lemma append_map_elems:
  assumes "bson_documented bs"
  shows "bs_elems bs (append_map bs m d) = bs_elems bs d @ map (\<lambda>(k, v). (c_str k, BUtf8 (c_str v))) m"
  unfolding append_map_def
  by (induction m arbitrary: d) (auto simp: bson_documentedD(2)[OF assms])

lemma append_map_fresh:
  assumes "bson_documented bs" and "nul_free_map m"
  shows "bs_elems bs (append_map bs m (bs_new bs)) = map (\<lambda>(k, v). (k, BUtf8 v)) m"
  using assms(2) by (auto simp: append_map_elems[OF assms(1)] bson_documentedD(1)[OF assms(1)] nul_free_map_def)

lemma record_loop_utf8:
  "nul_free_map m \<Longrightarrow> record_loop (map (\<lambda>(k, v). (k, BUtf8 v)) m) tmp = map_puts m tmp"
  by (induction m arbitrary: tmp) (auto simp: nul_free_map_def)

text \<open>
  C24. The document that \<open>insert_coll\<close> builds from a map is read back by \<open>GetRecord\<close> as that very map: for
  any BSON library that keeps elements in order, and any \<^verbatim>\<open>std::map\<close> whose strings contain no NUL, the
  one record appended to the result is the map, and an empty map appends nothing.
\<close>

theorem insert_GetRecord_roundtrip:
  assumes "bson_documented bs" and "map_wf m" and "nul_free_map m"
  shows "GetRecord bs (append_map bs m (bs_new bs)) msg = (if m = [] then msg else msg @ [m])"
  by (simp add: GetRecord_def append_map_fresh[OF assms(1,3)] record_loop_utf8[OF assms(3)] map_puts_copy[OF assms(2)])

text \<open>A concrete BSON library.\<close>

datatype jbson = JDoc "(string \<times> jbson bval) list"

fun jelems :: "jbson \<Rightarrow> (string \<times> jbson bval) list" where
  "jelems (JDoc es) = es"

definition jbson_api :: "jbson bson_api" where
  "jbson_api = \<lparr>bs_new = JDoc [], bs_utf8 = (\<lambda>d k v. JDoc (jelems d @ [(k, BUtf8 v)])),
     bs_array = (\<lambda>d k a. JDoc (jelems d @ [(k, BArray a)])),
     bs_document = (\<lambda>d k a. JDoc (jelems d @ [(k, BDocument a)])), bs_elems = jelems\<rparr>"

lemma jbson_documented: "bson_documented jbson_api"
  by (simp add: bson_documented_def jbson_api_def)

theorem insert_GetRecord_roundtrip_witness:
  "GetRecord jbson_api (append_map jbson_api [(''a'', ''1''), (''b'', ''2'')] (bs_new jbson_api)) []
     = [[(''a'', ''1''), (''b'', ''2'')]]"
  using insert_GetRecord_roundtrip[OF jbson_documented, of "[(''a'', ''1''), (''b'', ''2'')]" "[]"]
  by (simp add: map_wf_def less_char_def nul_free_map_def)


text \<open>What reading a list of sub-documents gives: each one on top of the ones before it.\<close>

fun running :: "record_map \<Rightarrow> record_map list \<Rightarrow> record_map list" where
  "running acc [] = []"
| "running acc (m # ms) = map_puts m acc # running (map_puts m acc) ms"

lemma vec_fields_utf8:
  "nul_free_map m \<Longrightarrow> \<exists>val'. vec_fields (map (\<lambda>(k, v). (k, BUtf8 v)) m) val tmp = (val', map_puts m tmp)"
  by (induction m arbitrary: val tmp) (auto simp: nul_free_map_def)

fun array_elems :: "'b bson_api \<Rightarrow> nat \<Rightarrow> record_map list \<Rightarrow> (string \<times> 'b bval) list" where
  "array_elems bs i [] = []"
| "array_elems bs i (m # ms) = (dec_nat i, BDocument (append_map bs m (bs_new bs))) # array_elems bs (Suc i) ms"

lemma notice_array_elems:
  assumes "bson_documented bs"
  shows "bs_elems bs (notice_array bs i ms child) = bs_elems bs child @ array_elems bs i ms"
  by (induction ms arbitrary: i child) (auto simp: bson_documentedD(4)[OF assms])

lemma vec_elems_running:
  fixes bs :: "'b bson_api"
  assumes bs: "bson_documented bs" and "\<forall>m \<in> set ms. nul_free_map m"
  shows "\<exists>ready' val' tmp'. vec_elems bs (array_elems bs i ms) ready val tmp msg
     = Inr (ready', val', tmp', msg @ running tmp ms)"
  using assms(2)
proof (induction ms arbitrary: i ready val tmp msg)
  case Nil
  then show ?case by simp
next
  case (Cons m ms)
  then have m: "nul_free_map m" by simp
  from vec_fields_utf8[OF m, of val tmp] obtain val' where
    "vec_fields (map (\<lambda>(k, v). (k, BUtf8 v :: 'b bval)) m) val tmp = (val', map_puts m tmp)" by blast
  with append_map_fresh[OF bs m] Cons.IH[of "Suc i" True val' "map_puts m tmp" "msg @ [map_puts m tmp]"] Cons.prems
  show ?case by simp
qed

lemma vec_loop_arrays:
  assumes bs: "bson_documented bs" and "\<forall>(k, ms) \<in> set md. \<forall>m \<in> set ms. nul_free_map m"
  shows "vec_loop bs (map (\<lambda>(k, ms). (c_str k, BArray (notice_array bs 0 ms (bs_new bs)))) md) ready val tmp msg
     = Inr (msg @ concat (map (\<lambda>(k, ms). running [] ms) md))"
  using assms(2)
proof (induction md arbitrary: ready val tmp msg)
  case Nil
  then show ?case by simp
next
  case (Cons e md)
  obtain k ms where e: "e = (k, ms)" by fastforce
  with Cons.prems have "\<forall>m \<in> set ms. nul_free_map m" by simp
  from vec_elems_running[OF bs this, of 0 ready val "[]" msg] obtain r' v' t' where
    "vec_elems bs (array_elems bs 0 ms) ready val [] msg = Inr (r', v', t', msg @ running [] ms)" by blast
  with Cons.IH[of r' v' t' "msg @ running [] ms"] Cons.prems e show ?case
    by (simp add: notice_array_elems[OF bs] bson_documentedD(1)[OF bs])
qed

lemma vec_loop_ids:
  "nul_free_map m \<Longrightarrow> \<exists>val' tmp'. vec_loop bs (map (\<lambda>(k, v). (k, BUtf8 v)) m @ es) ready val tmp msg
     = vec_loop bs es ready val' tmp' msg"
proof (induction m arbitrary: val tmp)
  case Nil
  then show ?case by auto
next
  case (Cons e m)
  obtain k v where e: "e = (k, v)" by fastforce
  from Cons.IH[of "c_str v" "map_put (c_str k) (c_str v) tmp"] Cons.prems e show ?case
    by (auto simp: nul_free_map_def)
qed

lemma notice_doc_elems:
  assumes bs: "bson_documented bs"
  shows "bs_elems bs (notice_doc bs ids md) = bs_elems bs (append_map bs ids (bs_new bs))
     @ map (\<lambda>(k, ms). (c_str k, BArray (notice_array bs 0 ms (bs_new bs)))) md"
proof -
  have "bs_elems bs (foldl (\<lambda>d (k, ms). bs_array bs d (c_str k) (notice_array bs 0 ms (bs_new bs))) d md)
      = bs_elems bs d @ map (\<lambda>(k, ms). (c_str k, BArray (notice_array bs 0 ms (bs_new bs)))) md" for d
    by (induction md arbitrary: d) (auto simp: bson_documentedD(3)[OF bs])
  then show ?thesis by (simp add: notice_doc_def)
qed

lemma GetVecRecord_notice:
  assumes "bson_documented bs" and "nul_free_map ids"
    and "\<forall>(k, ms) \<in> set md. \<forall>m \<in> set ms. nul_free_map m"
  shows "GetVecRecord bs (notice_doc bs ids md) msg = Inr (msg @ concat (map (\<lambda>(k, ms). running [] ms) md))"
proof -
  let ?arrays = "map (\<lambda>(k, ms). (c_str k, BArray (notice_array bs 0 ms (bs_new bs)))) md"
  obtain v t where "vec_loop bs (map (\<lambda>(k, v). (k, BUtf8 v)) ids @ ?arrays) False [] [] msg = vec_loop bs ?arrays False v t msg"
    using vec_loop_ids[OF assms(2), of bs ?arrays False "[]" "[]" msg] by blast
  with vec_loop_arrays[OF assms(1,3), of False v t msg] show ?thesis
    by (simp add: GetVecRecord_def notice_doc_elems[OF assms(1)] append_map_fresh[OF assms(1,2)])
qed

text \<open>
  What \<open>GetVecRecord\<close> reads from a document that \<open>InsertNoticeColl\<close> built: the identifying fields
  are skipped, and each array contributes one record per element; a record holds the fields of its
  element on top of the fields of all elements before it in the same array, because the map is
  not cleared in between.
\<close>

theorem notice_GetVecRecord:
  assumes "bson_documented bs" and "nul_free_map ids"
    and "\<forall>(k, ms) \<in> set md. \<forall>m \<in> set ms. nul_free_map m"
  shows "GetVecRecord bs (notice_doc bs ids md) msg = Inr (msg @ concat (map (\<lambda>(k, ms). running [] ms) md))"
  using assms by (rule GetVecRecord_notice)

theorem notice_GetVecRecord_witness:
  "GetVecRecord jbson_api (notice_doc jbson_api [(''id'', ''7'')]
      [(''n'', [[(''a'', ''1''), (''b'', ''2'')], [(''a'', ''3'')]])]) []
   = Inr [[(''a'', ''1''), (''b'', ''2'')], [(''a'', ''3''), (''b'', ''2'')]]"
  using notice_GetVecRecord[OF jbson_documented, of "[(''id'', ''7'')]"
      "[(''n'', [[(''a'', ''1''), (''b'', ''2'')], [(''a'', ''3'')]])]" "[]"]
  by (simp add: nul_free_map_def less_char_def)

lemma map_puts_same_keys:
  assumes "map_wf m" and "map_wf acc" and "set (map fst acc) \<subseteq> set (map fst m)"
  shows "map_puts m acc = m"
proof (rule map_wf_ext)
  have "dom (map_of acc) \<subseteq> dom (map_of m)" using assms(3) by (simp add: dom_map_of_conv_image_fst)
  then have "map_of acc ++ map_of m = map_of m"
    by (auto simp: map_add_def fun_eq_iff split: option.splits)
  then show "map_of (map_puts m acc) = map_of m"
    using assms(1,2) by (simp add: map_of_puts map_of_rev_distinct map_wf_distinct)
qed (use assms in simp_all)

lemma running_same_keys:
  assumes "\<forall>m \<in> set ms. map_wf m \<and> set (map fst m) = K" and "map_wf acc" and "set (map fst acc) \<subseteq> K"
  shows "running acc ms = ms"
  using assms
proof (induction ms arbitrary: acc)
  case (Cons m ms)
  then have "map_puts m acc = m" by (intro map_puts_same_keys) auto
  with Cons show ?case by simp
qed simp

text \<open>
  C25. A notice whose records, within each array, all have the same fields is read back exactly as it was
  inserted: the records of the arrays one after the other.
\<close>

theorem notice_roundtrip:
  assumes "bson_documented bs" and "nul_free_map ids"
    and "\<forall>(k, ms) \<in> set md. \<forall>m \<in> set ms. nul_free_map m"
    and "\<forall>(k, ms) \<in> set md. \<exists>K. \<forall>m \<in> set ms. map_wf m \<and> set (map fst m) = K"
  shows "GetVecRecord bs (notice_doc bs ids md) msg = Inr (msg @ concat (map snd md))"
proof -
  have "running [] ms = ms" if "(k, ms) \<in> set md" for k ms
  proof -
    from bspec[OF assms(4) that] have "\<exists>K. \<forall>m \<in> set ms. map_wf m \<and> set (map fst m) = K" by (simp only: prod.case)
    then obtain K where "\<forall>m \<in> set ms. map_wf m \<and> set (map fst m) = K" ..
    then show ?thesis by (rule running_same_keys) simp_all
  qed
  then have "map (\<lambda>(k, ms). running [] ms) md = map snd md" by (auto intro!: map_cong)
  with GetVecRecord_notice[OF assms(1-3), of msg] show ?thesis by simp
qed

theorem notice_roundtrip_witness:
  "GetVecRecord jbson_api (notice_doc jbson_api [] [(''n'', [[(''a'', ''1'')], [(''a'', ''3'')]])]) []
   = Inr [[(''a'', ''1'')], [(''a'', ''3'')]]"
  using notice_roundtrip[OF jbson_documented, of "[]" "[(''n'', [[(''a'', ''1'')], [(''a'', ''3'')]])]" "[]"]
  by (simp add: nul_free_map_def map_wf_def)


section \<open>Clients are given back\<close>

text \<open>
  \<open>out w\<close> is the number of clients that have been popped and not pushed. \<^verbatim>\<open>mongoc_client_pool_pop\<close> takes
  one, \<^verbatim>\<open>mongoc_client_pool_push\<close> returns one, nothing else touches the pool.
\<close>

definition mongoc_documented :: "('b, 'w) mongoc \<Rightarrow> ('w \<Rightarrow> int) \<Rightarrow> bool" where
  "mongoc_documented mc out \<longleftrightarrow>
     (\<forall>p w w'. mc_pop mc p w = (None, w') \<longrightarrow> out w' = out w)
     \<and> (\<forall>p w c w'. mc_pop mc p w = (Some c, w') \<longrightarrow> out w' = out w + 1)
     \<and> (\<forall>p c w. out (mc_push mc p c w) = out w - 1)
     \<and> (\<forall>c db coll d w. out (snd (mc_insert mc c db coll d w)) = out w)
     \<and> (\<forall>c db coll d w. out (snd (mc_remove mc c db coll d w)) = out w)
     \<and> (\<forall>c db coll d e w. out (snd (mc_update mc c db coll d e w)) = out w)
     \<and> (\<forall>c db coll ds w. out (snd (mc_insert_many mc c db coll ds w)) = out w)
     \<and> (\<forall>c db coll q f w cur w'. mc_find mc c db coll q f w = (cur, w') \<longrightarrow> out w' = out w)
     \<and> (\<forall>cur w b w'. mc_error mc cur w = (b, w') \<longrightarrow> out w' = out w)
     \<and> (\<forall>cur w b w'. mc_more mc cur w = (b, w') \<longrightarrow> out w' = out w)
     \<and> (\<forall>cur w x w'. mc_next mc cur w = (x, w') \<longrightarrow> out w' = out w)
     \<and> (\<forall>cur w. out (mc_cursor_destroy mc cur w) = out w)"

lemma mongoc_documentedD:
  assumes "mongoc_documented mc out"
  shows "mc_pop mc p w = (None, w') \<Longrightarrow> out w' = out w"
    and "mc_pop mc p w = (Some c, w') \<Longrightarrow> out w' = out w + 1"
    and "out (mc_push mc p c w) = out w - 1"
    and "out (snd (mc_insert mc c db coll d w)) = out w"
    and "out (snd (mc_remove mc c db coll d w)) = out w"
    and "out (snd (mc_update mc c db coll d e w)) = out w"
    and "out (snd (mc_insert_many mc c db coll ds w)) = out w"
    and "mc_find mc c db coll q f w = (cur, w') \<Longrightarrow> out w' = out w"
    and "mc_error mc cur w = (b, w') \<Longrightarrow> out w' = out w"
    and "mc_more mc cur w = (b, w') \<Longrightarrow> out w' = out w"
    and "mc_next mc cur w = (x, w') \<Longrightarrow> out w' = out w"
    and "out (mc_cursor_destroy mc cur w) = out w"
  using assms unfolding mongoc_documented_def by metis+

lemma with_client_balance:
  assumes "mongoc_documented mc out" and "\<And>c w. out (snd (body c w)) = out w"
    and "with_client mc mp body w = Inr (ok, w')"
  shows "out w' = out w"
proof -
  obtain pool where p: "m_pool mp = Some pool" using assms(3) by (auto simp: with_client_def split: option.splits)
  obtain x w1 where x: "mc_pop mc pool w = (x, w1)" by fastforce
  show ?thesis
  proof (cases x)
    case None
    with assms(3) p x mongoc_documentedD(1)[OF assms(1)] show ?thesis by (simp add: with_client_def)
  next
    case (Some c)
    obtain b w2 where b: "body c w1 = (b, w2)" by fastforce
    with assms(3) p x Some have "w' = mc_push mc pool c w2" by (simp add: with_client_def)
    with x Some mongoc_documentedD(2)[OF assms(1)] assms(2)[of c w1] b show ?thesis
      by (simp add: mongoc_documentedD(3)[OF assms(1)])
  qed
qed

lemma cursor_loop_balance:
  assumes mc: "mongoc_documented mc out" and "cursor_loop mc cur get doc msg w = Some (Inr (doc', msg', w'))"
  shows "out w' = out w"
proof -
  have "\<forall>doc' msg' w'. r = Inr (doc', msg', w') \<longrightarrow> mongoc_documented mc out \<longrightarrow> out w' = out w"
    if "cursor_loop mc cur get doc msg w = Some r" for r
    using that
  proof (rule cursor_loop.raw_induct[rotated, where
      P = "\<lambda>mc cur get doc msg w r. \<forall>doc' msg' w'. r = Inr (doc', msg', w') \<longrightarrow> mongoc_documented mc out \<longrightarrow> out w' = out w"])
    fix loop :: "('a, 'b) mongoc \<Rightarrow> nat \<Rightarrow> ('a \<Rightarrow> 'c \<Rightarrow> 'c res) \<Rightarrow> doc_var \<Rightarrow> 'c \<Rightarrow> 'b \<Rightarrow> (doc_var \<times> 'c \<times> 'b) run"
      and mc cur get doc msg w r
    assume IH: "\<And>mc cur get doc msg w r. loop mc cur get doc msg w = Some r \<Longrightarrow>
        \<forall>doc' msg' w'. r = Inr (doc', msg', w') \<longrightarrow> mongoc_documented mc out \<longrightarrow> out w' = out w"
      and body: "(let (err, w1) = mc_error mc cur w
        in if err then Some (Inr (doc, msg, w1))
           else let (more, w2) = mc_more mc cur w1
                in if \<not> more then Some (Inr (doc, msg, w2))
                   else (case mc_next mc cur w2 of
                           (None, w3) \<Rightarrow> loop mc cur get DocNull msg w3
                         | (Some d, w3) \<Rightarrow>
                             (case get d msg of
                                Inl e \<Rightarrow> Some (Inl e)
                              | Inr msg' \<Rightarrow> loop mc cur get DocOwned msg' w3))) = Some r"
    show "\<forall>doc' msg' w'. r = Inr (doc', msg', w') \<longrightarrow> mongoc_documented mc out \<longrightarrow> out w' = out w"
    proof (intro allI impI)
      fix doc' msg' w' assume r: "r = Inr (doc', msg', w')" and mc: "mongoc_documented mc out"
      obtain err w1 more w2 x w3 where c: "mc_error mc cur w = (err, w1)" "mc_more mc cur w1 = (more, w2)"
        "mc_next mc cur w2 = (x, w3)" by (meson surj_pair)
      have o: "out w1 = out w" "out w2 = out w" "out w3 = out w"
        using mongoc_documentedD(9-11)[OF mc] c by metis+
      show "out w' = out w"
        using body c o r IH[of mc cur get DocNull msg w3] IH[of mc cur get DocOwned _ w3] mc
        by (cases x) (auto split: if_splits sum.splits)
    qed
  qed
  with assms show ?thesis by blast
qed


lemma select_balance:
  assumes mc: "mongoc_documented mc out"
    and run: "select_with mc mp db coll q proj get msg w = Some (Inr (ok, msg', w'))"
  shows "out w' = out w"
proof -
  obtain pool where p: "m_pool mp = Some pool" using run by (auto simp: select_with_def split: option.splits)
  obtain x w1 where x: "mc_pop mc pool w = (x, w1)" by fastforce
  show ?thesis
  proof (cases x)
    case None
    with run p x mongoc_documentedD(1)[OF mc] show ?thesis by (simp add: select_with_def)
  next
    case (Some c)
    obtain cur w2 where f: "mc_find mc c db coll q proj w1 = (cur, w2)" by fastforce
    with run p x Some obtain doc m3 w3 where l: "cursor_loop mc cur get DocUninit msg w2 = Some (Inr (doc, m3, w3))"
      by (auto simp: select_with_def bind_run_def split: option.splits sum.splits)
    obtain err w4 where e: "mc_error mc cur w3 = (err, w4)" by fastforce
    with run p x Some f l have "w' = mc_push mc pool c (mc_cursor_destroy mc cur w4)"
      by (simp add: select_with_def) (auto simp: delete_doc_def split: doc_var.splits)
    then show ?thesis
      using mongoc_documentedD(2)[OF mc, of pool w c w1] mongoc_documentedD(8,9)[OF mc] cursor_loop_balance[OF mc l] x Some f e
      by (simp add: mongoc_documentedD(3,12)[OF mc])
  qed
qed

lemma find_loop_balance:
  assumes mc: "mongoc_documented mc out" and "find_loop mc cur w = Some (b, w')"
  shows "out w' = out w"
proof -
  have "mongoc_documented mc out \<longrightarrow> out (snd r) = out w" if "find_loop mc cur w = Some r" for r
    using that
  proof (rule find_loop.raw_induct[rotated, where P = "\<lambda>mc cur w r. mongoc_documented mc out \<longrightarrow> out (snd r) = out w"])
    fix loop :: "('a, 'b) mongoc \<Rightarrow> nat \<Rightarrow> 'b \<Rightarrow> (bool \<times> 'b) option" and mc cur w r
    assume IH: "\<And>mc cur w r. loop mc cur w = Some r \<Longrightarrow> mongoc_documented mc out \<longrightarrow> out (snd r) = out w"
      and body: "(let (err, w1) = mc_error mc cur w
        in if err then Some (False, w1)
           else let (more, w2) = mc_more mc cur w1
                in if \<not> more then Some (False, w2)
                   else (case mc_next mc cur w2 of
                           (None, w3) \<Rightarrow> loop mc cur w3
                         | (Some d, w3) \<Rightarrow> Some (True, w3))) = Some r"
    show "mongoc_documented mc out \<longrightarrow> out (snd r) = out w"
    proof
      assume mc: "mongoc_documented mc out"
      obtain err w1 more w2 x w3 where c: "mc_error mc cur w = (err, w1)" "mc_more mc cur w1 = (more, w2)"
        "mc_next mc cur w2 = (x, w3)" by (meson surj_pair)
      have o: "out w1 = out w" "out w2 = out w" "out w3 = out w"
        using mongoc_documentedD(9-11)[OF mc] c by metis+
      show "out (snd r) = out w"
        using body c o IH[of mc cur w3] mc by (cases x; cases r) (auto split: if_splits)
    qed
  qed
  with assms show ?thesis by fastforce
qed

lemma pool_find_balance:
  assumes mc: "mongoc_documented mc out" and run: "pool_find_coll mc mp db coll q w = Some (Inr (ok, w'))"
  shows "out w' = out w \<or> (ok \<and> out w' = out w + 1)" and "ok \<Longrightarrow> out w' = out w + 1"
proof -
  obtain pool where p: "m_pool mp = Some pool" using run by (auto simp: pool_find_coll_def split: option.splits)
  obtain x w1 where x: "mc_pop mc pool w = (x, w1)" by fastforce
  have *: "out w' = out w + (if ok then 1 else 0)"
  proof (cases x)
    case None
    with run p x mongoc_documentedD(1)[OF mc] show ?thesis by (auto simp: pool_find_coll_def)
  next
    case (Some c)
    obtain cur w2 where f: "mc_find mc c db coll q None w1 = (cur, w2)" by fastforce
    with run p x Some obtain b w3 where l: "find_loop mc cur w2 = Some (b, w3)"
      by (auto simp: pool_find_coll_def split: option.splits)
    with run p x Some f have "ok = b" "w' = (if b then w3 else mc_push mc pool c (mc_cursor_destroy mc cur w3))"
      by (auto simp: pool_find_coll_def split: bool.splits)
    then show ?thesis
      using mongoc_documentedD(2)[OF mc, of pool w c w1] mongoc_documentedD(8)[OF mc f] find_loop_balance[OF mc l] x Some
      by (simp add: mongoc_documentedD(3,12)[OF mc])
  qed
  then show "out w' = out w \<or> (ok \<and> out w' = out w + 1)" and "ok \<Longrightarrow> out w' = out w + 1" by auto
qed

text \<open>
  C26. Every write and every select of \<open>MongoDBConnectionPool\<close> that ends normally, successful or not, has
  pushed back the client it popped, over a pool that counts as libmongoc documents it.
\<close>

theorem mongo_clients_returned:
  assumes "mongoc_documented mc out"
  shows "(pool_insert_coll mc mp db coll d w = Inr (ok, w') \<longrightarrow> out w' = out w)
     \<and> (pool_delete_coll mc mp db coll d w = Inr (ok, w') \<longrightarrow> out w' = out w)
     \<and> (pool_update_coll mc mp db coll i d w = Inr (ok, w') \<longrightarrow> out w' = out w)
     \<and> (batch_insert_coll mc mp db coll ds w = Inr (ok, w') \<longrightarrow> out w' = out w)
     \<and> (pool_select_coll bs mc mp db coll q msg w = Some (Inr (ok, msg', w')) \<longrightarrow> out w' = out w)
     \<and> (select_coll_by_fields bs mc mp db coll q proj msg w = Some (Inr (ok, msg', w')) \<longrightarrow> out w' = out w)"
  unfolding pool_insert_coll_def pool_delete_coll_def pool_update_coll_def batch_insert_coll_def
    pool_select_coll_def select_coll_by_fields_def
  by (intro conjI impI)
    (erule select_balance[OF assms]
      | (erule with_client_balance[OF assms, rotated], simp add: mongoc_documentedD(4-7)[OF assms]))+

text \<open>
  A toy libmongoc: the world is the number of clients out, the documents of the collection (every query
  matches all of them), and the position of the cursor (one past the end once exhausted).
\<close>

definition toy_mongoc :: "('b, int \<times> 'b list \<times> nat) mongoc" where
  "toy_mongoc = \<lparr>mc_uri_new = (\<lambda>u w. (Some 1, w)), mc_pool_new = (\<lambda>u w. (2, w)),
     mc_pool_destroy = (\<lambda>p w. w), mc_uri_destroy = (\<lambda>u w. w),
     mc_pop = (\<lambda>p (n, ds, i). (Some 7, (n + 1, ds, i))), mc_push = (\<lambda>p c (n, ds, i). (n - 1, ds, i)),
     mc_insert = (\<lambda>c db coll d (n, ds, i). (True, (n, ds @ [d], i))),
     mc_remove = (\<lambda>c db coll d w. (True, w)), mc_update = (\<lambda>c db coll d e w. (True, w)),
     mc_insert_many = (\<lambda>c db coll es (n, ds, i). (True, (n, ds @ es, i))),
     mc_find = (\<lambda>c db coll q f (n, ds, i). (9, (n, ds, 0))), mc_error = (\<lambda>cur w. (False, w)),
     mc_more = (\<lambda>cur (n, ds, i). (i \<le> length ds, (n, ds, i))),
     mc_next = (\<lambda>cur (n, ds, i). (if i < length ds then Some (ds ! i) else None, (n, ds, i + 1))),
     mc_cursor_destroy = (\<lambda>cur w. w)\<rparr>"

lemma toy_mongoc_documented: "mongoc_documented toy_mongoc fst"
  by (auto simp: mongoc_documented_def toy_mongoc_def)

definition toy_mpool :: mongo_pool where
  "toy_mpool = \<lparr>m_pool = Some 2, m_url = Some 1, m_strurl = ''mongodb://h/''\<rparr>"

theorem mongo_clients_returned_witness:
  "\<exists>w'. pool_insert_coll toy_mongoc toy_mpool ''d'' ''c'' (JDoc []) (0, [], 0) = Inr (True, w') \<and> fst w' = 0"
proof -
  have r: "pool_insert_coll toy_mongoc toy_mpool ''d'' ''c'' (JDoc []) (0, [], 0) = Inr (True, (0, [JDoc []], 0))"
    by (simp add: pool_insert_coll_def with_client_def toy_mpool_def toy_mongoc_def)
  with mongo_clients_returned[OF toy_mongoc_documented, of toy_mpool "''d''" "''c''" "JDoc []" "(0, [], 0)" True "(0, [JDoc []], 0)"]
  show ?thesis by auto
qed

text \<open>
  \<open>find_coll\<close> leaks: whenever it reports that a document was found, the client it popped is still out.
\<close>

theorem find_coll_leaks_client:
  assumes "mongoc_documented mc out" and "find_coll bs mc (Some mp) dbname coll m w = Some (Inr (True, w'))"
  shows "out w' = out w + 1"
  using pool_find_balance(2)[OF assms(1)] assms(2) by (auto simp: find_coll_def deref_db_run_def)

theorem find_coll_leaks_client_witness:
  "\<exists>w'. find_coll jbson_api toy_mongoc (Some toy_mpool) ''d'' ''c'' [] (0, [JDoc []], 0) = Some (Inr (True, w')) \<and> fst w' = 1"
proof -
  have r: "find_coll jbson_api toy_mongoc (Some toy_mpool) ''d'' ''c'' [] (0, [JDoc []], 0)
      = Some (Inr (True, (1, [JDoc []], 1)))"
    by (simp add: find_coll_def deref_db_run_def pool_find_coll_def toy_mpool_def toy_mongoc_def find_loop.simps)
  with find_coll_leaks_client[OF toy_mongoc_documented r] show ?thesis by auto
qed

section \<open>What a select returns\<close>

text \<open>
  A cursor that hands over the documents \<open>ds\<close> and is then exhausted: only the call after the last document
  gives null, and only then is there no more; the result is the world afterwards.
\<close>

fun cursor_yields :: "('b, 'w) mongoc \<Rightarrow> nat \<Rightarrow> 'b list \<Rightarrow> 'w \<Rightarrow> 'w \<Rightarrow> bool" where
  "cursor_yields mc cur [] w w' \<longleftrightarrow>
     (\<exists>w1 w2 w3 w4 w5. mc_error mc cur w = (False, w1) \<and> mc_more mc cur w1 = (True, w2) \<and> mc_next mc cur w2 = (None, w3)
        \<and> mc_error mc cur w3 = (False, w4) \<and> mc_more mc cur w4 = (False, w5) \<and> mc_error mc cur w5 = (False, w'))"
| "cursor_yields mc cur (d # ds) w w' \<longleftrightarrow>
     (\<exists>w1 w2 w3. mc_error mc cur w = (False, w1) \<and> mc_more mc cur w1 = (True, w2) \<and> mc_next mc cur w2 = (Some d, w3)
        \<and> cursor_yields mc cur ds w3 w')"

lemma cursor_loop_yields:
  assumes "cursor_yields mc cur ds w w'"
  shows "\<exists>w''. cursor_loop mc cur (\<lambda>d m. Inr (f d m)) doc msg w = Some (Inr (DocNull, fold f ds msg, w''))
     \<and> mc_error mc cur w'' = (False, w')"
  using assms
proof (induction ds arbitrary: doc msg w)
  case Nil
  then show ?case by (auto simp: cursor_loop.simps)
next
  case (Cons d ds)
  then obtain w1 w2 w3 where "mc_error mc cur w = (False, w1)" "mc_more mc cur w1 = (True, w2)"
    "mc_next mc cur w2 = (Some d, w3)" and y: "cursor_yields mc cur ds w3 w'" by auto
  with Cons.IH[OF y, of DocOwned "f d msg"] show ?case by (subst cursor_loop.simps) simp
qed

text \<open>
  C27. A select on a cursor that yields the documents \<open>ds\<close> and is then exhausted returns, reports success,
  appends the record of every document in order, and leaves \<^verbatim>\<open>doc\<close> null, so that the \<^verbatim>\<open>delete\<close> after the loop
  does no harm.
\<close>

theorem select_returns_all:
  assumes "m_pool mp = Some pool" and "mc_pop mc pool w = (Some c, w1)"
    and "mc_find mc c db coll q None w1 = (cur, w2)" and "cursor_yields mc cur ds w2 w3"
  shows "pool_select_coll bs mc mp db coll q msg w
     = Some (Inr (True, fold (GetRecord bs) ds msg, mc_push mc pool c (mc_cursor_destroy mc cur w3)))"
proof -
  obtain w4 where "cursor_loop mc cur (\<lambda>d m. Inr (GetRecord bs d m)) DocUninit msg w2 = Some (Inr (DocNull, fold (GetRecord bs) ds msg, w4))"
    "mc_error mc cur w4 = (False, w3)" using cursor_loop_yields[OF assms(4), where f = "GetRecord bs"] by blast
  with assms(1-3) show ?thesis by (simp add: pool_select_coll_def select_with_def delete_doc_def)
qed

theorem select_returns_all_witness:
  "\<exists>w'. pool_select_coll jbson_api toy_mongoc toy_mpool ''d'' ''c'' (JDoc []) [] (0, [JDoc [(''a'', BUtf8 ''1'')]], 0)
     = Some (Inr (True, [[(''a'', ''1'')]], w'))"
proof -
  let ?d = "JDoc [(''a'', BUtf8 ''1'')]"
  have y: "cursor_yields toy_mongoc 9 [?d] (1, [?d], 0) (1, [?d], 2)" by (simp add: toy_mongoc_def)
  have "GetRecord jbson_api ?d [] = [[(''a'', ''1'')]]" by (simp add: GetRecord_def jbson_api_def c_str_def)
  then show ?thesis
    using select_returns_all[OF _ _ _ y, of toy_mpool 2 "(0, [?d], 0)" 7 "(1, [?d], 0)" "''d''" "''c''" "JDoc []" jbson_api "[]"]
    by (simp add: toy_mpool_def) (simp add: toy_mongoc_def)
qed

text \<open>When the loop is not entered at all, \<^verbatim>\<open>doc\<close> is read uninitialised.\<close>

lemma select_uninitialised_doc:
  assumes "m_pool mp = Some pool" and "mc_pop mc pool w = (Some c, w1)"
    and "mc_find mc c db coll q None w1 = (cur, w2)" and "mc_error mc cur w2 = (True, w3)"
  shows "pool_select_coll bs mc mp db coll q msg w = Some (Inl OutOfBounds)"
  using assms by (simp add: pool_select_coll_def select_with_def delete_doc_def cursor_loop.simps split: prod.splits)

end
