(* ===== verification/MongoTypes.thy ===== *)
theory MongoTypes
  imports MongoC
begin

text \<open>
  A type system for the documents of mong-c-test/src/dbio_mongodb.cpp. BSON values are dynamically typed and
  \<open>GetVecRecord\<close> descends into arrays without looking at what they hold: on an array of plain strings it reads an
  iterator that was never initialised. A type says which values may stand in a document; the lemmas show that every
  document the client builds has the type its readers expect, and that well-typed documents are read without a fault.
\<close>

section \<open>Types\<close>

text \<open>
  \<open>TText\<close>: a string; \<open>TArray t\<close> and \<open>TDocument t\<close>: an array, a document whose elements all have type \<open>t\<close>; \<open>TEither\<close>: a union.
\<close>

datatype bson_ty = TText | TArray bson_ty | TDocument bson_ty | TEither bson_ty bson_ty

primrec has_ty :: "'b bson_api \<Rightarrow> bson_ty \<Rightarrow> 'b bval \<Rightarrow> bool" where
  "has_ty bs TText x = (case x of BUtf8 _ \<Rightarrow> True | _ \<Rightarrow> False)"
| "has_ty bs (TArray t) x = (case x of BArray a \<Rightarrow> list_all (\<lambda>(k, y). has_ty bs t y) (bs_elems bs a) | _ \<Rightarrow> False)"
| "has_ty bs (TDocument t) x = (case x of BDocument d \<Rightarrow> list_all (\<lambda>(k, y). has_ty bs t y) (bs_elems bs d) | _ \<Rightarrow> False)"
| "has_ty bs (TEither s t) x = (has_ty bs s x \<or> has_ty bs t x)"

definition doc_ty :: "'b bson_api \<Rightarrow> bson_ty \<Rightarrow> 'b \<Rightarrow> bool" where
  "doc_ty bs t d = list_all (\<lambda>(k, x). has_ty bs t x) (bs_elems bs d)"

text \<open>The documents of \<open>InsertNoticeColl\<close> hold strings and arrays of records.\<close>

definition notice_ty :: bson_ty where
  "notice_ty = TEither TText (TArray (TDocument TText))"

lemma has_ty_iff [simp]:
  "has_ty bs TText x \<longleftrightarrow> (\<exists>v. x = BUtf8 v)"
  "has_ty bs (TArray t) x \<longleftrightarrow> (\<exists>a. x = BArray a \<and> doc_ty bs t a)"
  "has_ty bs (TDocument t) x \<longleftrightarrow> (\<exists>d. x = BDocument d \<and> doc_ty bs t d)"
  by (auto simp: doc_ty_def split: bval.splits)

declare has_ty.simps(1-3) [simp del]

lemma doc_ty_all: "doc_ty bs t d \<longleftrightarrow> (\<forall>(k, x) \<in> set (bs_elems bs d). has_ty bs t x)"
  by (simp add: doc_ty_def list_all_iff)

section \<open>What is written is well typed\<close>

lemma append_map_typed: "bson_documented bs \<Longrightarrow> doc_ty bs TText (append_map bs m (bs_new bs))"
  by (auto simp: doc_ty_all append_map_elems bson_documentedD(1))

lemma array_elems_typed:
  "bson_documented bs \<Longrightarrow> (k, x) \<in> set (array_elems bs i ms) \<Longrightarrow> has_ty bs (TDocument TText) x"
  by (induction ms arbitrary: i) (auto simp: append_map_typed)

lemma notice_array_typed:
  "bson_documented bs \<Longrightarrow> doc_ty bs (TDocument TText) (notice_array bs i ms (bs_new bs))"
  unfolding doc_ty_all using array_elems_typed by (fastforce simp: notice_array_elems bson_documentedD(1))

lemma notice_doc_typed:
  assumes "bson_documented bs"
  shows "doc_ty bs notice_ty (notice_doc bs ids md)"
  using append_map_typed[OF assms, of ids] notice_array_typed[OF assms, of 0]
  unfolding notice_ty_def doc_ty_all[of bs "TEither _ _"] doc_ty_all[of bs TText]
  by (auto simp: notice_doc_elems[OF assms])

lemma nested_doc_typed:
  assumes "bson_documented bs"
  shows "doc_ty bs (TDocument TText) (nested_doc bs md)"
proof -
  have "bs_elems bs (foldl (\<lambda>d (k, m). bs_document bs d (c_str k) (append_map bs m (bs_new bs))) d md)
      = bs_elems bs d @ map (\<lambda>(k, m). (c_str k, BDocument (append_map bs m (bs_new bs)))) md" for d
    by (induction md arbitrary: d) (auto simp: bson_documentedD(4)[OF assms])
  then have "bs_elems bs (nested_doc bs md) = map (\<lambda>(k, m). (c_str k, BDocument (append_map bs m (bs_new bs)))) md"
    by (simp add: nested_doc_def bson_documentedD(1)[OF assms])
  then show ?thesis
    using append_map_typed[OF assms] by (auto simp: doc_ty_all[of bs "TDocument TText"])
qed

section \<open>What is well typed is read without a fault\<close>

text \<open>The number of records a reader takes from a document: one for each element of each array.\<close>

definition record_count :: "'b bson_api \<Rightarrow> 'b \<Rightarrow> nat" where
  "record_count bs d = (\<Sum>(k, x) \<leftarrow> bs_elems bs d. case x of BArray a \<Rightarrow> length (bs_elems bs a) | _ \<Rightarrow> 0)"

lemma vec_elems_typed:
  assumes "list_all (\<lambda>(k, x). has_ty bs (TDocument TText) x) es"
  shows "\<exists>r' v' t' rs. vec_elems bs es ready val tmp msg = Inr (r', v', t', msg @ rs) \<and> length rs = length es"
  using assms
proof (induction es arbitrary: ready val tmp msg)
  case Nil
  then show ?case by simp
next
  case (Cons e es)
  obtain k d where e: "e = (k, BDocument d)" using Cons.prems by (cases e) auto
  obtain v t where f: "vec_fields (bs_elems bs d) val tmp = (v, t)" by fastforce
  obtain r' v' t' rs where "vec_elems bs es True v t (msg @ [t]) = Inr (r', v', t', (msg @ [t]) @ rs)" "length rs = length es"
    using Cons.IH[of True v t "msg @ [t]"] Cons.prems by auto
  with e f have "vec_elems bs (e # es) ready val tmp msg = Inr (r', v', t', msg @ t # rs) \<and> length (t # rs) = length (e # es)"
    by simp
  then show ?case by blast
qed

lemma vec_loop_typed:
  assumes "list_all (\<lambda>(k, x). has_ty bs notice_ty x) es"
  shows "\<exists>rs. vec_loop bs es ready val tmp msg = Inr (msg @ rs)
     \<and> length rs = (\<Sum>(k, x) \<leftarrow> es. case x of BArray a \<Rightarrow> length (bs_elems bs a) | _ \<Rightarrow> 0)"
  using assms
proof (induction es arbitrary: ready val tmp msg)
  case Nil
  then show ?case by simp
next
  case (Cons e es)
  then have IH: "\<exists>rs. vec_loop bs es r v t m = Inr (m @ rs)
     \<and> length rs = (\<Sum>(k, x) \<leftarrow> es. case x of BArray a \<Rightarrow> length (bs_elems bs a) | _ \<Rightarrow> 0)" for r v t m by simp
  obtain k x where e: "e = (k, x)" by fastforce
  with Cons.prems have x: "has_ty bs notice_ty x" by simp
  show ?case
  proof (cases x)
    case (BArray a)
    with x have "list_all (\<lambda>(k, y). has_ty bs (TDocument TText) y) (bs_elems bs a)"
      by (simp add: notice_ty_def doc_ty_def)
    from vec_elems_typed[OF this, of ready val "[]" msg] obtain r' v' t' rs where
      a: "vec_elems bs (bs_elems bs a) ready val [] msg = Inr (r', v', t', msg @ rs)" "length rs = length (bs_elems bs a)" by blast
    from IH[of r' v' t' "msg @ rs"] obtain rs' where "vec_loop bs es r' v' t' (msg @ rs) = Inr ((msg @ rs) @ rs')"
      "length rs' = (\<Sum>(k, x) \<leftarrow> es. case x of BArray a \<Rightarrow> length (bs_elems bs a) | _ \<Rightarrow> 0)" by blast
    with a e BArray show ?thesis by (intro exI[of _ "rs @ rs'"]) simp
  qed (use IH e x in \<open>auto simp: notice_ty_def\<close>)
qed

lemma GetVecRecord_typed:
  assumes "doc_ty bs notice_ty d"
  shows "\<exists>rs. GetVecRecord bs d msg = Inr (msg @ rs) \<and> length rs = record_count bs d"
  using vec_loop_typed[of bs "bs_elems bs d"] assms by (simp add: GetVecRecord_def record_count_def doc_ty_def)

text \<open>The hypothesis is needed: an array of plain strings is not read at all.\<close>

lemma GetVecRecord_ill_typed:
  assumes "bs_elems bs d = [(k, BArray a)]" and "bs_elems bs a = [(k', BUtf8 v)]"
  shows "GetVecRecord bs d msg = Inl OutOfBounds" and "\<not> doc_ty bs notice_ty d"
  using assms by (simp_all add: GetVecRecord_def doc_ty_def notice_ty_def)

section \<open>A collection of notices\<close>

text \<open>The loop over the cursor never meets a fault when each document can be stored.\<close>

lemma cursor_loop_stores:
  assumes "cursor_yields mc cur ds w w'"
    and "\<forall>d \<in> set ds. \<forall>m. \<exists>rs. get d m = Inr (m @ rs) \<and> length rs = n d"
  shows "\<exists>rs w''. cursor_loop mc cur get doc msg w = Some (Inr (DocNull, msg @ rs, w''))
     \<and> length rs = (\<Sum>d \<leftarrow> ds. n d) \<and> mc_error mc cur w'' = (False, w')"
  using assms
proof (induction ds arbitrary: doc msg w)
  case Nil
  then show ?case by (auto simp: cursor_loop.simps)
next
  case (Cons d ds)
  then obtain w1 w2 w3 where s: "mc_error mc cur w = (False, w1)" "mc_more mc cur w1 = (True, w2)"
    "mc_next mc cur w2 = (Some d, w3)" and y: "cursor_yields mc cur ds w3 w'" by auto
  from Cons.prems(2) obtain rs where g: "get d msg = Inr (msg @ rs)" "length rs = n d" by (meson list.set_intros(1))
  from Cons.IH[OF y, of DocOwned "msg @ rs"] Cons.prems(2) obtain rs' w'' where
    "cursor_loop mc cur get DocOwned (msg @ rs) w3 = Some (Inr (DocNull, (msg @ rs) @ rs', w''))"
    "length rs' = (\<Sum>d \<leftarrow> ds. n d)" "mc_error mc cur w'' = (False, w')" by auto
  with s g show ?case by (intro exI[of _ "rs @ rs'"]) (subst cursor_loop.simps, simp)
qed


text \<open>A collection with one notice of two records.\<close>

definition demo_notice :: jbson where
  "demo_notice = notice_doc jbson_api [(''id'', ''7'')] [(''n'', [[(''a'', ''1'')], [(''b'', ''2'')]])]"

lemma demo_notice_count: "record_count jbson_api demo_notice = 2"
  by (simp add: record_count_def demo_notice_def bson_documentedD(4)[OF jbson_documented] notice_doc_elems[OF jbson_documented] append_map_elems[OF jbson_documented]
      notice_array_elems[OF jbson_documented] bson_documentedD(1)[OF jbson_documented])


end
