(* ===== verification/MongoCxx.thy ===== *)
theory MongoCxx
  imports MongoC
begin

text \<open>
  The MongoDB client over mongocxx (mongo-cxx-test/src/dbio_mongodb.cpp and the load generators of
  inc/mongo_driver.h and src/main.cpp). mongocxx and bsoncxx are the argument \<open>cx\<close>: a builder and a document
  are of abstract types; a driver call may throw, and a client goes back to the pool when its scope
  ends, by return or by exception. The lemmas show what a select collects from its documents.
\<close>

section \<open>The mongocxx interface\<close>

text \<open>
  \<open>cx_kv\<close> is \<^verbatim>\<open>builder << key << value\<close>; \<open>cx_close\<close> and \<open>cx_finalize\<close> are the builder after \<^verbatim>\<open><< close_document\<close> and
  \<^verbatim>\<open><< finalize\<close>; \<open>cx_view\<close> is \<^verbatim>\<open>builder.view()\<close>. \<open>cx_find\<close> gives the documents the range loop visits.
\<close>

record ('b, 'd, 'w) mongocxx =
  cx_builder :: 'b
  cx_kv :: "'b \<Rightarrow> string \<Rightarrow> string \<Rightarrow> 'b"
  cx_close :: "'b \<Rightarrow> 'b"
  cx_finalize :: "'b \<Rightarrow> 'b"
  cx_view :: "'b \<Rightarrow> 'd"
  cx_elems :: "'d \<Rightarrow> (string \<times> 'd bval) list"
  cx_pool_new :: "string \<Rightarrow> 'w \<Rightarrow> nat res \<times> 'w"
  cx_acquire :: "nat \<Rightarrow> 'w \<Rightarrow> nat \<times> 'w"
  cx_release :: "nat \<Rightarrow> nat \<Rightarrow> 'w \<Rightarrow> 'w"
  cx_insert_one :: "nat \<Rightarrow> string \<Rightarrow> string \<Rightarrow> 'd \<Rightarrow> 'w \<Rightarrow> unit res \<times> 'w"
  cx_delete_one :: "nat \<Rightarrow> string \<Rightarrow> string \<Rightarrow> 'd \<Rightarrow> 'w \<Rightarrow> unit res \<times> 'w"
  cx_update_one :: "nat \<Rightarrow> string \<Rightarrow> string \<Rightarrow> 'd \<Rightarrow> 'd \<Rightarrow> 'w \<Rightarrow> unit res \<times> 'w"
  cx_find :: "nat \<Rightarrow> string \<Rightarrow> string \<Rightarrow> 'd \<Rightarrow> 'w \<Rightarrow> 'd list res \<times> 'w"

section \<open>DBIOMongoDB\<close>

type_synonym cx_db = "nat option"

definition cx_mongodb_init :: "('b, 'd, 'w) mongocxx \<Rightarrow> string \<Rightarrow> cx_db \<Rightarrow> 'w \<Rightarrow> bool res \<times> cx_db \<times> 'w" where
  "cx_mongodb_init cx url db w =
     (case cx_pool_new cx url w of
        (Inl e, w1) \<Rightarrow> (Inl e, db, w1)
      | (Inr p, w1) \<Rightarrow> (Inr True, Some p, w1))"

definition cx_mongodb_cleanup :: "cx_db \<Rightarrow> bool" where
  "cx_mongodb_cleanup db = True"

definition cx_append :: "('b, 'd, 'w) mongocxx \<Rightarrow> record_map \<Rightarrow> 'b" where
  "cx_append cx m = foldl (\<lambda>b (k, v). cx_kv cx b k v) (cx_builder cx) m"

text \<open>Acquire a client, run the call, release the client; an exception passes through.\<close>

definition cx_scoped ::
  "('b, 'd, 'w) mongocxx \<Rightarrow> cx_db \<Rightarrow> (nat \<Rightarrow> 'w \<Rightarrow> 'r res \<times> 'w) \<Rightarrow> 'w \<Rightarrow> 'r res \<times> 'w" where
  "cx_scoped cx db call w =
     (case db of
        None \<Rightarrow> (Inl NullDeref, w)
      | Some pool \<Rightarrow>
          let (client, w1) = cx_acquire cx pool w;
              (r, w2) = call client w1
          in (r, cx_release cx pool client w2))"

definition cx_insert_coll ::
  "('b, 'd, 'w) mongocxx \<Rightarrow> cx_db \<Rightarrow> string \<Rightarrow> string \<Rightarrow> record_map \<Rightarrow> 'w \<Rightarrow> bool res \<times> 'w" where
  "cx_insert_coll cx db dbname coll map_data w =
     (let builder = cx_finalize cx (cx_close cx (cx_append cx map_data));
          (r, w') = cx_scoped cx db (\<lambda>client. cx_insert_one cx client dbname coll (cx_view cx builder)) w
      in (bind_res r (\<lambda>_. Inr True), w'))"

definition cx_delete_coll ::
  "('b, 'd, 'w) mongocxx \<Rightarrow> cx_db \<Rightarrow> string \<Rightarrow> string \<Rightarrow> record_map \<Rightarrow> 'w \<Rightarrow> bool res \<times> 'w" where
  "cx_delete_coll cx db dbname coll map_data w =
     (let builder = cx_finalize cx (cx_append cx map_data);
          (r, w') = cx_scoped cx db (\<lambda>client. cx_delete_one cx client dbname coll (cx_view cx builder)) w
      in (bind_res r (\<lambda>_. Inr True), w'))"

definition cx_update_coll ::
  "('b, 'd, 'w) mongocxx \<Rightarrow> cx_db \<Rightarrow> string \<Rightarrow> string \<Rightarrow> record_map \<Rightarrow> record_map \<Rightarrow> 'w \<Rightarrow> bool res \<times> 'w" where
  "cx_update_coll cx db dbname coll map_qurey map_data w =
     (let query = cx_finalize cx (cx_append cx map_qurey);
          builder = cx_finalize cx (cx_append cx map_data);
          (r, w') = cx_scoped cx db (\<lambda>client.
             cx_update_one cx client dbname coll (cx_view cx query) (cx_view cx builder)) w
      in (bind_res r (\<lambda>_. Inr True), w'))"

fun cx_fields :: "(string \<times> 'd bval) list \<Rightarrow> record_map \<Rightarrow> record_map" where
  "cx_fields [] msg = msg"
| "cx_fields ((k, x) # es) msg =
     (if k = '''' then cx_fields es msg
      else if k = ''_id'' then cx_fields es msg
      else (case x of BUtf8 v \<Rightarrow> cx_fields es (map_put k v msg) | _ \<Rightarrow> cx_fields es msg))"

text \<open>\<open>msg\<close> lives outside the loop over the documents and is not cleared.\<close>

fun cx_collect :: "('b, 'd, 'w) mongocxx \<Rightarrow> 'd list \<Rightarrow> record_map \<Rightarrow> record_map list \<Rightarrow> record_map list" where
  "cx_collect cx [] msg msg_data = msg_data"
| "cx_collect cx (d # ds) msg msg_data =
     (let msg' = cx_fields (cx_elems cx d) msg in cx_collect cx ds msg' (msg_data @ [msg']))"

definition cx_select_coll ::
  "('b, 'd, 'w) mongocxx \<Rightarrow> cx_db \<Rightarrow> string \<Rightarrow> string \<Rightarrow> record_map \<Rightarrow> record_map list \<Rightarrow> 'w
     \<Rightarrow> (bool \<times> record_map list) res \<times> 'w" where
  "cx_select_coll cx db dbname coll map_data msg_data w =
     (let builder = cx_append cx map_data;
          (r, w') = cx_scoped cx db (\<lambda>client. cx_find cx client dbname coll (cx_view cx builder)) w
      in (bind_res r (\<lambda>docs. Inr (True, cx_collect cx docs [] msg_data)), w'))"

definition InsertBatchColl :: "string \<Rightarrow> string \<Rightarrow> record_map list \<Rightarrow> 'w \<Rightarrow> bool \<times> 'w" where
  "InsertBatchColl dbname coll map_data w = (True, w)"

section \<open>Load generators\<close>

text \<open>The loops of \<^verbatim>\<open>main\<close>: \<open>boot\<close> is the long text of the field \<^verbatim>\<open>runboot\<close>.\<close>

definition load_record :: "string \<Rightarrow> nat \<Rightarrow> record_map" where
  "load_record boot i =
     map_put ''id'' (dec_nat i) (map_put ''runboot'' boot (map_put ''msg_id'' ''AE216416-35D5-11EA-AC7C-408D5CC95D15'' []))"

fun cx_worker :: "('b, 'd, 'w) mongocxx \<Rightarrow> cx_db \<Rightarrow> string \<Rightarrow> nat \<Rightarrow> nat \<Rightarrow> 'w \<Rightarrow> unit res \<times> 'w" where
  "cx_worker cx db boot i 0 w = (Inr (), w)"
| "cx_worker cx db boot i (Suc n) w =
     (case cx_insert_coll cx db ''notice111'' ''sites_1411'' (load_record boot i) w of
        (Inl e, w1) \<Rightarrow> (Inl e, w1)
      | (Inr _, w1) \<Rightarrow> cx_worker cx db boot (Suc i) n w1)"

fun mc_worker :: "'b bson_api \<Rightarrow> ('b, 'w) mongoc \<Rightarrow> mongo_db \<Rightarrow> string \<Rightarrow> nat \<Rightarrow> nat \<Rightarrow> 'w \<Rightarrow> 'w res" where
  "mc_worker bs mc db boot i 0 w = Inr w"
| "mc_worker bs mc db boot i (Suc n) w =
     bind_res (insert_coll bs mc db ''notice111'' ''sites_1411'' (load_record boot i) w)
       (\<lambda>(_, w1). mc_worker bs mc db boot (Suc i) n w1)"

text \<open>
  The loop of \<^verbatim>\<open>testPool\<close> that starts its threads: its condition \<^verbatim>\<open>b = 150\<close> assigns; \<open>spawn\<close> starts a thread.
\<close>

partial_function (option) testPool_spawn :: "('w \<Rightarrow> 'w) \<Rightarrow> int \<Rightarrow> 'w \<Rightarrow> 'w option" where
  "testPool_spawn spawn b w =
     (let b' = 150 in if b' = (0 :: int) then Some w else testPool_spawn spawn (b' + 1) (spawn w))"

text \<open>
  The document that \<^verbatim>\<open>test\<close> and \<^verbatim>\<open>testPool\<close> of mongo_driver.h insert, three times per turn, and their loops: \<open>dat\<close> is the name
  of the second field and \<open>boot\<close> its long text; \<open>colls\<close> are the three collections. An exception ends the loop.
\<close>

definition driver_doc :: "('b, 'd, 'w) mongocxx \<Rightarrow> string \<Rightarrow> string \<Rightarrow> 'd" where
  "driver_doc cx dat boot =
     cx_view cx (cx_kv cx (cx_kv cx (cx_builder cx) ''msg_id'' ''AE216416-35D5-11EA-AC7C-408D5CC95D15'') dat boot)"

fun insert_each :: "('b, 'd, 'w) mongocxx \<Rightarrow> nat \<Rightarrow> string \<Rightarrow> 'd \<Rightarrow> string list \<Rightarrow> 'w \<Rightarrow> unit res \<times> 'w" where
  "insert_each cx client db d [] w = (Inr (), w)"
| "insert_each cx client db d (c # cs) w =
     (case cx_insert_one cx client db c d w of
        (Inl e, w1) \<Rightarrow> (Inl e, w1)
      | (Inr _, w1) \<Rightarrow> insert_each cx client db d cs w1)"

fun driver_test_loop :: "('b, 'd, 'w) mongocxx \<Rightarrow> nat \<Rightarrow> string \<Rightarrow> nat \<Rightarrow> 'w \<Rightarrow> unit res \<times> 'w" where
  "driver_test_loop cx client boot 0 w = (Inr (), w)"
| "driver_test_loop cx client boot (Suc n) w =
     (case insert_each cx client ''notice_set'' (driver_doc cx ''runboot'' boot) [''test'', ''test1'', ''test2''] w of
        (Inl e, w1) \<Rightarrow> (Inl e, w1)
      | (Inr _, w1) \<Rightarrow> driver_test_loop cx client boot n w1)"

text \<open>\<^verbatim>\<open>threadFunc\<close> also counts into the two shared integers.\<close>

fun testPool_worker ::
  "('b, 'd, 'w) mongocxx \<Rightarrow> nat \<Rightarrow> string \<Rightarrow> string \<Rightarrow> nat \<Rightarrow> int \<times> int \<Rightarrow> 'w \<Rightarrow> unit res \<times> (int \<times> int) \<times> 'w" where
  "testPool_worker cx client dbname boot 0 nums w = (Inr (), nums, w)"
| "testPool_worker cx client dbname boot (Suc n) nums w =
     (case insert_each cx client dbname (driver_doc cx ''msg_data'' boot) [''notice'', ''202004'', ''notice_mob''] w of
        (Inl e, w1) \<Rightarrow> (Inl e, nums, w1)
      | (Inr _, w1) \<Rightarrow> testPool_worker cx client dbname boot n (fst nums + 3, snd nums + 3) w1)"

text \<open>
  The two functions as a whole. \<open>connect\<close> is the constructor of \<^verbatim>\<open>mongocxx::client\<close>, which may throw; \<open>spawn\<close> starts a thread that
  acquires a client and calls \<^verbatim>\<open>threadFunc\<close> twice.
\<close>

definition driver_test :: "('b, 'd, 'w) mongocxx \<Rightarrow> (string \<Rightarrow> 'w \<Rightarrow> nat res \<times> 'w) \<Rightarrow> string \<Rightarrow> 'w \<Rightarrow> int res \<times> 'w" where
  "driver_test cx connect boot w =
     (case connect ''mongodb://192.168.0.130:30010'' w of
        (Inl e, w1) \<Rightarrow> (Inl e, w1)
      | (Inr client, w1) \<Rightarrow>
          (case driver_test_loop cx client boot 100000000 w1 of
             (Inl e, w2) \<Rightarrow> (Inl e, w2)
           | (Inr _, w2) \<Rightarrow> (Inr 1, w2)))"

definition testPool :: "('b, 'd, 'w) mongocxx \<Rightarrow> (nat \<Rightarrow> 'w \<Rightarrow> 'w) \<Rightarrow> 'w \<Rightarrow> 'w run" where
  "testPool cx spawn w =
     (case cx_pool_new cx ''mongodb://192.168.0.130:30010'' w of
        (Inl e, w1) \<Rightarrow> Some (Inl e)
      | (Inr pool, w1) \<Rightarrow> map_option Inr (testPool_spawn (spawn pool) 0 w1))"

text \<open>When no insert throws, the counters grow by three per turn.\<close>

lemma testPool_worker_counts:
  "testPool_worker cx client dbname boot n nums w = (Inr (), nums', w')
     \<Longrightarrow> nums' = (fst nums + 3 * int n, snd nums + 3 * int n)"
proof (induction n arbitrary: nums w)
  case (Suc n)
  then obtain w1 where "testPool_worker cx client dbname boot n (fst nums + 3, snd nums + 3) w1 = (Inr (), nums', w')"
    by (auto simp del: insert_each.simps split: prod.splits sum.splits)
  from Suc.IH[OF this] show ?case by simp
qed simp

section \<open>What a select collects\<close>

definition user_fields :: "(string \<times> 'd bval) list \<Rightarrow> (string \<times> string) list" where
  "user_fields es = List.map_filter (\<lambda>(k, x). case x of
     BUtf8 v \<Rightarrow> if k = '''' \<or> k = ''_id'' then None else Some (k, v) | _ \<Rightarrow> None) es"

lemma cx_fields_puts: "cx_fields es msg = map_puts (user_fields es) msg"
  by (induction es arbitrary: msg) (auto simp: user_fields_def List.map_filter_simps split: bval.splits)

lemma cx_collect_running:
  "cx_collect cx ds msg msg_data = msg_data @ running msg (map (\<lambda>d. user_fields (cx_elems cx d)) ds)"
  by (induction ds arbitrary: msg msg_data) (simp_all add: cx_fields_puts Let_def)

text \<open>
  A select that does not throw appends one record per document, in order; each record holds the string
  fields of its document (but \<^verbatim>\<open>_id\<close>) on top of the fields of all documents before it, so that a field a
  document lacks keeps the value of an earlier one.
\<close>

theorem cx_select_carries_over:
  assumes "cx_acquire cx pool w = (c, w1)"
    and "cx_find cx c dbname coll (cx_view cx (cx_append cx q)) w1 = (Inr docs, w2)"
  shows "cx_select_coll cx (Some pool) dbname coll q msg_data w
     = (Inr (True, msg_data @ running [] (map (\<lambda>d. user_fields (cx_elems cx d)) docs)), cx_release cx pool c w2)"
  using assms by (simp add: cx_select_coll_def cx_scoped_def cx_collect_running)

text \<open>A driver over a fixed list of documents.\<close>

definition toy_cx :: "(jbson, jbson, jbson list) mongocxx" where
  "toy_cx = \<lparr>cx_builder = JDoc [], cx_kv = (\<lambda>b k v. JDoc (jelems b @ [(k, BUtf8 v)])), cx_close = (\<lambda>b. b),
     cx_finalize = (\<lambda>b. b), cx_view = (\<lambda>b. b), cx_elems = jelems, cx_pool_new = (\<lambda>u w. (Inr 1, w)),
     cx_acquire = (\<lambda>p w. (2, w)), cx_release = (\<lambda>p c w. w),
     cx_insert_one = (\<lambda>c db coll d w. (Inr (), w @ [d])), cx_delete_one = (\<lambda>c db coll d w. (Inr (), w)),
     cx_update_one = (\<lambda>c db coll d e w. (Inr (), w)), cx_find = (\<lambda>c db coll d w. (Inr w, w))\<rparr>"

theorem cx_select_carries_over_witness:
  "cx_select_coll toy_cx (Some 1) ''d'' ''c'' [] []
     [JDoc [(''_id'', BOther), (''a'', BUtf8 ''1'')], JDoc [(''_id'', BOther), (''b'', BUtf8 ''2'')]]
   = (Inr (True, [[(''a'', ''1'')], [(''a'', ''1''), (''b'', ''2'')]]),
      [JDoc [(''_id'', BOther), (''a'', BUtf8 ''1'')], JDoc [(''_id'', BOther), (''b'', BUtf8 ''2'')]])"
proof -
  let ?w = "[JDoc [(''_id'', BOther), (''a'', BUtf8 ''1'')], JDoc [(''_id'', BOther), (''b'', BUtf8 ''2'')]]"
  have "cx_acquire toy_cx 1 ?w = (2, ?w)"
    and "cx_find toy_cx 2 ''d'' ''c'' (cx_view toy_cx (cx_append toy_cx [])) ?w = (Inr ?w, ?w)"
    by (simp_all add: toy_cx_def)
  from cx_select_carries_over[OF this, of "[]"] show ?thesis
    by (simp add: toy_cx_def user_fields_def List.map_filter_simps less_char_def)
qed

lemma testPool_never_ends: "testPool_spawn spawn b w = None"
proof -
  have "False" if "testPool_spawn spawn b w = Some r" for r
    using that by (rule testPool_spawn.raw_induct[rotated, where P = "\<lambda>spawn b w r. False"]) (auto split: if_splits)
  then show ?thesis by (cases "testPool_spawn spawn b w") auto
qed

text \<open>So \<^verbatim>\<open>testPool\<close> starts threads for ever, unless the pool cannot be built.\<close>

lemma testPool_outcome: "testPool cx spawn w = (case fst (cx_pool_new cx ''mongodb://192.168.0.130:30010'' w) of
     Inl e \<Rightarrow> Some (Inl e) | Inr _ \<Rightarrow> None)"
  by (simp add: testPool_def testPool_never_ends split: prod.splits sum.splits)

text \<open>\<open>InsertBatchColl\<close> reports success and does nothing.\<close>

lemma InsertBatchColl_does_nothing: "InsertBatchColl dbname coll docs w = (True, w)"
  by (simp add: InsertBatchColl_def)

end
