(* ===== verification/MongoLoad.thy ===== *)
theory MongoLoad
  imports LoadThreads MongoCxx
begin

text \<open>
  The load generators themselves: \<^verbatim>\<open>main\<close> of mong-c-test, which puts one task into a thread pool of 100 workers and starts
  150 detached threads over the same client object, and \<^verbatim>\<open>main\<close> of mongo-cxx-test, which starts the threads only. Both
  \<^verbatim>\<open>main\<close> functions then sleep for ever. The lemmas show that the threads, in every interleaving, lose no client, and
  that all insertions are made.
\<close>

section \<open>One thread\<close>

text \<open>
  \<open>insert_coll\<close> cut at its calls into libmongoc: pop a client (a null client skips the insertion), insert, push. A pop that has
  to wait for a client is a step that is made later: \<open>mc_pop\<close> is the call at the moment it returns.
\<close>

definition mc_turn ::
  "'b bson_api \<Rightarrow> ('b, 'w) mongoc \<Rightarrow> mongo_db \<Rightarrow> string \<Rightarrow> nat \<Rightarrow> phase \<Rightarrow> 'w \<Rightarrow> (phase \<times> 'w) res option" where
  "mc_turn bs mc db boot n ph w =
     (case ph of
        Insert_at i \<Rightarrow>
          if n \<le> i then None
          else Some (deref_db db (\<lambda>mp.
            (case m_pool mp of
               None \<Rightarrow> Inl NullDeref
             | Some pool \<Rightarrow>
                 (case mc_pop mc pool w of
                    (None, w1) \<Rightarrow> Inr (Insert_at (i + 1), w1)
                  | (Some client, w1) \<Rightarrow> Inr (Holding i client, w1)))))
      | Holding i client \<Rightarrow>
          Some (Inr (Releasing i client,
            snd (mc_insert mc client ''notice111'' ''sites_1411'' (append_map bs (load_record boot i) (bs_new bs)) w)))
      | Releasing i client \<Rightarrow>
          Some (deref_db db (\<lambda>mp.
            (case m_pool mp of
               None \<Rightarrow> Inl NullDeref
             | Some pool \<Rightarrow> Inr (Insert_at (i + 1), mc_push mc pool client w)))))"

text \<open>The same for mongocxx, where the insertion may throw; the exception leaves the thread function.\<close>

definition cx_turn ::
  "('b, 'd, 'w) mongocxx \<Rightarrow> cx_db \<Rightarrow> string \<Rightarrow> nat \<Rightarrow> phase \<Rightarrow> 'w \<Rightarrow> (phase \<times> 'w) res option" where
  "cx_turn cx db boot n ph w =
     (case ph of
        Insert_at i \<Rightarrow>
          if n \<le> i then None
          else Some (case db of
             None \<Rightarrow> Inl NullDeref
           | Some pool \<Rightarrow> let (client, w1) = cx_acquire cx pool w in Inr (Holding i client, w1))
      | Holding i client \<Rightarrow>
          (let builder = cx_finalize cx (cx_close cx (cx_append cx (load_record boot i)))
           in (case cx_insert_one cx client ''notice111'' ''sites_1411'' (cx_view cx builder) w of
                 (Inl e, w1) \<Rightarrow> Some (Inl e)
               | (Inr _, w1) \<Rightarrow> Some (Inr (Releasing i client, w1))))
      | Releasing i client \<Rightarrow>
          Some (case db of
             None \<Rightarrow> Inl NullDeref
           | Some pool \<Rightarrow> Inr (Insert_at (i + 1), cx_release cx pool client w)))"

text \<open>A thread on its own, until it is done.\<close>

inductive alone :: "(phase \<Rightarrow> 'w \<Rightarrow> (phase \<times> 'w) res option) \<Rightarrow> phase \<times> 'w \<Rightarrow> phase \<times> 'w \<Rightarrow> bool" for turn where
  "turn ph w = Some (Inr r) \<Longrightarrow> alone turn (ph, w) r"

text \<open>Cutting the insertions into calls changes nothing for a thread that runs alone: it does what \<open>mc_worker\<close> does.\<close>

lemma mc_turns_insert:
  assumes "insert_coll bs mc (Some mp) ''notice111'' ''sites_1411'' (load_record boot i) w = Inr (ok, w')" and "i < n"
  shows "(alone (mc_turn bs mc (Some mp) boot n))\<^sup>*\<^sup>* (Insert_at i, w) (Insert_at (Suc i), w')"
proof -
  let ?t = "mc_turn bs mc (Some mp) boot n"
  obtain pool where p: "m_pool mp = Some pool"
    using assms(1) by (auto simp: insert_coll_def deref_db_def pool_insert_coll_def with_client_def split: option.splits)
  obtain x w1 where x: "mc_pop mc pool w = (x, w1)" by fastforce
  show ?thesis
  proof (cases x)
    case None
    with assms p x have "w' = w1" "?t (Insert_at i) w = Some (Inr (Insert_at (Suc i), w1))"
      by (simp_all add: insert_coll_def deref_db_def pool_insert_coll_def with_client_def mc_turn_def)
    then show ?thesis by (auto intro: alone.intros r_into_rtranclp)
  next
    case (Some c)
    let ?w2 = "snd (mc_insert mc c ''notice111'' ''sites_1411'' (append_map bs (load_record boot i) (bs_new bs)) w1)"
    have "w' = mc_push mc pool c ?w2"
      using assms(1) p x Some
      by (auto simp: insert_coll_def deref_db_def pool_insert_coll_def with_client_def split: prod.splits)
    moreover have "?t (Insert_at i) w = Some (Inr (Holding i c, w1))" "?t (Holding i c) w1 = Some (Inr (Releasing i c, ?w2))"
      "?t (Releasing i c) ?w2 = Some (Inr (Insert_at (Suc i), mc_push mc pool c ?w2))"
      using assms(2) p x Some by (simp_all add: mc_turn_def deref_db_def)
    ultimately show ?thesis
      using alone.intros[of ?t "Insert_at i" w] alone.intros[of ?t "Holding i c" w1] alone.intros[of ?t "Releasing i c" ?w2]
      by (auto intro: rtranclp.rtrancl_into_rtrancl)
  qed
qed

lemma mc_turns_worker:
  "mc_worker bs mc (Some mp) boot i m w = Inr w' \<Longrightarrow> i + m = n
     \<Longrightarrow> (alone (mc_turn bs mc (Some mp) boot n))\<^sup>*\<^sup>* (Insert_at i, w) (Insert_at n, w')"
proof (induction m arbitrary: i w)
  case 0
  then show ?case by simp
next
  case (Suc m)
  then obtain ok w1 where s: "insert_coll bs mc (Some mp) ''notice111'' ''sites_1411'' (load_record boot i) w = Inr (ok, w1)"
    and r: "mc_worker bs mc (Some mp) boot (Suc i) m w1 = Inr w'" by (auto simp: bind_res_eq_Inr)
  from Suc.IH[OF r] Suc.prems(2) mc_turns_insert[OF s, of n] show ?case by simp
qed

section \<open>The two drivers meet the contract\<close>

text \<open>libmongoc as documented, on a client that has been initialised.\<close>

definition mc_ready :: "('w \<Rightarrow> int) \<Rightarrow> ('b, 'w) mongoc \<times> mongo_pool \<Rightarrow> bool" where
  "mc_ready out d \<longleftrightarrow> mongoc_documented (fst d) out \<and> m_pool (snd d) \<noteq> None"

text \<open>mongocxx: acquiring and releasing count as for libmongoc; \<open>cx_calm\<close> adds that insertions do not throw.\<close>

definition cx_ready :: "('w \<Rightarrow> int) \<Rightarrow> ('b, 'd, 'w) mongocxx \<times> cx_db \<Rightarrow> bool" where
  "cx_ready out d \<longleftrightarrow> snd d \<noteq> None
     \<and> (\<forall>p w. out (snd (cx_acquire (fst d) p w)) = out w + 1)
     \<and> (\<forall>p c w. out (cx_release (fst d) p c w) = out w - 1)
     \<and> (\<forall>c db coll x w. out (snd (cx_insert_one (fst d) c db coll x w)) = out w)"

definition cx_calm :: "('w \<Rightarrow> int) \<Rightarrow> ('b, 'd, 'w) mongocxx \<times> cx_db \<Rightarrow> bool" where
  "cx_calm out d \<longleftrightarrow> cx_ready out d \<and> (\<forall>c db coll x w. \<exists>w'. cx_insert_one (fst d) c db coll x w = (Inr (), w'))"

interpretation mcl: steady_threads "mc_ready out" "\<lambda>d. mc_turn bs (fst d) (Some (snd d)) boot n" out n for out bs boot n
proof
  fix d :: "('b, 'a) mongoc \<times> mongo_pool" and ph ph' :: phase and w w' :: 'a and e
  let ?t = "mc_turn bs (fst d) (Some (snd d)) boot n"
  assume good: "mc_ready out d"
  then obtain pool where p: "m_pool (snd d) = Some pool" by (auto simp: mc_ready_def)
  note doc = mongoc_documentedD(1-4)[of "fst d" out]
  have mc: "mongoc_documented (fst d) out" using good by (simp add: mc_ready_def)
  show "?t ph w = None \<longleftrightarrow> ph = Insert_at n" if "within n ph"
    using that by (auto simp: mc_turn_def split: phase.splits if_splits)
  show "?t ph w \<noteq> Some (Inl e)"
    using p by (auto simp: mc_turn_def deref_db_def split: phase.splits option.splits prod.splits if_splits)
  assume "?t ph w = Some (Inr (ph', w'))"
  then show "within n ph \<Longrightarrow> within n ph'" "calls_left n ph' < calls_left n ph"
    "out w' + of_bool (holding ph) = out w + of_bool (holding ph')"
    using p doc[OF mc]
    by (auto simp: mc_turn_def deref_db_def split: phase.splits option.splits prod.splits if_splits)
qed

interpretation cxl: lent_threads "cx_ready out" "\<lambda>d. cx_turn (fst d) (snd d) boot n" out n for out boot n
proof
  fix d :: "('b, 'c, 'a) mongocxx \<times> cx_db" and ph ph' :: phase and w w' :: 'a
  let ?t = "cx_turn (fst d) (snd d) boot n"
  assume good: "cx_ready out d"
  then obtain pool where p: "snd d = Some pool" by (auto simp: cx_ready_def)
  have doc: "cx_acquire (fst d) q v = (c, v') \<Longrightarrow> out v' = out v + 1" "out (cx_release (fst d) q c v) = out v - 1"
    "cx_insert_one (fst d) c db coll x v = (r, v') \<Longrightarrow> out v' = out v" for q c v v' db coll x r
    using good by (metis cx_ready_def snd_conv)+
  show "?t ph w = None \<longleftrightarrow> ph = Insert_at n" if "within n ph"
    using that by (auto simp: cx_turn_def Let_def split: phase.splits if_splits prod.splits sum.splits)
  assume "?t ph w = Some (Inr (ph', w'))"
  then show "within n ph \<Longrightarrow> within n ph'" "calls_left n ph' < calls_left n ph"
    "out w' + of_bool (holding ph) = out w + of_bool (holding ph')"
    using p doc
    by (auto simp: cx_turn_def Let_def split: phase.splits prod.splits sum.splits if_splits)
qed

interpretation cxs: steady_threads "cx_calm out" "\<lambda>d. cx_turn (fst d) (snd d) boot n" out n for out boot n
proof
  fix d :: "('b, 'c, 'a) mongocxx \<times> cx_db" and ph ph' :: phase and w w' :: 'a and e
  assume good: "cx_calm out d"
  then have r: "cx_ready out d" by (simp add: cx_calm_def)
  note laws = cxl.turn_done[OF r] cxl.turn_within[OF r] cxl.turn_left[OF r] cxl.turn_out[OF r]
  show "cx_turn (fst d) (snd d) boot n ph w = None \<longleftrightarrow> ph = Insert_at n" if "within n ph" using that by (rule laws)
  obtain pool where p: "snd d = Some pool" using r by (auto simp: cx_ready_def)
  have "\<exists>v'. cx_insert_one (fst d) c db coll x v = (Inr (), v')" for c db coll x v
    using good by (simp add: cx_calm_def)
  then show "cx_turn (fst d) (snd d) boot n ph w \<noteq> Some (Inl e)"
    using p by (auto simp: cx_turn_def Let_def split: phase.splits prod.splits sum.splits) (metis Inr_not_Inl prod.inject)
  assume "cx_turn (fst d) (snd d) boot n ph w = Some (Inr (ph', w'))"
  then show "within n ph \<Longrightarrow> within n ph'" "calls_left n ph' < calls_left n ph"
    "out w' + of_bool (holding ph) = out w + of_bool (holding ph')" using laws(2-4) by blast+
qed

section \<open>The programs\<close>

definition load_url :: string where
  "load_url = ''mongodb://192.168.0.224:27017/''"

text \<open>
  \<^verbatim>\<open>main\<close> of mong-c-test up to its last loop: the threads and the task hold copies of \<^verbatim>\<open>api\<close>, which share the pool. The
  result of \<^verbatim>\<open>mongodb_init\<close> is not looked at.
\<close>

definition mong_c_main :: "('b, 'w) mongoc \<Rightarrow> 'w \<Rightarrow> (mongo_db \<times> 'w pooled_load) res" where
  "mong_c_main mc w =
     bind_res (mongodb_init mc load_url w) (\<lambda>(_, db, w1).
     bind_res (enqueue () (mk_ThreadPool 100)) (\<lambda>pool.
       Inr (db, \<lparr>pl_load = \<lparr>ld_world = w1, ld_threads = [], ld_pending = 150, ld_fault = None\<rparr>,
                  pl_pool = pool, pl_task = None\<rparr>)))"

text \<open>\<^verbatim>\<open>main\<close> of mongo-cxx-test: the constructor of the pool may throw.\<close>

definition mongo_cxx_main :: "('b, 'd, 'w) mongocxx \<Rightarrow> 'w \<Rightarrow> (cx_db \<times> 'w load) res" where
  "mongo_cxx_main cx w =
     (case cx_mongodb_init cx (load_url @ ''?minPoolSize=4'') None w of
        (Inl e, _, _) \<Rightarrow> Inl e
      | (Inr _, db, w1) \<Rightarrow> Inr (db, \<lparr>ld_world = w1, ld_threads = [], ld_pending = 150, ld_fault = None\<rparr>))"

interpretation mong_c: machine "pooled_step (mc_turn bs mc (Some mp) boot n)"
  "\<lambda>s. mc_ready out (mc, mp) \<and> pooled_inv out n base ws cnt s" for bs mc mp boot n out base ws cnt
  by unfold_locales (use mcl.pooled_inv_step[of _ "(mc, mp)" for mc mp] in auto)

interpretation mongo_cxx: machine "load_step (cx_turn cx db boot n)"
  "\<lambda>s. cx_ready out (cx, db) \<and> balanced out n base cnt s" for cx db boot n out base cnt
  by unfold_locales (use cxl.balanced_step[of _ "(cx, db)" for cx db] in auto)

lemma mong_c_main_run:
  assumes "mc_uri_new mc load_url w = (Some uri, w1)"
  shows "\<exists>mp w2. m_pool mp \<noteq> None \<and> mong_c_main mc w = Inr (Some mp,
     \<lparr>pl_load = \<lparr>ld_world = w2, ld_threads = [], ld_pending = 150, ld_fault = None\<rparr>,
      pl_pool = (mk_ThreadPool 100)\<lparr>tasks := [()], submitted := [()]\<rparr>, pl_task = None\<rparr>)"
proof -
  obtain pool w2 where p: "mc_pool_new mc uri w1 = (pool, w2)" by fastforce
  have "c_str load_url = load_url" by (simp add: load_url_def c_str_def)
  with assms p show ?thesis
    by (simp add: mong_c_main_def mongodb_init_def pool_mongodb_init_def create_client_pool_def enqueue_def mk_ThreadPool_def)
qed

lemma started_pooled_inv:
  "pooled_inv out n (out w) ws cnt
     \<lparr>pl_load = \<lparr>ld_world = w, ld_threads = [], ld_pending = cnt, ld_fault = None\<rparr>,
      pl_pool = (mk_ThreadPool ws)\<lparr>tasks := [()], submitted := [()]\<rparr>, pl_task = None\<rparr>"
proof -
  have "running_tasks (replicate k Waiting :: unit worker list) = {#}" for k by (induction k) auto
  then show ?thesis by (simp add: pooled_inv_def balanced_def loaders_def tp_inv_def mk_ThreadPool_def)
qed




text \<open>A driver that only counts the clients, and throws on every insertion.\<close>

definition broken_cx :: "(unit, unit, int) mongocxx" where
  "broken_cx = \<lparr>cx_builder = (), cx_kv = (\<lambda>b k v. ()), cx_close = (\<lambda>b. ()), cx_finalize = (\<lambda>b. ()), cx_view = (\<lambda>b. ()),
     cx_elems = (\<lambda>d. []), cx_pool_new = (\<lambda>u w. (Inr 1, w)), cx_acquire = (\<lambda>p w. (7, w + 1)), cx_release = (\<lambda>p c w. w - 1),
     cx_insert_one = (\<lambda>c db coll d w. (Inl (Thrown ''no server''), w)), cx_delete_one = (\<lambda>c db coll d w. (Inr (), w)),
     cx_update_one = (\<lambda>c db coll d e w. (Inr (), w)), cx_find = (\<lambda>c db coll d w. (Inr [], w))\<rparr>"


end
