(* ===== verification/ChatCodec.thy ===== *)
theory ChatCodec
  imports NetBuffer
begin

text \<open>
  The length-prefixed chat protocol of the muduo examples (muduo/chat_server.cc, chat_client.cc). muduo's
  \<open>Buffer\<close> is not part of the repository: its operations are arguments, and what the code relies on is the
  locale \<open>peek_queue\<close>, an extension of \<open>byte_queue\<close>, which the ccnet buffer satisfies too. The lemmas show that
  the receive loop terminates and computes a parser on byte lists, that framed messages survive any
  fragmentation of the stream, and what happens to messages over 64 KiB.
\<close>

section \<open>32-bit integers in network order\<close>

text \<open>A 32-bit load and store on a little-endian machine, and the byte swap of \<^verbatim>\<open>htonl\<close> and \<^verbatim>\<open>ntohl\<close>.\<close>

definition load32 :: "byte list \<Rightarrow> u32" where
  "load32 bs = ucast (bs ! 0) OR push_bit 8 (ucast (bs ! 1)) OR push_bit 16 (ucast (bs ! 2)) OR push_bit 24 (ucast (bs ! 3))"

definition store32 :: "u32 \<Rightarrow> byte list" where
  "store32 x = [ucast x, ucast (drop_bit 8 x), ucast (drop_bit 16 x), ucast (drop_bit 24 x)]"

definition bswap32 :: "u32 \<Rightarrow> u32" where
  "bswap32 x = push_bit 24 (x AND 0xFF) OR push_bit 8 (x AND 0xFF00) OR drop_bit 8 x AND 0xFF00 OR drop_bit 24 x"

definition htonl :: "u32 \<Rightarrow> u32" where
  "htonl = bswap32"

definition ntohl :: "u32 \<Rightarrow> u32" where
  "ntohl = bswap32"

section \<open>The peers\<close>

text \<open>
  The loop of both \<^verbatim>\<open>onMessage\<close> functions: \<open>rd\<close>, \<open>pk\<close> and \<open>get\<close> are \<^verbatim>\<open>readableBytes\<close>, \<^verbatim>\<open>peek\<close> and \<^verbatim>\<open>retrieve\<close>. The result
  is the messages taken out, whether \<^verbatim>\<open>shutdown\<close> was called, and the buffer.
\<close>

partial_function (option) onMessage_loop ::
  "('b \<Rightarrow> int) \<Rightarrow> ('b \<Rightarrow> byte list) \<Rightarrow> (int \<Rightarrow> 'b \<Rightarrow> 'b) \<Rightarrow> 'b \<Rightarrow> byte list list
     \<Rightarrow> (byte list list \<times> bool \<times> 'b) option" where
  "onMessage_loop rd pk get buf msgs =
     (if 4 \<le> rd buf then
        (let be32 = load32 (take 4 (pk buf)); len = sint (ntohl be32)
         in if 65536 < len \<or> len < 0 then Some (msgs, True, buf)
            else if len + 4 \<le> rd buf then
              (let buf1 = get 4 buf; message = take (nat len) (pk buf1)
               in onMessage_loop rd pk get (get len buf1) (msgs @ [message]))
            else Some (msgs, False, buf))
      else Some (msgs, False, buf))"

definition chat_onMessage ::
  "('b \<Rightarrow> int) \<Rightarrow> ('b \<Rightarrow> byte list) \<Rightarrow> (int \<Rightarrow> 'b \<Rightarrow> 'b) \<Rightarrow> 'b \<Rightarrow> (byte list list \<times> bool \<times> 'b) option" where
  "chat_onMessage rd pk get buf = onMessage_loop rd pk get buf []"

text \<open>What \<^verbatim>\<open>ChatServer::send\<close> and \<^verbatim>\<open>ChatClient::write\<close> put on the wire for one message.\<close>

definition frame :: "byte list \<Rightarrow> byte list" where
  "frame msg = (let len = of_nat (length msg) :: u32; be32 = htonl len in store32 be32 @ msg)"

text \<open>\<^verbatim>\<open>connections_\<close> is a \<^verbatim>\<open>std::set\<close>; sends are listed per connection in its order.\<close>

definition chat_onConnection :: "bool \<Rightarrow> 'c::linorder \<Rightarrow> ('c, unit) std_map \<Rightarrow> ('c, unit) std_map" where
  "chat_onConnection connected conn conns = (if connected then map_put conn () conns else map_erase conn conns)"

definition chat_send :: "byte list \<Rightarrow> ('c, unit) std_map \<Rightarrow> ('c \<times> byte list) list" where
  "chat_send msg conns = map (\<lambda>(c, _). (c, frame msg)) conns"

definition server_onMessage ::
  "('b \<Rightarrow> int) \<Rightarrow> ('b \<Rightarrow> byte list) \<Rightarrow> (int \<Rightarrow> 'b \<Rightarrow> 'b) \<Rightarrow> ('c, unit) std_map \<Rightarrow> 'b
     \<Rightarrow> (('c \<times> byte list) list \<times> bool \<times> 'b) option" where
  "server_onMessage rd pk get conns buf =
     map_option (\<lambda>(msgs, down, b). (concat (map (\<lambda>m. chat_send m conns) msgs), down, b)) (chat_onMessage rd pk get buf)"

text \<open>The client: \<^verbatim>\<open>connection_\<close> is null until connected.\<close>

definition client_onConnection :: "bool \<Rightarrow> 'c \<Rightarrow> 'c option \<Rightarrow> 'c option" where
  "client_onConnection connected conn old = (if connected then Some conn else None)"

definition client_write :: "byte list \<Rightarrow> 'c option \<Rightarrow> ('c \<times> byte list) option" where
  "client_write msg connection = map_option (\<lambda>c. (c, frame msg)) connection"

text \<open>\<^verbatim>\<open>main\<close> of the client: the connection state at each line read, and what goes out.\<close>

definition client_main :: "int \<Rightarrow> ('c option \<times> byte list) list \<Rightarrow> (int \<times> ('c \<times> byte list) list) res" where
  "client_main argc input =
     (if argc < 2 then Inr (- 1, [])
      else if argc < 3 then Inl NullDeref
      else Inr (1, List.map_filter (\<lambda>(conn, line). client_write line conn) input))"

section \<open>The protocol on byte lists\<close>

definition msg_len :: "byte list \<Rightarrow> int" where
  "msg_len bs = sint (ntohl (load32 (take 4 bs)))"

function chat_parse :: "byte list \<Rightarrow> byte list list \<times> bool \<times> byte list" where
  "chat_parse bs =
     (if length bs < 4 then ([], False, bs)
      else if 65536 < msg_len bs \<or> msg_len bs < 0 then ([], True, bs)
      else if length bs < nat (msg_len bs) + 4 then ([], False, bs)
      else (case chat_parse (drop (nat (msg_len bs) + 4) bs) of
              (ms, down, rest) \<Rightarrow> (take (nat (msg_len bs)) (drop 4 bs) # ms, down, rest)))"
  by pat_completeness auto
termination by (relation "measure length") auto

declare chat_parse.simps [simp del]

section \<open>Buffers with peek\<close>

locale peek_queue = byte_queue +
  fixes peek :: "'a \<Rightarrow> byte list"
  assumes peek_bytes: "ok b \<Longrightarrow> List.take (length (bytes b)) (peek b) = bytes b"
begin

lemma peek_take: "ok b \<Longrightarrow> n \<le> length (bytes b) \<Longrightarrow> List.take n (peek b) = List.take n (bytes b)"
  using peek_bytes[of b] by (metis min.absorb1 take_take)

lemma loop_parses:
  assumes "ok b" and "chat_parse (bytes b) = (ms, down, rest)"
  shows "\<exists>b'. onMessage_loop readable peek get b acc = Some (acc @ ms, down, b') \<and> ok b' \<and> bytes b' = rest"
  using assms
proof (induction "length (bytes b)" arbitrary: b acc ms rule: less_induct)
  case less
  let ?bs = "bytes b" and ?n = "msg_len (bytes b)"
  have rd: "readable b = int (length ?bs)" using less.prems(1) by (rule readable_eq)
  have len: "sint (ntohl (load32 (List.take 4 (peek b)))) = ?n" if "4 \<le> length ?bs"
    using that peek_take[OF less.prems(1), of 4] by (simp add: msg_len_def)
  consider (short) "length ?bs < 4" | (bad) "4 \<le> length ?bs" "65536 < ?n \<or> ?n < 0"
    | (part) "4 \<le> length ?bs" "\<not> (65536 < ?n \<or> ?n < 0)" "length ?bs < nat ?n + 4"
    | (full) "4 \<le> length ?bs" "\<not> (65536 < ?n \<or> ?n < 0)" "nat ?n + 4 \<le> length ?bs" by linarith
  then show ?case
  proof cases
    case short
    with less.prems rd show ?thesis
      by (subst onMessage_loop.simps) (auto simp: chat_parse.simps[of ?bs])
  next
    case bad
    with less.prems rd len show ?thesis
      by (subst onMessage_loop.simps) (auto simp: chat_parse.simps[of ?bs] Let_def)
  next
    case part
    with less.prems rd len show ?thesis
      by (subst onMessage_loop.simps) (auto simp: chat_parse.simps[of ?bs] Let_def)
  next
    case full
    let ?b1 = "get 4 b" let ?b2 = "get ?n ?b1"
    have b1: "ok ?b1" "bytes ?b1 = drop 4 ?bs" using less.prems(1) by (simp_all add: ok_get bytes_get)
    have b2: "ok ?b2" "bytes ?b2 = drop (nat ?n + 4) ?bs" using b1 full by (simp_all add: ok_get bytes_get)
    have m: "List.take (nat ?n) (peek ?b1) = List.take (nat ?n) (drop 4 ?bs)"
      using peek_take[OF b1(1), of "nat ?n"] b1(2) full by simp
    obtain ms' d r where p: "chat_parse (drop (nat ?n + 4) ?bs) = (ms', d, r)" by (metis prod_cases3)
    with less.prems(2) full have eq: "ms = List.take (nat ?n) (drop 4 ?bs) # ms'" "d = down" "r = rest"
      by (simp_all add: chat_parse.simps[of ?bs])
    have "length (bytes ?b2) < length ?bs" using b2(2) full by simp
    from less.hyps[OF this b2(1), of ms' "acc @ [List.take (nat ?n) (drop 4 ?bs)]"] p b2(2) eq
    obtain b' where "onMessage_loop readable peek get ?b2 (acc @ [List.take (nat ?n) (drop 4 ?bs)]) = Some (acc @ ms, down, b')"
      "ok b'" "bytes b' = rest" by auto
    moreover have "?n + 4 \<le> int (length ?bs)" using full by linarith
    ultimately show ?thesis using full rd len m by (subst onMessage_loop.simps) (simp add: Let_def)
  qed
qed

end

interpretation ccpeek: peek_queue buf_ok buf_bytes readableBytes append_bytes retrieve peek
proof
  fix b assume ok: "buf_ok b"
  have "int (length (buf_bytes b)) = readableBytes b" using ok by (rule length_buf_bytes)
  then show "take (length (buf_bytes b)) (peek b) = buf_bytes b"
    unfolding buf_bytes_def by (metis int_ops(1) nat_int take_take min.idem)
qed

text \<open>
  C13. The receive loop of client and server terminates on every buffer content and does what the parser on
  byte lists does: for any buffer that is a byte queue with \<open>peek\<close>, it delivers the messages the parser
  finds, asks for shutdown exactly when the parser meets an invalid length, and leaves the rest.
\<close>

theorem onMessage_refines_parse:
  assumes "peek_queue ok bytes rd put get pk" and "ok b" and "chat_parse (bytes b) = (ms, down, rest)"
  shows "\<exists>b'. chat_onMessage rd pk get b = Some (ms, down, b') \<and> ok b' \<and> bytes b' = rest"
  using peek_queue.loop_parses[OF assms, of "[]"] by (simp add: chat_onMessage_def)


section \<open>Round trip\<close>

lemma byte_masks: "(0xFF :: u32) = mask 8" "(0xFF00 :: u32) = push_bit 8 (mask 8)"
  by (simp_all add: mask_eq_exp_minus_1 push_bit_eq_mult)

lemma byte_cases:
  assumes "n < (32 :: nat)"
  obtains k where "k < 8" and "n = k" | k where "k < 8" and "n = k + 8"
    | k where "k < 8" and "n = k + 16" | k where "k < 8" and "n = k + 24"
proof -
  have "n < 8 \<or> n - 8 < 8 \<and> n = (n - 8) + 8 \<or> n - 16 < 8 \<and> n = (n - 16) + 16 \<or> n - 24 < 8 \<and> n = (n - 24) + 24"
    using assms by linarith
  then show thesis using that by blast
qed

lemma load_store32: "load32 (store32 x @ bs) = x"
proof (rule bit_word_eqI)
  fix n assume "n < LENGTH(32)"
  then have "n < 32" by simp
  then show "bit (load32 (store32 x @ bs)) n = bit x n"
    by (rule byte_cases) (simp_all add: load32_def store32_def bit_simps add.commute)
qed

lemma bit_bswap32:
  assumes "k < 8"
  shows "bit (bswap32 x) k = bit x (k + 24)" and "bit (bswap32 x) (k + 8) = bit x (k + 16)"
    and "bit (bswap32 x) (k + 16) = bit x (k + 8)" and "bit (bswap32 x) (k + 24) = bit x k"
  using assms by (auto simp: bswap32_def byte_masks bit_simps add.commute dest: bit_imp_le_length)

lemma bswap32_bswap32 [simp]: "bswap32 (bswap32 x) = x"
proof (rule bit_word_eqI)
  fix n assume "n < LENGTH(32)"
  then have "n < 32" by simp
  then show "bit (bswap32 (bswap32 x)) n = bit x n"
    by (rule byte_cases) (simp_all add: bit_bswap32)
qed

lemma length_store32 [simp]: "length (store32 x) = 4"
  by (simp add: store32_def)

lemma take_store32 [simp]: "take 4 (store32 x @ bs) = store32 x"
  by (simp add: store32_def)

lemma msg_len_frame: "length m < 2 ^ 31 \<Longrightarrow> msg_len (frame m @ bs) = int (length m)"
proof -
  assume l: "length m < 2 ^ 31"
  have "sint (of_nat (length m) :: u32) = int (length m)"
    using l by (simp add: sint_sbintrunc' signed_of_nat signed_take_bit_int_eq_self)
  then show ?thesis
    using load_store32[of "htonl (of_nat (length m))" "[]"]
    by (simp add: msg_len_def frame_def htonl_def ntohl_def Let_def)
qed


text \<open>Whatever prefix of a well-formed stream has arrived: the complete messages come out, the rest waits.\<close>

lemma length_frame [simp]: "length (frame m) = length m + 4"
  by (simp add: frame_def Let_def)

lemma drop_frame [simp]: "drop 4 (frame m) = m"
  by (simp add: frame_def Let_def store32_def)

lemma drop_frame_append [simp]: "drop (length m + 4) (frame m @ xs) = xs"
  using drop_append[of "length m + 4" "frame m" xs] by simp

lemma parse_prefix:
  assumes "xs @ ys = concat (map frame ms)" and "\<forall>m \<in> set ms. length m \<le> 65536"
  shows "\<exists>k rest. chat_parse xs = (take k ms, False, rest) \<and> rest @ ys = concat (map frame (drop k ms))
     \<and> (ys = [] \<longrightarrow> k = length ms) \<and> k \<le> length ms"
  using assms
proof (induction ms arbitrary: xs)
  case Nil
  then show ?case by (simp add: chat_parse.simps)
next
  case (Cons m ms)
  let ?stream = "concat (map frame ms)"
  have s: "xs @ ys = frame m @ ?stream" using Cons.prems(1) by simp
  show ?case
  proof (cases "length xs < length m + 4")
    case True
    have p: "chat_parse xs = ([], False, xs)"
    proof (cases "length xs < 4")
      case False
      then have "take 4 xs = take 4 (frame m @ ?stream)" using s by (metis le_add1 not_less take_append append_Nil2 take_0 diff_is_0_eq)
      then have "msg_len xs = int (length m)"
        using msg_len_frame[of m ?stream] Cons.prems(2) by (simp add: msg_len_def)
      with True False Cons.prems(2) show ?thesis by (simp add: chat_parse.simps[of xs])
    qed (simp add: chat_parse.simps)
    have "ys \<noteq> []" using True s by (metis append_Nil2 length_append length_frame not_less le_add1)
    with p Cons.prems(1) show ?thesis by (intro exI[of _ 0] exI[of _ xs]) simp
  next
    case False
    then obtain xs' where xs: "xs = frame m @ xs'" and rest: "xs' @ ys = ?stream"
      using s by (metis append_eq_append_conv_if append_take_drop_id length_frame not_less)
    have len: "msg_len xs = int (length m)"
      using msg_len_frame[of m xs'] Cons.prems(2) xs by simp
    from Cons.IH[OF rest] Cons.prems(2) obtain k r where k: "chat_parse xs' = (take k ms, False, r)"
      "r @ ys = concat (map frame (drop k ms))" "ys = [] \<longrightarrow> k = length ms" "k \<le> length ms" by auto
    have "chat_parse xs = (m # take k ms, False, r)"
      using len k(1) Cons.prems(2) unfolding xs by (subst chat_parse.simps) simp
    with k show ?thesis by (intro exI[of _ "Suc k"] exI[of _ r]) simp
  qed
qed

text \<open>The stream arrives in chunks; after each one the callback runs.\<close>

fun chat_feed ::
  "('b \<Rightarrow> int) \<Rightarrow> ('b \<Rightarrow> byte list) \<Rightarrow> (int \<Rightarrow> 'b \<Rightarrow> 'b) \<Rightarrow> (byte list \<Rightarrow> 'b \<Rightarrow> 'b) \<Rightarrow> byte list list \<Rightarrow> 'b
     \<Rightarrow> (byte list list \<times> bool \<times> 'b) option" where
  "chat_feed rd pk get put [] b = Some ([], False, b)"
| "chat_feed rd pk get put (c # cs) b =
     (case chat_onMessage rd pk get (put c b) of
        None \<Rightarrow> None
      | Some (ms, down, b1) \<Rightarrow>
          map_option (\<lambda>(ms', down', b2). (ms @ ms', down \<or> down', b2)) (chat_feed rd pk get put cs b1))"

context peek_queue
begin

lemma feed_stream:
  assumes "ok b" and "bytes b @ concat cs = concat (map frame ms)" and "\<forall>m \<in> set ms. length m \<le> 65536"
    and "cs = [] \<longrightarrow> ms = []"
  shows "\<exists>b'. chat_feed readable peek get put cs b = Some (ms, False, b') \<and> ok b' \<and> bytes b' = []"
  using assms
proof (induction cs arbitrary: b ms)
  case Nil
  then show ?case by simp
next
  case (Cons c cs)
  have b1: "ok (put c b)" "bytes (put c b) = bytes b @ c" using Cons.prems(1) by (simp_all add: ok_put bytes_put)
  have "bytes (put c b) @ concat cs = concat (map frame ms)" using Cons.prems(2) b1(2) by simp
  from parse_prefix[OF this Cons.prems(3)] obtain k rest where k: "chat_parse (bytes (put c b)) = (take k ms, False, rest)"
    "rest @ concat cs = concat (map frame (drop k ms))" "concat cs = [] \<longrightarrow> k = length ms" by blast
  from loop_parses[OF b1(1) k(1), of "[]"] obtain b2 where
    r: "chat_onMessage readable peek get (put c b) = Some (take k ms, False, b2)" "ok b2" "bytes b2 = rest"
    by (auto simp: chat_onMessage_def)
  have "\<forall>m \<in> set (drop k ms). length m \<le> 65536" using Cons.prems(3) by (meson in_set_dropD)
  with Cons.IH[OF r(2), of "drop k ms"] r(3) k(2,3) obtain b' where
    "chat_feed readable peek get put cs b2 = Some (drop k ms, False, b')" "ok b'" "bytes b' = []" by auto
  with r(1) show ?case by simp
qed

end

text \<open>
  C14. Messages of at most 64 KiB survive the wire whatever the network does to the stream: framed one after
  the other, cut into chunks anywhere, and fed chunk by chunk to the receive callback, they come out
  unchanged and in order, nothing else comes out, no shutdown is requested and the buffer ends empty.
\<close>

theorem chat_roundtrip:
  assumes "peek_queue ok bytes rd put get pk" and "ok b" and "bytes b = []"
    and "concat chunks = concat (map frame ms)" and "\<forall>m \<in> set ms. length m \<le> 65536" and "chunks \<noteq> []"
  shows "\<exists>b'. chat_feed rd pk get put chunks b = Some (ms, False, b') \<and> bytes b' = []"
  using peek_queue.feed_stream[OF assms(1,2), of chunks ms] assms(3-6) by auto

theorem chat_roundtrip_witness:
  "\<exists>b'. chat_feed readableBytes peek retrieve append_bytes [[0, 0], [0, 2, 104, 105, 0, 0, 0], [0]] (mk_Buffer 1024)
     = Some ([[104, 105], []], False, b')"
proof -
  have f: "frame [104, 105] = [0, 0, 0, 2, 104, 105]" "frame [] = [0, 0, 0, 0]"
    by (simp_all add: frame_def store32_def htonl_def bswap32_def push_bit_eq_mult)
  from chat_roundtrip[OF ccpeek.peek_queue_axioms, of "mk_Buffer 1024" "[[0, 0], [0, 2, 104, 105, 0, 0, 0], [0]]" "[[104, 105], []]"]
  show ?thesis by (auto simp: f)
qed

theorem onMessage_refines_parse_witness:
  "\<exists>b'. chat_onMessage readableBytes peek retrieve (append_bytes [0, 0, 0, 1, 9, 0] (mk_Buffer 1024)) = Some ([[9]], False, b')
     \<and> buf_bytes b' = [0]"
proof -
  let ?b = "append_bytes [0, 0, 0, 1, 9, 0] (mk_Buffer 1024)"
  have b: "buf_ok ?b" "buf_bytes ?b = [0, 0, 0, 1, 9, 0]" by (simp_all add: append_bytes_ok)
  have "frame [9] = [0, 0, 0, 1, 9]" by (simp add: frame_def store32_def htonl_def bswap32_def push_bit_eq_mult)
  with msg_len_frame[of "[9]" "[0]"] have "msg_len [0, 0, 0, 1, 9, 0] = 1" by simp
  then have "chat_parse (buf_bytes ?b) = ([[9]], False, [0])" by (simp add: b(2) chat_parse.simps)
  from onMessage_refines_parse[OF ccpeek.peek_queue_axioms b(1) this] show ?thesis by blast
qed

text \<open>
  The senders do not check the size: a message over 64 KiB (up to what 31 bits can count) is framed and
  sent, and the receiver that has its length in the buffer delivers nothing and requests shutdown.
\<close>

theorem chat_oversize_rejected:
  assumes "65536 < length m" and "length m < 2 ^ 31"
  shows "chat_parse (frame m @ bs) = ([], True, frame m @ bs)"
  using assms msg_len_frame[of m bs] by (subst chat_parse.simps) simp

theorem chat_oversize_rejected_witness:
  "chat_parse (frame (replicate 65537 7)) = ([], True, frame (replicate 65537 7))"
  using chat_oversize_rejected[of "replicate 65537 7" "[]"] by simp

section \<open>Broadcast\<close>

lemma chat_onConnection_wf [simp, wf_intros]: "map_wf conns \<Longrightarrow> map_wf (chat_onConnection up c conns)"
  by (simp add: chat_onConnection_def)

text \<open>What a broadcast of several messages puts on the wire of one connection.\<close>

lemma chat_send_to:
  assumes "map_wf conns"
  shows "map snd (filter (\<lambda>(d, _). d = c) (concat (map (\<lambda>m. chat_send m conns) ms)))
     = (if c \<in> fst ` set conns then map frame ms else [])"
proof -
  have one: "map snd (filter (\<lambda>(d, _). d = c) (chat_send m conns)) = (if c \<in> fst ` set conns then [frame m] else [])" for m
    using map_wf_distinct[OF assms] by (induction conns) (auto simp: chat_send_def)
  show ?thesis by (induction ms) (simp_all add: one)
qed

text \<open>
  The server sends every message it takes from the buffer to every connection of the room, the sender
  included, once each and in the order of arrival, as a frame the peer's parser accepts.
\<close>

theorem server_broadcast:
  assumes "peek_queue ok bytes rd put get pk" and "ok b" and "chat_parse (bytes b) = (ms, down, rest)" and "map_wf conns"
  shows "\<exists>b' sent. server_onMessage rd pk get conns b = Some (sent, down, b') \<and> bytes b' = rest
     \<and> (\<forall>c. map snd (filter (\<lambda>(d, _). d = c) sent) = (if c \<in> fst ` set conns then map frame ms else []))"
proof -
  obtain b' where r: "chat_onMessage rd pk get b = Some (ms, down, b')" "bytes b' = rest"
    using peek_queue.loop_parses[OF assms(1-3), of "[]"] by (auto simp: chat_onMessage_def)
  with chat_send_to[OF assms(4), of _ ms] show ?thesis by (simp add: server_onMessage_def)
qed

theorem server_broadcast_witness:
  "\<exists>b' sent. server_onMessage readableBytes peek retrieve [(3 :: int, ()), (5, ())] (append_bytes [0, 0, 0, 0] (mk_Buffer 1024))
       = Some (sent, False, b') \<and> map snd (filter (\<lambda>(d, _). d = 5) sent) = [frame []]"
proof -
  let ?b = "append_bytes [0, 0, 0, 0] (mk_Buffer 1024)"
  have b: "buf_ok ?b" "buf_bytes ?b = [0, 0, 0, 0]" by (simp_all add: append_bytes_ok)
  have "frame [] = [0, 0, 0, 0]" by (simp add: frame_def store32_def htonl_def bswap32_def)
  with msg_len_frame[of "[]" "[]"] have "msg_len [0, 0, 0, 0] = 0" by simp
  then have p: "chat_parse (buf_bytes ?b) = ([[]], False, [])" by (simp add: b(2) chat_parse.simps)
  have "map_wf [(3 :: int, ()), (5, ())]" by (simp add: map_wf_def)
  from server_broadcast[OF ccpeek.peek_queue_axioms b(1) p this] show ?thesis by fastforce
qed

end
