(* ===== verification/ChatRoom.thy ===== *)
theory ChatRoom
  imports ChatCodec Machines "HOL-Library.Sublist"
begin

text \<open>
  The chat programs of muduo/ put together: one \<open>ChatServer\<close>, any number of \<open>ChatClient\<close>s, and the network between
  them, which delivers the bytes of each direction of a connection in order and in pieces of any size. The
  handlers are those of ChatCodec; the steps are the events that run them. The theorem is about all the
  clients together: they print the same conversation.
\<close>

section \<open>State and events\<close>

text \<open>
  For each connection \<open>c\<close>: \<open>link\<close> is \<^verbatim>\<open>connection_\<close> of its client, \<open>up\<close> and \<open>down\<close> are the bytes on their way, \<open>sbuf\<close> and \<open>cbuf\<close>
  the input buffers of the two ends, \<open>shut\<close> whether one of them asked for shutdown. The rest is history: the lines
  \<open>typed\<close>, the messages \<open>shown\<close>, the messages the server has taken with their senders (\<open>talk\<close>), and how many it had
  taken when \<open>c\<close> joined (\<open>since\<close>).
\<close>

record ('c, 'b) room =
  conns :: "('c, unit) std_map"
  link :: "'c \<Rightarrow> 'c option"
  up :: "'c \<Rightarrow> byte list"
  down :: "'c \<Rightarrow> byte list"
  sbuf :: "'c \<Rightarrow> 'b"
  cbuf :: "'c \<Rightarrow> 'b"
  shut :: "'c \<Rightarrow> bool"
  typed :: "'c \<Rightarrow> byte list list"
  shown :: "'c \<Rightarrow> byte list list"
  talk :: "('c \<times> byte list) list"
  since :: "'c \<Rightarrow> nat"

definition mk_room :: "'b \<Rightarrow> ('c, 'b) room" where
  "mk_room b0 = \<lparr>conns = [], link = (\<lambda>_. None), up = (\<lambda>_. []), down = (\<lambda>_. []), sbuf = (\<lambda>_. b0), cbuf = (\<lambda>_. b0),
     shut = (\<lambda>_. False), typed = (\<lambda>_. []), shown = (\<lambda>_. []), talk = [], since = (\<lambda>_. 0)\<rparr>"

text \<open>Both ends of a new connection run \<^verbatim>\<open>onConnection\<close>; its buffers are new.\<close>

definition room_join :: "'b \<Rightarrow> 'c::linorder \<Rightarrow> ('c, 'b) room \<Rightarrow> ('c, 'b) room" where
  "room_join b0 c s =
     s\<lparr>conns := chat_onConnection True c (conns s), link := (link s)(c := client_onConnection True c (link s c)),
       up := (up s)(c := []), down := (down s)(c := []), sbuf := (sbuf s)(c := b0), cbuf := (cbuf s)(c := b0),
       shut := (shut s)(c := False), typed := (typed s)(c := []), shown := (shown s)(c := []),
       since := (since s)(c := length (talk s))\<rparr>"

definition room_leave :: "'c::linorder \<Rightarrow> ('c, 'b) room \<Rightarrow> ('c, 'b) room" where
  "room_leave c s =
     s\<lparr>conns := chat_onConnection False c (conns s), link := (link s)(c := client_onConnection False c (link s c))\<rparr>"

text \<open>A line read by the client of \<open>c\<close>.\<close>

definition room_write :: "'c \<Rightarrow> byte list \<Rightarrow> ('c, 'b) room \<Rightarrow> ('c, 'b) room" where
  "room_write c m s =
     (case client_write m (link s c) of
        None \<Rightarrow> s
      | Some (d, bs) \<Rightarrow> s\<lparr>up := (up s)(d := up s d @ bs), typed := (typed s)(c := typed s c @ [m])\<rparr>)"

text \<open>The server receives some of the bytes on their way from \<open>c\<close>, and \<^verbatim>\<open>onMessage\<close> runs.\<close>

definition room_server ::
  "('b \<Rightarrow> int) \<Rightarrow> ('b \<Rightarrow> byte list) \<Rightarrow> (int \<Rightarrow> 'b \<Rightarrow> 'b) \<Rightarrow> (byte list \<Rightarrow> 'b \<Rightarrow> 'b) \<Rightarrow> nat \<Rightarrow> 'c::linorder
     \<Rightarrow> ('c, 'b) room \<Rightarrow> ('c, 'b) room option" where
  "room_server rd pk get put n c s =
     (let b = put (take n (up s c)) (sbuf s c)
      in case (chat_onMessage rd pk get b, server_onMessage rd pk get (conns s) b) of
           (Some (ms, _, _), Some (sent, dn, b')) \<Rightarrow>
             Some (s\<lparr>up := (up s)(c := drop n (up s c)), sbuf := (sbuf s)(c := b'),
                     down := (\<lambda>d. down s d @ concat (map snd (filter (\<lambda>(e, _). e = d) sent))),
                     shut := (shut s)(c := shut s c \<or> dn), talk := talk s @ map (Pair c) ms\<rparr>)
         | _ \<Rightarrow> None)"

text \<open>The client of \<open>c\<close> receives, and its \<^verbatim>\<open>onMessage\<close> prints what is complete.\<close>

definition room_client ::
  "('b \<Rightarrow> int) \<Rightarrow> ('b \<Rightarrow> byte list) \<Rightarrow> (int \<Rightarrow> 'b \<Rightarrow> 'b) \<Rightarrow> (byte list \<Rightarrow> 'b \<Rightarrow> 'b) \<Rightarrow> nat \<Rightarrow> 'c
     \<Rightarrow> ('c, 'b) room \<Rightarrow> ('c, 'b) room option" where
  "room_client rd pk get put n c s =
     map_option (\<lambda>(ms, dn, b').
       s\<lparr>down := (down s)(c := drop n (down s c)), cbuf := (cbuf s)(c := b'),
         shut := (shut s)(c := shut s c \<or> dn), shown := (shown s)(c := shown s c @ ms)\<rparr>)
       (chat_onMessage rd pk get (put (take n (down s c)) (cbuf s c)))"

definition member :: "'c \<Rightarrow> ('c, 'b) room \<Rightarrow> bool" where
  "member c s \<longleftrightarrow> c \<in> fst ` set (conns s)"

inductive room_step ::
  "('b \<Rightarrow> int) \<Rightarrow> ('b \<Rightarrow> byte list) \<Rightarrow> (int \<Rightarrow> 'b \<Rightarrow> 'b) \<Rightarrow> (byte list \<Rightarrow> 'b \<Rightarrow> 'b) \<Rightarrow> 'b
     \<Rightarrow> ('c::linorder, 'b) room \<Rightarrow> ('c, 'b) room \<Rightarrow> bool" for rd pk get put b0 where
  step_join: "\<not> member c s \<Longrightarrow> room_step rd pk get put b0 s (room_join b0 c s)"
| step_leave: "member c s \<Longrightarrow> room_step rd pk get put b0 s (room_leave c s)"
| step_write: "length m \<le> 65536 \<Longrightarrow> room_step rd pk get put b0 s (room_write c m s)"
| step_server: "member c s \<Longrightarrow> room_server rd pk get put n c s = Some s' \<Longrightarrow> room_step rd pk get put b0 s s'"
| step_client: "member c s \<Longrightarrow> room_client rd pk get put n c s = Some s' \<Longrightarrow> room_step rd pk get put b0 s s'"

section \<open>One direction of a connection\<close>

text \<open>
  \<open>flow ok bytes b wire ms\<close>: the buffer \<open>b\<close> followed by the bytes under way are the frames of the messages \<open>ms\<close>; nothing
  complete waits in the buffer once the wire is empty.
\<close>

definition flow :: "('b \<Rightarrow> bool) \<Rightarrow> ('b \<Rightarrow> byte list) \<Rightarrow> 'b \<Rightarrow> byte list \<Rightarrow> byte list list \<Rightarrow> bool" where
  "flow ok bytes b wire ms \<longleftrightarrow> ok b \<and> bytes b @ wire = concat (map frame ms) \<and> (wire = [] \<longrightarrow> bytes b = [])
     \<and> (\<forall>m \<in> set ms. length m \<le> 65536)"

lemma frame_nonempty [simp]: "frame m \<noteq> []"
  using length_frame[of m] by fastforce

lemma concat_frames_empty: "concat (map frame ms) = [] \<longleftrightarrow> ms = []"
  by (cases ms) auto

lemma flow_send: "flow ok bytes b wire ms \<Longrightarrow> length m \<le> 65536 \<Longrightarrow> flow ok bytes b (wire @ frame m) (ms @ [m])"
  by (auto simp: flow_def)

lemma flow_sends:
  "flow ok bytes b wire ms \<Longrightarrow> \<forall>m \<in> set ns. length m \<le> 65536 \<Longrightarrow>
     flow ok bytes b (wire @ concat (map frame ns)) (ms @ ns)"
  by (auto simp: flow_def concat_frames_empty)

lemma flow_done: "flow ok bytes b [] ms \<Longrightarrow> ms = []"
  using concat_frames_empty[of ms] by (auto simp: flow_def)

context peek_queue
begin

lemma flow_receive:
  assumes "flow ok bytes b wire ms"
  shows "\<exists>k b'. chat_onMessage readable peek get (put (List.take n wire) b) = Some (List.take k ms, False, b')
     \<and> flow ok bytes b' (drop n wire) (drop k ms)"
proof -
  have b1: "ok (put (List.take n wire) b)" "bytes (put (List.take n wire) b) = bytes b @ List.take n wire"
    using assms by (simp_all add: flow_def ok_put bytes_put)
  have "bytes (put (List.take n wire) b) @ drop n wire = concat (map frame ms)"
    and small: "\<forall>m \<in> set ms. length m \<le> 65536" using assms b1(2) by (simp_all add: flow_def)
  from parse_prefix[OF this] obtain k rest where k: "chat_parse (bytes (put (List.take n wire) b)) = (List.take k ms, False, rest)"
    "rest @ drop n wire = concat (map frame (drop k ms))" "drop n wire = [] \<longrightarrow> k = length ms" by blast
  from loop_parses[OF b1(1) k(1), of "[]"] obtain b' where
    "chat_onMessage readable peek get (put (List.take n wire) b) = Some (List.take k ms, False, b')" "ok b'" "bytes b' = rest"
    by (auto simp: chat_onMessage_def)
  moreover have "\<forall>m \<in> set (drop k ms). length m \<le> 65536" using small by (meson in_set_dropD)
  ultimately show ?thesis using k(2,3) by (intro exI[of _ k] exI[of _ b']) (auto simp: flow_def)
qed

end

section \<open>The room as a whole\<close>

text \<open>What the server has taken from \<open>c\<close>, and all it has taken, since \<open>c\<close> joined.\<close>

definition took :: "'c \<Rightarrow> ('c, 'b) room \<Rightarrow> byte list list" where
  "took c s = map snd (filter (\<lambda>(d, _). d = c) (drop (since s c) (talk s)))"

definition heard :: "'c \<Rightarrow> ('c, 'b) room \<Rightarrow> byte list list" where
  "heard c s = map snd (drop (since s c) (talk s))"

definition conn_inv :: "('b \<Rightarrow> bool) \<Rightarrow> ('b \<Rightarrow> byte list) \<Rightarrow> 'c \<Rightarrow> ('c, 'b) room \<Rightarrow> bool" where
  "conn_inv ok bytes c s \<longleftrightarrow> since s c \<le> length (talk s) \<and> \<not> shut s c \<and> link s c = Some c
     \<and> (\<exists>pend. typed s c = took c s @ pend \<and> flow ok bytes (sbuf s c) (up s c) pend)
     \<and> (\<exists>pend. heard c s = shown s c @ pend \<and> flow ok bytes (cbuf s c) (down s c) pend)"

definition room_inv :: "('b \<Rightarrow> bool) \<Rightarrow> ('b \<Rightarrow> byte list) \<Rightarrow> ('c::linorder, 'b) room \<Rightarrow> bool" where
  "room_inv ok bytes s \<longleftrightarrow> map_wf (conns s) \<and> (\<forall>c d. link s c = Some d \<longrightarrow> d = c \<and> member c s)
     \<and> (\<forall>c. member c s \<longrightarrow> conn_inv ok bytes c s)"

lemma room_invD:
  assumes "room_inv ok bytes s"
  shows "map_wf (conns s)" and "link s c = Some d \<Longrightarrow> d = c \<and> member c s" and "member c s \<Longrightarrow> conn_inv ok bytes c s"
  using assms by (auto simp: room_inv_def)

lemma fst_set_map_erase: "fst ` set (map_erase c m) = fst ` set m - {c}"
  by (auto simp: map_erase_def)

lemma member_simps [simp]:
  "member d (room_join b0 c s) \<longleftrightarrow> d = c \<or> member d s"
  "member d (room_leave c s) \<longleftrightarrow> d \<noteq> c \<and> member d s"
  by (auto simp: member_def room_join_def room_leave_def chat_onConnection_def fst_set_map_put fst_set_map_erase)

lemma join_inv:
  assumes "room_inv ok bytes s" and "\<not> member c s" and "ok b0" and "bytes b0 = []"
  shows "room_inv ok bytes (room_join b0 c s)"
proof -
  note D = room_invD[OF assms(1)]
  have "conn_inv ok bytes d (room_join b0 c s)" if "member d (room_join b0 c s)" for d
  proof (cases "d = c")
    case True
    then show ?thesis using assms(3,4)
      by (simp add: conn_inv_def room_join_def client_onConnection_def took_def heard_def flow_def)
  next
    case False
    with that have "member d s" by simp
    with D(3)[of d] False show ?thesis by (simp add: conn_inv_def room_join_def took_def heard_def)
  qed
  moreover have "map_wf (conns (room_join b0 c s))" using D(1) by (simp add: room_join_def)
  moreover have "d' = d \<and> member d (room_join b0 c s)" if "link (room_join b0 c s) d = Some d'" for d d'
    using that D(2)[of d d'] by (auto simp: room_join_def client_onConnection_def member_def chat_onConnection_def
        fst_set_map_put split: if_splits)
  ultimately show ?thesis by (auto simp: room_inv_def)
qed

lemma leave_inv:
  assumes "room_inv ok bytes s"
  shows "room_inv ok bytes (room_leave c s)"
proof -
  note D = room_invD[OF assms]
  have "conn_inv ok bytes d (room_leave c s)" if "member d (room_leave c s)" for d
  proof -
    from that have "d \<noteq> c" "member d s" by simp_all
    with D(3)[of d] show ?thesis by (simp add: conn_inv_def room_leave_def took_def heard_def)
  qed
  moreover have "map_wf (conns (room_leave c s))" using D(1) by (simp add: room_leave_def)
  moreover have "d' = d \<and> member d (room_leave c s)" if "link (room_leave c s) d = Some d'" for d d'
    using that D(2)[of d d']
    by (auto simp: room_leave_def client_onConnection_def member_def chat_onConnection_def fst_set_map_erase split: if_splits)
  ultimately show ?thesis by (auto simp: room_inv_def)
qed

lemma write_inv:
  assumes "room_inv ok bytes s" and "length m \<le> 65536"
  shows "room_inv ok bytes (room_write c m s)"
proof (cases "link s c")
  case None
  then show ?thesis using assms(1) by (simp add: room_write_def client_write_def)
next
  case (Some d)
  note D = room_invD[OF assms(1)]
  have "d = c" and c: "member c s" using D(2)[OF Some] by auto
  then have w: "room_write c m s = s\<lparr>up := (up s)(c := up s c @ frame m), typed := (typed s)(c := typed s c @ [m])\<rparr>"
    using Some by (simp add: room_write_def client_write_def)
  obtain pend where "typed s c = took c s @ pend" "flow ok bytes (sbuf s c) (up s c) pend"
    using D(3)[OF c] by (auto simp: conn_inv_def)
  then have "typed s c @ [m] = took c s @ (pend @ [m])" "flow ok bytes (sbuf s c) (up s c @ frame m) (pend @ [m])"
    using assms(2) by (simp_all add: flow_send)
  then have "\<exists>p. typed s c @ [m] = took c s @ p \<and> flow ok bytes (sbuf s c) (up s c @ frame m) p" by blast
  then have "conn_inv ok bytes e (room_write c m s)" if "member e s" for e
    using that D(3)[of e] by (cases "e = c") (simp_all add: w conn_inv_def took_def heard_def)
  then show ?thesis using D by (auto simp: room_inv_def w member_def)
qed

context peek_queue
begin

lemma server_inv:
  assumes inv: "room_inv ok bytes s" and c: "member c s" and run: "room_server readable peek get put n c s = Some s'"
  shows "room_inv ok bytes s'"
proof -
  note D = room_invD[OF inv]
  obtain pend where pend: "typed s c = took c s @ pend" "flow ok bytes (sbuf s c) (up s c) pend"
    using D(3)[OF c] by (auto simp: conn_inv_def)
  from flow_receive[OF pend(2), of n] obtain k b' where
    k: "chat_onMessage readable peek get (put (List.take n (up s c)) (sbuf s c)) = Some (List.take k pend, False, b')"
    "flow ok bytes b' (drop n (up s c)) (drop k pend)" by blast
  let ?ms = "List.take k pend"
  let ?sent = "concat (map (\<lambda>m. chat_send m (conns s)) ?ms)"
  have to: "map snd (filter (\<lambda>(e, _). e = d) ?sent) = (if member d s then map frame ?ms else [])" for d
    using chat_send_to[OF D(1)] by (simp add: member_def)
  have small: "\<forall>m \<in> set ?ms. length m \<le> 65536" using pend(2) by (meson flow_def in_set_takeD)
  have s': "s' = s\<lparr>up := (up s)(c := drop n (up s c)), sbuf := (sbuf s)(c := b'),
       down := (\<lambda>d. down s d @ concat (map snd (filter (\<lambda>(e, _). e = d) ?sent))),
       shut := (shut s)(c := shut s c), talk := talk s @ map (Pair c) ?ms\<rparr>"
    using run k(1) by (auto simp: room_server_def server_onMessage_def Let_def)
  have hd: "heard d s' = heard d s @ ?ms" "took d s' = took d s @ (if d = c then ?ms else [])" if "member d s" for d
    using D(3)[OF that] by (auto simp: heard_def took_def s' conn_inv_def comp_def filter_empty_conv)
  have "conn_inv ok bytes d s'" if d: "member d s" for d
  proof -
    obtain p where "heard d s = shown s d @ p" "flow ok bytes (cbuf s d) (down s d) p"
      using D(3)[OF d] by (auto simp: conn_inv_def)
    then have "heard d s' = shown s d @ (p @ ?ms)" "flow ok bytes (cbuf s d) (down s' d) (p @ ?ms)"
      using hd(1)[OF d] flow_sends[OF _ small] d to[of d] by (simp_all add: s')
    then have out: "\<exists>p. heard d s' = shown s' d @ p \<and> flow ok bytes (cbuf s' d) (down s' d) p" by (auto simp: s')
    have "\<exists>p. typed s' d = took d s' @ p \<and> flow ok bytes (sbuf s' d) (up s' d) p"
    proof (cases "d = c")
      case True
      then show ?thesis using hd(2)[OF c] pend(1) k(2) by (intro exI[of _ "drop k pend"]) (simp add: s')
    next
      case False
      then show ?thesis using D(3)[OF d] hd(2)[OF d] by (auto simp: conn_inv_def s')
    qed
    with out D(3)[OF d] show ?thesis by (simp add: conn_inv_def) (simp add: s')
  qed
  then show ?thesis using D by (auto simp: room_inv_def s' member_def)
qed

lemma client_inv:
  assumes inv: "room_inv ok bytes s" and c: "member c s" and run: "room_client readable peek get put n c s = Some s'"
  shows "room_inv ok bytes s'"
proof -
  note D = room_invD[OF inv]
  obtain pend where pend: "heard c s = shown s c @ pend" "flow ok bytes (cbuf s c) (down s c) pend"
    using D(3)[OF c] by (auto simp: conn_inv_def)
  from flow_receive[OF pend(2), of n] obtain k b' where
    k: "chat_onMessage readable peek get (put (List.take n (down s c)) (cbuf s c)) = Some (List.take k pend, False, b')"
    "flow ok bytes b' (drop n (down s c)) (drop k pend)" by blast
  have s': "s' = s\<lparr>down := (down s)(c := drop n (down s c)), cbuf := (cbuf s)(c := b'),
       shut := (shut s)(c := shut s c), shown := (shown s)(c := shown s c @ List.take k pend)\<rparr>"
    using run k(1) by (auto simp: room_client_def)
  have "\<exists>p. heard c s = shown s c @ List.take k pend @ p \<and> flow ok bytes b' (drop n (down s c)) p"
    using pend(1) k(2) by (intro exI[of _ "drop k pend"]) simp
  then have "conn_inv ok bytes d s'" if "member d s" for d
    using that D(3)[of d] by (cases "d = c") (simp_all add: s' conn_inv_def took_def heard_def)
  then show ?thesis using D by (auto simp: room_inv_def s' member_def)
qed

lemma room_step_inv:
  assumes "ok b0" and "bytes b0 = []" and "room_inv ok bytes s" and "room_step readable peek get put b0 s s'"
  shows "room_inv ok bytes s'"
  using assms(4)
proof cases
  case (step_join c)
  then show ?thesis using join_inv[OF assms(3) _ assms(1,2)] by simp
next
  case (step_leave c)
  then show ?thesis using leave_inv[OF assms(3)] by simp
next
  case (step_write m c)
  then show ?thesis using write_inv[OF assms(3)] by simp
next
  case (step_server c n)
  then show ?thesis using server_inv[OF assms(3)] by blast
next
  case (step_client c n)
  then show ?thesis using client_inv[OF assms(3)] by blast
qed

end

interpretation talkers: machine "room_step rd pk get put b0"
    "\<lambda>s. peek_queue ok bytes rd put get pk \<and> ok b0 \<and> bytes b0 = [] \<and> room_inv ok bytes s"
  for rd pk get put b0 ok bytes
  by unfold_locales (blast intro: peek_queue.room_step_inv)

lemma mk_room_inv: "room_inv ok bytes (mk_room b0)"
  by (simp add: room_inv_def mk_room_def member_def)

lemma room_reach_inv:
  assumes "peek_queue ok bytes rd put get pk" and "ok b0" and "bytes b0 = []"
    and "(room_step rd pk get put b0)\<^sup>*\<^sup>* (mk_room b0) s"
  shows "room_inv ok bytes s"
  using talkers.inv_run[OF assms(4), of ok bytes] assms(1-3) mk_room_inv[of ok bytes b0] by simp

text \<open>Nothing is on its way to or from a member.\<close>

definition quiet :: "('c, 'b) room \<Rightarrow> bool" where
  "quiet s \<longleftrightarrow> (\<forall>c. member c s \<longrightarrow> up s c = [] \<and> down s c = [])"

text \<open>
  C3. The chat as a whole: clients join, leave and type lines of at most 64 KiB in any order, and the
  network delivers the bytes of each connection in order, in pieces of any size. Then at every moment every
  connected client has printed, since it joined, an initial part of one and the same conversation (the messages in
  the order in which the server took them), the server has taken an initial part of what that client typed, in
  that order, and no end has asked for shutdown; and once nothing is under way, every client has printed the whole
  conversation since it joined, and all that was typed is part of it.
\<close>

theorem chat_room_agrees:
  assumes "peek_queue ok bytes rd put get pk" and "ok b0" and "bytes b0 = []"
    and "(room_step rd pk get put b0)\<^sup>*\<^sup>* (mk_room b0) s" and "member c s"
  shows "prefix (shown s c) (heard c s) \<and> prefix (took c s) (typed s c) \<and> \<not> shut s c
     \<and> (quiet s \<longrightarrow> shown s c = heard c s \<and> took c s = typed s c)"
proof -
  have "room_inv ok bytes s" using room_reach_inv[OF assms(1-4)] .
  then have inv: "conn_inv ok bytes c s" using assms(5) by (rule room_invD(3))
  then obtain p q where p: "typed s c = took c s @ p" "flow ok bytes (sbuf s c) (up s c) p"
    and q: "heard c s = shown s c @ q" "flow ok bytes (cbuf s c) (down s c) q" and "\<not> shut s c"
    by (auto simp: conn_inv_def)
  moreover have "p = [] \<and> q = []" if "quiet s"
    using that assms(5) p(2) q(2) by (auto simp: quiet_def dest!: flow_done)
  ultimately show ?thesis by auto
qed

section \<open>Delivery\<close>

text \<open>Receiving everything that is under way is always possible and changes nothing else that matters.\<close>

context peek_queue
begin

lemma server_receives:
  assumes "room_inv ok bytes s" and "member c s"
  shows "\<exists>s'. room_server readable peek get put (length (up s c)) c s = Some s' \<and> up s' = (up s)(c := [])
     \<and> conns s' = conns s \<and> typed s' = typed s"
proof -
  obtain p where "flow ok bytes (sbuf s c) (up s c) p" using room_invD(3)[OF assms] by (auto simp: conn_inv_def)
  from flow_receive[OF this, of "length (up s c)"] show ?thesis
    by (auto simp: room_server_def server_onMessage_def Let_def)
qed

lemma client_receives:
  assumes "room_inv ok bytes s" and "member c s"
  shows "\<exists>s'. room_client readable peek get put (length (down s c)) c s = Some s' \<and> down s' = (down s)(c := [])
     \<and> up s' = up s \<and> conns s' = conns s \<and> typed s' = typed s"
proof -
  obtain p where "flow ok bytes (cbuf s c) (down s c) p" using room_invD(3)[OF assms] by (auto simp: conn_inv_def)
  from flow_receive[OF this, of "length (down s c)"] obtain k b' where
    "chat_onMessage readable peek get (put (down s c) (cbuf s c)) = Some (List.take k p, False, b')" by auto
  then show ?thesis by (simp add: room_client_def)
qed

lemma server_receives_all:
  assumes "ok b0" and "bytes b0 = []" and "room_inv ok bytes s" and "set cs \<subseteq> fst ` set (conns s)"
  shows "\<exists>s'. (room_step readable peek get put b0)\<^sup>*\<^sup>* s s' \<and> room_inv ok bytes s' \<and> conns s' = conns s \<and> typed s' = typed s
     \<and> (\<forall>c. c \<in> set cs \<or> up s c = [] \<longrightarrow> up s' c = [])"
  using assms(3,4)
proof (induction cs arbitrary: s)
  case Nil
  then show ?case by auto
next
  case (Cons c cs)
  then have c: "member c s" by (simp add: member_def)
  from server_receives[OF Cons.prems(1) c] obtain t where
    t: "room_server readable peek get put (length (up s c)) c s = Some t" "up t = (up s)(c := [])" "conns t = conns s" "typed t = typed s"
    by blast
  have step: "room_step readable peek get put b0 s t" by (rule step_server[OF c t(1)])
  have "room_inv ok bytes t" by (rule room_step_inv[OF assms(1,2) Cons.prems(1) step])
  from Cons.IH[OF this] Cons.prems(2) t(3) obtain s' where "(room_step readable peek get put b0)\<^sup>*\<^sup>* t s'" "room_inv ok bytes s'"
    "conns s' = conns t" "typed s' = typed t" "\<forall>d. d \<in> set cs \<or> up t d = [] \<longrightarrow> up s' d = []" by auto
  then show ?case using t step by (intro exI[of _ s']) (auto intro: converse_rtranclp_into_rtranclp)
qed

lemma client_receives_all:
  assumes "ok b0" and "bytes b0 = []" and "room_inv ok bytes s" and "set cs \<subseteq> fst ` set (conns s)"
  shows "\<exists>s'. (room_step readable peek get put b0)\<^sup>*\<^sup>* s s' \<and> room_inv ok bytes s' \<and> conns s' = conns s \<and> typed s' = typed s
     \<and> up s' = up s \<and> (\<forall>c. c \<in> set cs \<or> down s c = [] \<longrightarrow> down s' c = [])"
  using assms(3,4)
proof (induction cs arbitrary: s)
  case Nil
  then show ?case by auto
next
  case (Cons c cs)
  then have c: "member c s" by (simp add: member_def)
  from client_receives[OF Cons.prems(1) c] obtain t where
    t: "room_client readable peek get put (length (down s c)) c s = Some t" "down t = (down s)(c := [])" "up t = up s"
    "conns t = conns s" "typed t = typed s"
    by blast
  have step: "room_step readable peek get put b0 s t" by (rule step_client[OF c t(1)])
  have "room_inv ok bytes t" by (rule room_step_inv[OF assms(1,2) Cons.prems(1) step])
  from Cons.IH[OF this] Cons.prems(2) t(4) obtain s' where "(room_step readable peek get put b0)\<^sup>*\<^sup>* t s'" "room_inv ok bytes s'"
    "conns s' = conns t" "typed s' = typed t" "up s' = up t" "\<forall>d. d \<in> set cs \<or> down t d = [] \<longrightarrow> down s' d = []" by auto
  then show ?case using t step by (intro exI[of _ s']) (auto intro: converse_rtranclp_into_rtranclp)
qed

lemma room_settles:
  assumes "ok b0" and "bytes b0 = []" and "room_inv ok bytes s"
  shows "\<exists>s'. (room_step readable peek get put b0)\<^sup>*\<^sup>* s s' \<and> room_inv ok bytes s' \<and> conns s' = conns s \<and> typed s' = typed s \<and> quiet s'"
proof -
  let ?cs = "map fst (conns s)"
  obtain t where t: "(room_step readable peek get put b0)\<^sup>*\<^sup>* s t" "room_inv ok bytes t" "conns t = conns s" "typed t = typed s"
    "\<forall>c. c \<in> set ?cs \<or> up s c = [] \<longrightarrow> up t c = []"
    using server_receives_all[OF assms, of ?cs] by auto
  obtain u where u: "(room_step readable peek get put b0)\<^sup>*\<^sup>* t u" "room_inv ok bytes u" "conns u = conns t" "typed u = typed t"
    "up u = up t" "\<forall>c. c \<in> set ?cs \<or> down t c = [] \<longrightarrow> down u c = []"
    using client_receives_all[OF assms(1,2) t(2), of ?cs] t(3) by auto
  have "quiet u" using t(3,5) u(3,5,6) by (auto simp: quiet_def member_def)
  then show ?thesis using t u by (intro exI[of _ u]) (auto intro: rtranclp_trans)
qed

end

text \<open>
  C6. Nothing gets stuck: from every state of the chat, delivering what is under way leads to a state in which every
  connected client has printed the whole conversation since it joined, and that contains, in the order
  of typing, every line that client has typed.
\<close>

theorem chat_room_delivers:
  assumes "peek_queue ok bytes rd put get pk" and "ok b0" and "bytes b0 = []"
    and "(room_step rd pk get put b0)\<^sup>*\<^sup>* (mk_room b0) s"
  shows "\<exists>s'. (room_step rd pk get put b0)\<^sup>*\<^sup>* s s' \<and> conns s' = conns s
     \<and> (\<forall>c. member c s \<longrightarrow> shown s' c = heard c s' \<and> subseq (typed s c) (shown s' c))"
proof -
  have "room_inv ok bytes s" using room_reach_inv[OF assms(1-4)] .
  from peek_queue.room_settles[OF assms(1-3) this] obtain s' where
    s': "(room_step rd pk get put b0)\<^sup>*\<^sup>* s s'" "room_inv ok bytes s'" "conns s' = conns s" "typed s' = typed s" "quiet s'"
    by blast
  have "shown s' c = heard c s' \<and> subseq (typed s c) (shown s' c)" if "member c s" for c
  proof -
    have m: "member c s'" using that s'(3) by (simp add: member_def)
    obtain p q where "typed s' c = took c s' @ p" "flow ok bytes (sbuf s' c) (up s' c) p"
      and "heard c s' = shown s' c @ q" "flow ok bytes (cbuf s' c) (down s' c) q"
      using room_invD(3)[OF s'(2) m] by (auto simp: conn_inv_def)
    then have "typed s c = took c s'" "shown s' c = heard c s'"
      using s'(4,5) m by (auto simp: quiet_def dest!: flow_done)
    moreover have "subseq (took c s') (heard c s')"
      unfolding took_def heard_def by (intro subseq_map subseq_filter_left)
    ultimately show ?thesis by simp
  qed
  with s'(1,3) show ?thesis by blast
qed

section \<open>A run\<close>

text \<open>With the ccnet buffer: two clients join, the first types a line.\<close>

definition demo_room :: "(nat, buffer) room" where
  "demo_room = room_write 1 [104, 105] (room_join (mk_Buffer 1024) 2 (room_join (mk_Buffer 1024) 1 (mk_room (mk_Buffer 1024))))"

lemma two_join:
  "member 1 (room_join b 2 (room_join b (1 :: nat) (mk_room b)))" "\<not> member 1 (mk_room b :: (nat, 'b) room)"
  "\<not> member 2 (room_join b (1 :: nat) (mk_room b))"
  "link (room_join b 2 (room_join b (1 :: nat) (mk_room b))) 1 = Some 1"
  by (simp_all add: member_def mk_room_def room_join_def client_onConnection_def chat_onConnection_def)

lemma demo_room_facts: "member 1 demo_room" "member 2 demo_room" "typed demo_room 1 = [[104, 105]]"
  unfolding demo_room_def using two_join[of "mk_Buffer 1024"]
  by (simp_all add: room_write_def client_write_def member_def) (simp_all add: room_join_def mk_room_def chat_onConnection_def)

lemma demo_room_run:
  "(room_step readableBytes peek retrieve append_bytes (mk_Buffer 1024))\<^sup>*\<^sup>* (mk_room (mk_Buffer 1024)) demo_room"
proof -
  let ?step = "room_step readableBytes peek retrieve append_bytes (mk_Buffer 1024) :: (nat, buffer) room \<Rightarrow> _"
  let ?r0 = "mk_room (mk_Buffer 1024) :: (nat, buffer) room" let ?r1 = "room_join (mk_Buffer 1024) 1 ?r0"
  let ?r2 = "room_join (mk_Buffer 1024) 2 ?r1"
  have "?step ?r0 ?r1" by (rule step_join[OF two_join(2)])
  moreover have "?step ?r1 ?r2" by (rule step_join[OF two_join(3)])
  moreover have "?step ?r2 demo_room" unfolding demo_room_def by (rule step_write) simp
  ultimately show ?thesis by (meson converse_rtranclp_into_rtranclp r_into_rtranclp)
qed

theorem chat_room_agrees_witness:
  "member 1 demo_room \<and> prefix (took 1 demo_room) [[104, 105]] \<and> \<not> shut demo_room 1"
proof -
  have b: "buf_ok (mk_Buffer 1024)" "buf_bytes (mk_Buffer 1024) = []" by simp_all
  from chat_room_agrees[OF ccpeek.peek_queue_axioms b demo_room_run demo_room_facts(1)] demo_room_facts show ?thesis by simp
qed

theorem chat_room_delivers_witness:
  "\<exists>s'. (room_step readableBytes peek retrieve append_bytes (mk_Buffer 1024))\<^sup>*\<^sup>* demo_room s'
     \<and> subseq [[104, 105]] (shown s' 1) \<and> shown s' 2 = heard 2 s'"
proof -
  have b: "buf_ok (mk_Buffer 1024)" "buf_bytes (mk_Buffer 1024) = []" by simp_all
  from chat_room_delivers[OF ccpeek.peek_queue_axioms b demo_room_run] demo_room_facts show ?thesis by metis
qed

end
