(* ===== verification/SocketApi.thy ===== *)
theory SocketApi
  imports Prelude
begin

text \<open>
  The socket interface of the operating system, for the programs that call it directly (linux_tcp/,
  unix_tcp/, catfly/, listen_test/). The calls are the fields of a record over a state \<open>'w\<close> of the outside world;
  \<open>posix_documented\<close> is what their manual pages promise about descriptors and byte counts. \<open>logged\<close> runs any such
  system with a log of the input and output, so that a theorem can speak of what a program sent.
\<close>

section \<open>The calls\<close>

text \<open>
  \<open>s_fgets n\<close> is \<^verbatim>\<open>fgets(buf, n, stdin)\<close>: the characters stored, \<open>None\<close> when the buffer is left alone at end of file.
  \<open>s_select\<close> returns its count and the descriptors left in the read set; \<open>s_epoll_wait\<close> its count and the \<^verbatim>\<open>data.fd\<close> of
  the events. \<open>s_epoll_ctl\<close> takes the descriptor and whether it is added (with its event mask) or deleted.
\<close>

record 'w sock_api =
  s_socket :: "'w \<Rightarrow> int \<times> 'w"
  s_bind :: "int \<Rightarrow> 'w \<Rightarrow> int \<times> 'w"
  s_listen :: "int \<Rightarrow> int \<Rightarrow> 'w \<Rightarrow> int \<times> 'w"
  s_connect :: "int \<Rightarrow> 'w \<Rightarrow> int \<times> 'w"
  s_accept :: "int \<Rightarrow> 'w \<Rightarrow> int \<times> 'w"
  s_recv :: "'w recv_call"
  s_send :: "'w send_call"
  s_close :: "int \<Rightarrow> 'w \<Rightarrow> 'w"
  s_fgets :: "nat \<Rightarrow> 'w \<Rightarrow> byte list option \<times> 'w"
  s_select :: "int \<Rightarrow> int list \<Rightarrow> 'w \<Rightarrow> int \<times> int list \<times> 'w"
  s_epoll_create :: "'w \<Rightarrow> int \<times> 'w"
  s_epoll_ctl :: "int \<Rightarrow> int \<Rightarrow> u32 option \<Rightarrow> 'w \<Rightarrow> 'w"
  s_epoll_wait :: "int \<Rightarrow> 'w \<Rightarrow> int \<times> int list \<times> 'w"
  s_nonblock :: "int \<Rightarrow> 'w \<Rightarrow> 'w"

section \<open>What the manual pages promise\<close>

text \<open>
  \<open>opn w\<close> is the set of open descriptors of the process. \<^verbatim>\<open>socket\<close> and \<^verbatim>\<open>accept\<close> return -1, or a descriptor that was not
  open, is positive (standard input stays open) and below \<open>lim\<close> (the process's \<^verbatim>\<open>RLIMIT_NOFILE\<close>), and open it; \<^verbatim>\<open>close\<close> closes its argument; no
  other call of the loops opens or closes one; \<^verbatim>\<open>send\<close> on -1 fails; \<^verbatim>\<open>select\<close> leaves a subset of the set it was given.
\<close>

definition posix_documented :: "'w sock_api \<Rightarrow> ('w \<Rightarrow> int set) \<Rightarrow> int \<Rightarrow> bool" where
  "posix_documented os opn lim \<longleftrightarrow>
     recv_documented (s_recv os) \<and> send_documented (s_send os) \<and> (\<forall>bs w. fst (s_send os (- 1) bs w) = - 1) \<and>
     (\<forall>w r w'. s_socket os w = (r, w') \<longrightarrow>
        (r = - 1 \<and> opn w' = opn w) \<or> (0 < r \<and> r < lim \<and> r \<notin> opn w \<and> opn w' = insert r (opn w))) \<and>
     (\<forall>fd w r w'. s_bind os fd w = (r, w') \<longrightarrow> opn w' = opn w) \<and>
     (\<forall>fd n w r w'. s_listen os fd n w = (r, w') \<longrightarrow> opn w' = opn w) \<and>
     (\<forall>fd w r w'. s_connect os fd w = (r, w') \<longrightarrow> opn w' = opn w) \<and>
     (\<forall>fd w r w'. s_accept os fd w = (r, w') \<longrightarrow>
        (r = - 1 \<and> opn w' = opn w) \<or> (0 < r \<and> r < lim \<and> r \<notin> opn w \<and> opn w' = insert r (opn w))) \<and>
     (\<forall>fd n w r w'. s_recv os fd n w = (r, w') \<longrightarrow> opn w' = opn w) \<and>
     (\<forall>fd bs w r w'. s_send os fd bs w = (r, w') \<longrightarrow> opn w' = opn w) \<and>
     (\<forall>fd w. opn (s_close os fd w) = opn w - {fd}) \<and>
     (\<forall>n w l w'. s_fgets os n w = (l, w') \<longrightarrow> opn w' = opn w \<and> (\<forall>x. l = Some x \<longrightarrow> length x < n)) \<and>
     (\<forall>n fds w r s w'. s_select os n fds w = (r, s, w') \<longrightarrow> opn w' = opn w \<and> set s \<subseteq> set fds) \<and>
     (\<forall>ep fd c w. opn (s_epoll_ctl os ep fd c w) = opn w) \<and>
     (\<forall>ep w r s w'. s_epoll_wait os ep w = (r, s, w') \<longrightarrow> opn w' = opn w) \<and>
     (\<forall>fd w. opn (s_nonblock os fd w) = opn w)"

lemma posix_documentedD:
  assumes "posix_documented os opn lim"
  shows "recv_documented (s_recv os)"
    and "send_documented (s_send os)"
    and "s_accept os fd w = (r, w') \<Longrightarrow>
        (r = - 1 \<and> opn w' = opn w) \<or> (0 < r \<and> r < lim \<and> r \<notin> opn w \<and> opn w' = insert r (opn w))"
    and "s_recv os fd n w = (q, w') \<Longrightarrow> opn w' = opn w"
    and "s_send os fd bs w = (r, w') \<Longrightarrow> opn w' = opn w"
    and "opn (s_close os fd w) = opn w - {fd}"
    and "s_fgets os n w = (l, w') \<Longrightarrow> opn w' = opn w"
    and "s_fgets os n w = (Some x, w') \<Longrightarrow> length x < n"
    and "s_select os i fds w = (r, s, w') \<Longrightarrow> opn w' = opn w"
    and "s_select os i fds w = (r, s, w') \<Longrightarrow> set s \<subseteq> set fds"
    and "opn (s_epoll_ctl os ep fd c w) = opn w"
    and "s_epoll_wait os ep w = (r, s, w') \<Longrightarrow> opn w' = opn w"
    and "opn (s_nonblock os fd w) = opn w"
    and "s_socket os w = (r, w') \<Longrightarrow>
        (r = - 1 \<and> opn w' = opn w) \<or> (0 < r \<and> r < lim \<and> r \<notin> opn w \<and> opn w' = insert r (opn w))"
    and "s_bind os fd w = (r, w') \<Longrightarrow> opn w' = opn w"
    and "s_listen os fd i w = (r, w') \<Longrightarrow> opn w' = opn w"
    and "s_connect os fd w = (r, w') \<Longrightarrow> opn w' = opn w"
    and "fst (s_send os (- 1) bs w) = - 1"
  using assms unfolding posix_documented_def by metis+

section \<open>Logging\<close>

text \<open>Received bytes (none at end of stream), failed receives, and sends with the bytes offered and the result.\<close>

datatype io = IoRecv int "byte list" | IoRecvErr int | IoSend int "byte list" int | IoClose int

definition recv_event :: "int \<Rightarrow> recv_result \<Rightarrow> io" where
  "recv_event fd r = (case r of RecvData bs \<Rightarrow> IoRecv fd bs | RecvEof \<Rightarrow> IoRecv fd [] | RecvErr _ \<Rightarrow> IoRecvErr fd)"

definition logged :: "'w sock_api \<Rightarrow> (io list \<times> 'w) sock_api" where
  "logged os = \<lparr>
     s_socket = (\<lambda>(l, w). let (r, w') = s_socket os w in (r, l, w')),
     s_bind = (\<lambda>fd (l, w). let (r, w') = s_bind os fd w in (r, l, w')),
     s_listen = (\<lambda>fd n (l, w). let (r, w') = s_listen os fd n w in (r, l, w')),
     s_connect = (\<lambda>fd (l, w). let (r, w') = s_connect os fd w in (r, l, w')),
     s_accept = (\<lambda>fd (l, w). let (r, w') = s_accept os fd w in (r, l, w')),
     s_recv = (\<lambda>fd n (l, w). let (r, w') = s_recv os fd n w in (r, l @ [recv_event fd r], w')),
     s_send = (\<lambda>fd bs (l, w). let (r, w') = s_send os fd bs w in (r, l @ [IoSend fd bs r], w')),
     s_close = (\<lambda>fd (l, w). (l @ [IoClose fd], s_close os fd w)),
     s_fgets = (\<lambda>n (l, w). let (r, w') = s_fgets os n w in (r, l, w')),
     s_select = (\<lambda>n fds (l, w). let (r, s, w') = s_select os n fds w in (r, s, l, w')),
     s_epoll_create = (\<lambda>(l, w). let (r, w') = s_epoll_create os w in (r, l, w')),
     s_epoll_ctl = (\<lambda>ep fd c (l, w). (l, s_epoll_ctl os ep fd c w)),
     s_epoll_wait = (\<lambda>ep (l, w). let (r, s, w') = s_epoll_wait os ep w in (r, s, l, w')),
     s_nonblock = (\<lambda>fd (l, w). (l, s_nonblock os fd w)) \<rparr>"

lemma logged_recv [simp]: "s_recv os fd n w = (r, w') \<Longrightarrow> s_recv (logged os) fd n (l, w) = (r, l @ [recv_event fd r], w')"
  by (simp add: logged_def)

lemma logged_send [simp]: "s_send os fd bs w = (r, w') \<Longrightarrow> s_send (logged os) fd bs (l, w) = (r, l @ [IoSend fd bs r], w')"
  by (simp add: logged_def)

lemma logged_close [simp]: "s_close (logged os) fd (l, w) = (l @ [IoClose fd], s_close os fd w)"
  by (simp add: logged_def)

lemma logged_accept [simp]: "s_accept os fd w = (r, w') \<Longrightarrow> s_accept (logged os) fd (l, w) = (r, l, w')"
  by (simp add: logged_def)

lemma recv_event_simps [simp]:
  "recv_event fd (RecvData bs) = IoRecv fd bs"
  "recv_event fd RecvEof = IoRecv fd []"
  "recv_event fd (RecvErr e) = IoRecvErr fd"
  by (simp_all add: recv_event_def)

section \<open>A small system for concrete runs\<close>

text \<open>
  The world is the open descriptors, the descriptors \<^verbatim>\<open>accept\<close> will hand out and the chunks each descriptor
  will deliver; descriptors with a chunk or at end of stream are ready; everything sent is taken.
\<close>

record toy_world =
  tw_open :: "int list"
  tw_accepts :: "int list"
  tw_input :: "int \<Rightarrow> byte list list"
  tw_lines :: "byte list list"
  tw_ready :: "int list list"

definition toy_recv :: "toy_world recv_call" where
  "toy_recv fd n w =
     (let (r, q) = scripted_recv fd n (tw_input w fd) in (r, w\<lparr>tw_input := (tw_input w)(fd := q)\<rparr>))"

definition toy_accept :: "int \<Rightarrow> toy_world \<Rightarrow> int \<times> toy_world" where
  "toy_accept fd w =
     (case tw_accepts w of
        [] \<Rightarrow> (- 1, w)
      | c # cs \<Rightarrow> if 0 < c \<and> c < 1024 \<and> c \<notin> set (tw_open w)
                  then (c, w\<lparr>tw_accepts := cs, tw_open := c # tw_open w\<rparr>) else (- 1, w\<lparr>tw_accepts := cs\<rparr>))"

definition toy_ready :: "int list \<Rightarrow> toy_world \<Rightarrow> int \<times> int list \<times> toy_world" where
  "toy_ready fds w =
     (case tw_ready w of
        [] \<Rightarrow> (0, [], w)
      | r # rs \<Rightarrow> let s = filter (\<lambda>fd. fd \<in> set fds) r in (int (length s), s, w\<lparr>tw_ready := rs\<rparr>))"

definition toy_wait :: "toy_world \<Rightarrow> int \<times> int list \<times> toy_world" where
  "toy_wait w = (case tw_ready w of [] \<Rightarrow> (- 1, [], w) | r # rs \<Rightarrow> (int (length r), r, w\<lparr>tw_ready := rs\<rparr>))"

definition toy_fgets :: "nat \<Rightarrow> toy_world \<Rightarrow> byte list option \<times> toy_world" where
  "toy_fgets n w =
     (case tw_lines w of
        [] \<Rightarrow> (None, w)
      | x # xs \<Rightarrow> if length x < n then (Some x, w\<lparr>tw_lines := xs\<rparr>) else (None, w))"

definition toy_os :: "toy_world sock_api" where
  "toy_os = \<lparr>
     s_socket = (\<lambda>w. if 3 \<in> set (tw_open w) then (- 1, w) else (3, w\<lparr>tw_open := 3 # tw_open w\<rparr>)), s_bind = (\<lambda>fd w. (0, w)), s_listen = (\<lambda>fd n w. (0, w)),
     s_connect = (\<lambda>fd w. (0, w)), s_accept = toy_accept, s_recv = toy_recv,
     s_send = (\<lambda>fd bs w. (if fd < 0 then - 1 else int (length bs), w)),
     s_close = (\<lambda>fd w. w\<lparr>tw_open := filter (\<lambda>c. c \<noteq> fd) (tw_open w)\<rparr>), s_fgets = toy_fgets,
     s_select = (\<lambda>n fds w. toy_ready fds w), s_epoll_create = (\<lambda>w. (4, w)), s_epoll_ctl = (\<lambda>ep fd c w. w),
     s_epoll_wait = (\<lambda>ep w. toy_wait w), s_nonblock = (\<lambda>fd w. w) \<rparr>"

lemma toy_os_documented: "posix_documented toy_os (\<lambda>w. set (tw_open w)) 1024"
proof -
  have "recv_documented toy_recv"
    unfolding recv_documented_def
  proof (intro allI impI)
    fix fd n w bs w'
    assume "toy_recv fd n w = (RecvData bs, w')"
    then obtain q where "scripted_recv fd n (tw_input w fd) = (RecvData bs, q)"
      by (auto simp: toy_recv_def Let_def split: prod.splits)
    then show "0 < length bs \<and> length bs \<le> n"
      using recv_documentedD[OF scripted_recv_documented] by blast
  qed
  then show ?thesis
    unfolding posix_documented_def
    by (auto simp: toy_os_def send_documented_def toy_accept_def toy_recv_def toy_ready_def toy_wait_def toy_fgets_def Let_def
        split: list.splits if_splits prod.splits)
qed

end
