(* ===== verification/SelectServer.thy ===== *)
theory SelectServer
  imports SocketApi Machines
begin

text \<open>
  The \<^verbatim>\<open>select(2)\<close> server of linux_tcp/select.cc: a table of client descriptors, one round of its loop, and the
  loop with its interrupt flag as a step relation. The lemmas show that the table stays a set of open
  descriptors in every reachable state, which memory error a round can run into and no other, that a round
  echoes every ready client, and which descriptors are never closed.
\<close>

section \<open>The program\<close>

definition BUFFER_SIZE :: nat where
  "BUFFER_SIZE = 1024"

definition CONCURRENT_MAX :: nat where
  "CONCURRENT_MAX = 10000"

text \<open>\<^verbatim>\<open>FD_SETSIZE\<close> of the C library: \<^verbatim>\<open>FD_SET\<close> and \<^verbatim>\<open>FD_ISSET\<close> on another descriptor are undefined.\<close>

definition FD_SETSIZE :: int where
  "FD_SETSIZE = 1024"

definition FD_SET :: "int \<Rightarrow> int list \<Rightarrow> int list res" where
  "FD_SET fd s = (if 0 \<le> fd \<and> fd < FD_SETSIZE then Inr (fd # s) else Inl OutOfBounds)"

definition FD_ISSET :: "int \<Rightarrow> int list \<Rightarrow> bool res" where
  "FD_ISSET fd s = (if 0 \<le> fd \<and> fd < FD_SETSIZE then Inr (fd \<in> set s) else Inl OutOfBounds)"

definition ascii :: "string \<Rightarrow> byte list" where
  "ascii s = map of_char s"

definition QUIT_CMD :: "byte list" where
  "QUIT_CMD = ascii ''.quit''"

text \<open>The notice to a client that finds the table full, in the source's UTF-8.\<close>

definition FULL_MSG :: "byte list" where
  "FULL_MSG = [230, 156, 141, 229, 138, 161, 229, 153, 168, 229, 138, 160, 229, 133, 165, 231, 154, 132, 229, 174, 162,
     230, 136, 183, 231, 171, 175, 230, 149, 176, 232, 190, 190, 229, 136, 176, 230, 156, 128, 229, 164, 167, 229, 128,
     188, 44, 230, 151, 160, 230, 179, 149, 229, 138, 160, 229, 133, 165, 33, 10]"

text \<open>The globals and the locals of \<^verbatim>\<open>main\<close> that outlive a round.\<close>

record select_srv =
  client_fds :: "int list"
  keep_running :: bool
  server_sock_fd :: int
  max_fd :: int

definition sig_handle :: "int \<Rightarrow> select_srv \<Rightarrow> select_srv" where
  "sig_handle sig st = (if sig = 2 then st\<lparr>keep_running := False\<rparr> else st)"

text \<open>A message in a zeroed buffer of \<open>BUFFER_SIZE\<close> bytes.\<close>

definition pad_msg :: "byte list \<Rightarrow> byte list" where
  "pad_msg bs = bs @ replicate (BUFFER_SIZE - length bs) 0"

fun watch_clients :: "int list \<Rightarrow> int list \<Rightarrow> int \<Rightarrow> (int list \<times> int) res" where
  "watch_clients [] s m = Inr (s, m)"
| "watch_clients (c # cs) s m =
     (if c \<noteq> 0 then bind_res (FD_SET c s) (\<lambda>s'. watch_clients cs s' (if m < c then c else m))
      else watch_clients cs s m)"

fun send_clients :: "'w sock_api \<Rightarrow> byte list \<Rightarrow> int list \<Rightarrow> 'w \<Rightarrow> 'w" where
  "send_clients os msg [] w = w"
| "send_clients os msg (c # cs) w =
     (if c \<noteq> 0 then send_clients os msg cs (snd (s_send os c msg w)) else send_clients os msg cs w)"

definition read_stdin :: "'w sock_api \<Rightarrow> int list \<Rightarrow> 'w \<Rightarrow> 'w res" where
  "read_stdin os fds w =
     (let (line, w1) = s_fgets os BUFFER_SIZE w;
          input_msg = pad_msg (case line of None \<Rightarrow> [] | Some l \<Rightarrow> l)
      in if c_bytes input_msg = QUIT_CMD then Inl (Exited 0) else Inr (send_clients os input_msg fds w1))"

text \<open>The search for a free slot: its index, -1 when there is none, and the table.\<close>

fun add_client :: "int \<Rightarrow> int \<Rightarrow> int list \<Rightarrow> int \<times> int list" where
  "add_client i fd [] = (- 1, [])"
| "add_client i fd (c # cs) =
     (if c = 0 then (i, fd # cs) else let (index, cs') = add_client (i + 1) fd cs in (index, c # cs'))"

definition accept_client :: "'w sock_api \<Rightarrow> select_srv \<Rightarrow> 'w \<Rightarrow> select_srv \<times> 'w" where
  "accept_client os st w =
     (let (fd, w1) = s_accept os (server_sock_fd st) w
      in if 0 < fd then
           let (index, fds) = add_client 0 fd (client_fds st)
           in if 0 \<le> index then (st\<lparr>client_fds := fds\<rparr>, w1)
              else (st\<lparr>client_fds := fds\<rparr>, snd (s_send os fd (pad_msg FULL_MSG) w1))
         else (st, w1))"

text \<open>
  The clients in slot order; \<open>recv_msg[byte_num] = 0\<close> writes behind the array when the buffer was filled.
\<close>

fun serve_clients :: "'w sock_api \<Rightarrow> int list \<Rightarrow> int list \<Rightarrow> 'w \<Rightarrow> (int list \<times> 'w) res" where
  "serve_clients os s [] w = Inr ([], w)"
| "serve_clients os s (c # cs) w =
     (if c \<noteq> 0 then
        bind_res (FD_ISSET c s) (\<lambda>ready.
          if ready then
            (case s_recv os c BUFFER_SIZE w of
               (RecvData bs, w1) \<Rightarrow>
                 let byte_num = min (length bs) BUFFER_SIZE
                 in if BUFFER_SIZE \<le> byte_num then Inl OutOfBounds
                    else bind_res (serve_clients os s cs (snd (s_send os c (take byte_num bs) w1)))
                           (\<lambda>(cs', w'). Inr (c # cs', w'))
             | (RecvErr _, w1) \<Rightarrow> bind_res (serve_clients os s cs w1) (\<lambda>(cs', w'). Inr (c # cs', w'))
             | (RecvEof, w1) \<Rightarrow> bind_res (serve_clients os (removeAll c s) cs w1) (\<lambda>(cs', w'). Inr (0 # cs', w')))
          else bind_res (serve_clients os s cs w) (\<lambda>(cs', w'). Inr (c # cs', w')))
      else bind_res (serve_clients os s cs w) (\<lambda>(cs', w'). Inr (c # cs', w')))"

text \<open>What a round does with the descriptors \<^verbatim>\<open>select\<close> left in the set.\<close>

definition select_ready :: "'w sock_api \<Rightarrow> int list \<Rightarrow> select_srv \<Rightarrow> 'w \<Rightarrow> (select_srv \<times> 'w) res" where
  "select_ready os s st w =
     bind_res (FD_ISSET 0 s) (\<lambda>stdin.
     bind_res (if stdin then read_stdin os (client_fds st) w else Inr w) (\<lambda>w1.
     bind_res (FD_ISSET (server_sock_fd st) s) (\<lambda>incoming.
       let (st2, w2) = (if incoming then accept_client os st w1 else (st, w1))
       in bind_res (serve_clients os s (client_fds st2) w2) (\<lambda>(fds, w3). Inr (st2\<lparr>client_fds := fds\<rparr>, w3)))))"

definition select_round :: "'w sock_api \<Rightarrow> select_srv \<Rightarrow> 'w \<Rightarrow> (select_srv \<times> 'w) res" where
  "select_round os st w =
     bind_res (FD_SET 0 []) (\<lambda>s0.
     let m0 = (if max_fd st < 0 then 0 else max_fd st)
     in bind_res (FD_SET (server_sock_fd st) s0) (\<lambda>s1.
     let m1 = (if m0 < server_sock_fd st then server_sock_fd st else m0)
     in bind_res (watch_clients (client_fds st) s1 m1) (\<lambda>(s2, m2).
     let st1 = st\<lparr>max_fd := m2\<rparr>; (ret, s, w1) = s_select os (m2 + 1) s2 w
     in if ret < 0 then Inr (st1, w1)
        else if ret = 0 then Inr (st1, w1)
        else select_ready os s st1 w1)))"

text \<open>Up to the loop; \<open>None\<close> when \<^verbatim>\<open>main\<close> returns 1.\<close>

definition select_init :: "'w sock_api \<Rightarrow> 'w \<Rightarrow> select_srv option \<times> 'w" where
  "select_init os w =
     (let (fd, w1) = s_socket os w
      in if fd = - 1 then (None, w1)
         else let (bind_result, w2) = s_bind os fd w1
              in if bind_result = - 1 then (None, w2)
                 else let (r, w3) = s_listen os fd 5 w2
                      in if r = - 1 then (None, w3)
                         else (Some \<lparr>client_fds = replicate CONCURRENT_MAX 0, keep_running = True,
                                     server_sock_fd = fd, max_fd = - 1\<rparr>, w3))"

fun close_clients :: "'w sock_api \<Rightarrow> int list \<Rightarrow> 'w \<Rightarrow> 'w" where
  "close_clients os [] w = w"
| "close_clients os (c # cs) w = close_clients os cs (if c \<noteq> 0 then s_close os c w else w)"

definition select_finish :: "'w sock_api \<Rightarrow> select_srv \<Rightarrow> 'w \<Rightarrow> 'w" where
  "select_finish os st w = s_close os (server_sock_fd st) (close_clients os (client_fds st) w)"

text \<open>The loop: a round while \<open>keep_running\<close> is set; the signal handler may run at any time.\<close>

inductive sel_step :: "'w sock_api \<Rightarrow> select_srv \<times> 'w \<Rightarrow> select_srv \<times> 'w \<Rightarrow> bool" for os where
  round: "keep_running st \<Longrightarrow> select_round os st w = Inr (st', w') \<Longrightarrow> sel_step os (st, w) (st', w')"
| signal: "sel_step os (st, w) (sig_handle sig st, w)"

abbreviation sel_reach :: "'w sock_api \<Rightarrow> select_srv \<times> 'w \<Rightarrow> select_srv \<times> 'w \<Rightarrow> bool" where
  "sel_reach os \<equiv> (sel_step os)\<^sup>*\<^sup>*"

inductive_cases sel_stepE: "sel_step os s s'"

section \<open>The client table\<close>

definition nonzero :: "int list \<Rightarrow> int list" where
  "nonzero fds = filter (\<lambda>c. c \<noteq> 0) fds"

lemma nonzero_simps [simp]:
  "nonzero [] = []"
  "nonzero (c # cs) = (if c = 0 then nonzero cs else c # nonzero cs)"
  by (simp_all add: nonzero_def)

lemma set_nonzero [simp]: "set (nonzero fds) = set fds - {0}"
  by (auto simp: nonzero_def)

lemma nonzero_replicate [simp]: "nonzero (replicate n 0) = []"
  by (induction n) simp_all

lemma add_client_spec:
  assumes "add_client i fd cs = (index, cs')" and "0 \<le> i"
  shows "length cs' = length cs" and "0 \<le> index \<longleftrightarrow> 0 \<in> set cs"
    and "0 \<notin> set cs \<Longrightarrow> cs' = cs"
    and "0 \<in> set cs \<Longrightarrow> fd \<noteq> 0 \<Longrightarrow> \<exists>xs ys. cs = xs @ 0 # ys \<and> 0 \<notin> set xs \<and> cs' = xs @ fd # ys \<and> index = i + int (length xs)"
  using assms
proof (induction i fd cs arbitrary: index cs' rule: add_client.induct)
  case (2 i fd c cs)
  {
    case 1
    then show ?case using "2.IH"(1) by (auto split: if_splits prod.splits)
  next
    case 2
    then show ?case using "2.IH"(2) by (auto split: if_splits prod.splits)
  next
    case 3
    then show ?case using "2.IH"(3) by (auto split: if_splits prod.splits)
  next
    case 4
    show ?case
    proof (cases "c = 0")
      case True
      with 4 show ?thesis by (intro exI[of _ "[]"] exI[of _ cs]) simp
    next
      case False
      with 4 obtain cs1 where cs1: "add_client (i + 1) fd cs = (index, cs1)" "cs' = c # cs1"
        by (auto split: prod.splits)
      with "2.IH"(4)[OF False _ _ cs1(1)] 4 False obtain xs ys where
        "cs = xs @ 0 # ys" "0 \<notin> set xs" "cs1 = xs @ fd # ys" "index = i + 1 + int (length xs)" by auto
      with cs1 False show ?thesis by (intro exI[of _ "c # xs"] exI[of _ ys]) simp
    qed
  }
qed auto

lemma nonzero_append [simp]: "nonzero (xs @ ys) = nonzero xs @ nonzero ys"
  by (simp add: nonzero_def)

lemma add_client_table:
  assumes "add_client i fd cs = (index, cs')" and "0 \<le> i" and "fd \<noteq> 0"
  shows "set cs' \<subseteq> insert fd (set cs)"
    and "distinct (nonzero cs) \<Longrightarrow> fd \<notin> set cs \<Longrightarrow> distinct (nonzero cs')"
proof -
  show "set cs' \<subseteq> insert fd (set cs)"
    using add_client_spec(3,4)[OF assms(1,2)] assms(3) by (cases "0 \<in> set cs") auto
  show "distinct (nonzero cs) \<Longrightarrow> fd \<notin> set cs \<Longrightarrow> distinct (nonzero cs')"
    using add_client_spec(3,4)[OF assms(1,2)] assms(3) by (cases "0 \<in> set cs") auto
qed

text \<open>Serving only zeroes slots; it neither opens nor closes a descriptor.\<close>

definition cleared :: "int list \<Rightarrow> int list \<Rightarrow> bool" where
  "cleared cs cs' \<longleftrightarrow> list_all2 (\<lambda>c c'. c' = c \<or> c' = 0) cs cs'"

lemma cleared_simps [simp]:
  "cleared [] cs' \<longleftrightarrow> cs' = []"
  "cleared (c # cs) (c' # cs') \<longleftrightarrow> (c' = c \<or> c' = 0) \<and> cleared cs cs'"
  by (simp_all add: cleared_def)

lemma cleared_table:
  assumes "cleared cs cs'"
  shows "length cs' = length cs" and "set cs' \<subseteq> insert 0 (set cs)"
    and "distinct (nonzero cs) \<Longrightarrow> distinct (nonzero cs')"
proof -
  have "length cs' = length cs \<and> set cs' \<subseteq> insert 0 (set cs) \<and> (distinct (nonzero cs) \<longrightarrow> distinct (nonzero cs'))"
    using assms unfolding cleared_def by (induction rule: list_all2_induct) auto
  then show "length cs' = length cs" and "set cs' \<subseteq> insert 0 (set cs)"
    and "distinct (nonzero cs) \<Longrightarrow> distinct (nonzero cs')" by blast+
qed

lemma bind_res_eq_Inl: "bind_res r f = Inl e \<longleftrightarrow> r = Inl e \<or> (\<exists>x. r = Inr x \<and> f x = Inl e)"
  by (cases r) auto

lemma serve_ConsE:
  assumes "serve_clients os s (c # cs) w = Inr (cs', w')"
  obtains
    (idle) cs1 where "c = 0 \<or> c \<notin> set s" "serve_clients os s cs w = Inr (cs1, w')" "cs' = c # cs1"
  | (data) bs w1 r w2 cs1 where "c \<noteq> 0" "c \<in> set s" "s_recv os c BUFFER_SIZE w = (RecvData bs, w1)"
      "length bs < BUFFER_SIZE" "s_send os c bs w1 = (r, w2)" "serve_clients os s cs w2 = Inr (cs1, w')" "cs' = c # cs1"
  | (failed) e w1 cs1 where "c \<noteq> 0" "c \<in> set s" "s_recv os c BUFFER_SIZE w = (RecvErr e, w1)"
      "serve_clients os s cs w1 = Inr (cs1, w')" "cs' = c # cs1"
  | (left) w1 cs1 where "c \<noteq> 0" "c \<in> set s" "s_recv os c BUFFER_SIZE w = (RecvEof, w1)"
      "serve_clients os (removeAll c s) cs w1 = Inr (cs1, w')" "cs' = 0 # cs1"
proof (cases "c = 0 \<or> c \<notin> set s")
  case True
  with assms idle show ?thesis by (auto simp: bind_res_eq_Inr FD_ISSET_def split: if_splits)
next
  case False
  obtain q w1 where q: "s_recv os c BUFFER_SIZE w = (q, w1)" by fastforce
  show ?thesis
  proof (cases q)
    case (RecvData bs)
    obtain r w2 where "s_send os c bs w1 = (r, w2)" by fastforce
    with assms False q RecvData data[of bs w1 r w2] show ?thesis
      by (auto simp: bind_res_eq_Inr FD_ISSET_def Let_def split: if_splits)
  next
    case RecvEof
    with assms False q left[of w1] show ?thesis by (auto simp: bind_res_eq_Inr FD_ISSET_def split: if_splits)
  next
    case (RecvErr e)
    with assms False q failed[of e w1] show ?thesis by (auto simp: bind_res_eq_Inr FD_ISSET_def split: if_splits)
  qed
qed

lemma serve_cleared: "serve_clients os s cs w = Inr (cs', w') \<Longrightarrow> cleared cs cs'"
  by (induction cs arbitrary: s w cs' w') (auto elim!: serve_ConsE simp del: serve_clients.simps(2))

lemma serve_opn:
  assumes "posix_documented os opn lim"
  shows "serve_clients os s cs w = Inr (cs', w') \<Longrightarrow> opn w' = opn w"
proof (induction cs arbitrary: s w cs' w')
  case (Cons c cs)
  from Cons.prems Cons.IH show ?case
    by (elim serve_ConsE) (metis posix_documentedD(4)[OF assms] posix_documentedD(5)[OF assms])+
qed simp

text \<open>A round's only memory errors: a full receive buffer, or a descriptor that \<^verbatim>\<open>fd_set\<close> cannot hold.\<close>

lemma serve_fault:
  "serve_clients os s cs w = Inl e \<Longrightarrow> e = OutOfBounds \<and>
     (\<exists>c \<in> set cs. c \<noteq> 0 \<and> (c < 0 \<or> FD_SETSIZE \<le> c \<or>
        (\<exists>w0 bs w1. s_recv os c BUFFER_SIZE w0 = (RecvData bs, w1) \<and> BUFFER_SIZE \<le> length bs)))"
proof (induction cs arbitrary: s w)
  case (Cons c cs)
  show ?case
  proof (cases "\<exists>s' w'. serve_clients os s' cs w' = Inl e")
    case True
    then show ?thesis using Cons.IH by (meson list.set_intros(2))
  next
    case False
    with Cons.prems show ?thesis
      by (fastforce simp: bind_res_eq_Inl FD_ISSET_def Let_def split: if_splits prod.splits recv_result.splits)
  qed
qed simp

lemma send_clients_opn:
  assumes "posix_documented os opn lim"
  shows "opn (send_clients os msg cs w) = opn w"
proof (induction cs arbitrary: w)
  case (Cons c cs)
  then show ?case by (cases "s_send os c msg w") (auto dest: posix_documentedD(5)[OF assms])
qed simp

lemma watch_spec:
  "watch_clients cs s m = Inr (s', m') \<Longrightarrow>
     set s' = set s \<union> (set cs - {0}) \<and> m \<le> m' \<and> (\<forall>c \<in> set cs - {0}. c \<le> m')"
proof (induction cs arbitrary: s m)
  case (Cons c cs)
  show ?case
  proof (cases "c = 0")
    case True
    with Cons show ?thesis by auto
  next
    case False
    with Cons.prems have "watch_clients cs (c # s) (if m < c then c else m) = Inr (s', m')"
      by (auto simp: bind_res_eq_Inr FD_SET_def split: if_splits)
    from Cons.IH[OF this] False show ?thesis by (auto split: if_splits)
  qed
qed simp

lemma watch_ok:
  "\<forall>c \<in> set cs - {0}. 0 < c \<and> c < FD_SETSIZE \<Longrightarrow> \<exists>s' m'. watch_clients cs s m = Inr (s', m')"
proof (induction cs arbitrary: s m)
  case (Cons c cs)
  have "\<forall>c \<in> set cs - {0}. 0 < c \<and> c < FD_SETSIZE" using Cons.prems by simp
  moreover have "c = 0 \<or> 0 \<le> c \<and> c < FD_SETSIZE" using bspec[OF Cons.prems, of c] by auto
  ultimately show ?case using Cons.IH by (auto simp: FD_SET_def)
qed simp

section \<open>The loop keeps its table\<close>

definition sel_inv :: "('w \<Rightarrow> int set) \<Rightarrow> int \<Rightarrow> select_srv \<Rightarrow> 'w \<Rightarrow> bool" where
  "sel_inv opn lim st w \<longleftrightarrow>
     length (client_fds st) = CONCURRENT_MAX \<and> distinct (nonzero (client_fds st)) \<and>
     (\<forall>c \<in> set (client_fds st) - {0}. 0 < c \<and> c < lim \<and> c \<in> opn w \<and> c \<noteq> server_sock_fd st) \<and>
     server_sock_fd st \<in> opn w \<and> 0 < server_sock_fd st \<and> server_sock_fd st < lim"

lemma sel_inv_cleared:
  "sel_inv opn lim st w \<Longrightarrow> cleared (client_fds st) fds \<Longrightarrow> opn w' = opn w
     \<Longrightarrow> sel_inv opn lim (st\<lparr>client_fds := fds\<rparr>) w'"
  using cleared_table[of "client_fds st" fds] unfolding sel_inv_def by auto

lemma sel_inv_max [simp]: "sel_inv opn lim (st\<lparr>max_fd := m\<rparr>) w = sel_inv opn lim st w"
  by (simp add: sel_inv_def)

lemma sel_inv_world: "sel_inv opn lim st w \<Longrightarrow> opn w' = opn w \<Longrightarrow> sel_inv opn lim st w'"
  by (simp add: sel_inv_def)

lemma accept_client_inv:
  assumes os: "posix_documented os opn lim" and inv: "sel_inv opn lim st w"
    and acc: "accept_client os st w = (st', w')"
  shows "sel_inv opn lim st' w'" and "opn w \<subseteq> opn w'"
proof -
  obtain fd w1 where fd: "s_accept os (server_sock_fd st) w = (fd, w1)" by fastforce
  note d = posix_documentedD(3)[OF os fd]
  show "sel_inv opn lim st' w'" and "opn w \<subseteq> opn w'"
  proof (atomize (full), cases "0 < fd")
    case False
    with acc fd d inv show "sel_inv opn lim st' w' \<and> opn w \<subseteq> opn w'"
      by (auto simp: accept_client_def intro: sel_inv_world)
  next
    case True
    obtain index fds where add: "add_client 0 fd (client_fds st) = (index, fds)" by fastforce
    obtain r w2 where "s_send os fd (pad_msg FULL_MSG) w1 = (r, w2)" by fastforce
    then have w': "st' = st\<lparr>client_fds := fds\<rparr>" "opn w' = opn w1"
      using acc fd True add by (auto simp: accept_client_def Let_def dest: posix_documentedD(5)[OF os] split: if_splits)
    have fresh: "fd \<notin> set (client_fds st)" using d True inv unfolding sel_inv_def by auto
    have "sel_inv opn lim (st\<lparr>client_fds := fds\<rparr>) w'"
      using inv w'(2) d True fresh add_client_spec(1)[OF add] add_client_table[OF add]
      unfolding sel_inv_def by auto
    with w' d True show "sel_inv opn lim st' w' \<and> opn w \<subseteq> opn w'" by auto
  qed
qed

lemma read_stdin_opn:
  assumes "posix_documented os opn lim" and "read_stdin os fds w = Inr w'"
  shows "opn w' = opn w"
  using assms(2) by (auto simp: read_stdin_def Let_def send_clients_opn[OF assms(1)]
      dest: posix_documentedD(7)[OF assms(1)] split: prod.splits if_splits)

lemma select_readyE:
  assumes r: "select_ready os s st w = Inr (st', w')"
  obtains stdin w1 incoming st2 w2 fds where
    "(if stdin then read_stdin os (client_fds st) w else Inr w) = Inr w1"
    "(if incoming then accept_client os st w1 else (st, w1)) = (st2, w2)"
    "serve_clients os s (client_fds st2) w2 = Inr (fds, w')" "st' = st2\<lparr>client_fds := fds\<rparr>"
proof -
  from r obtain stdin w1 incoming where
    1: "(if stdin then read_stdin os (client_fds st) w else Inr w) = Inr w1" and
    rest: "(let (st2, w2) = (if incoming then accept_client os st w1 else (st, w1))
       in bind_res (serve_clients os s (client_fds st2) w2) (\<lambda>(fds, w3). Inr (st2\<lparr>client_fds := fds\<rparr>, w3))) = Inr (st', w')"
    unfolding select_ready_def bind_res_eq_Inr by blast
  obtain st2 w2 where 2: "(if incoming then accept_client os st w1 else (st, w1)) = (st2, w2)" by fastforce
  with rest obtain fds where
    3: "serve_clients os s (client_fds st2) w2 = Inr (fds, w')" and st': "st' = st2\<lparr>client_fds := fds\<rparr>"
    by (auto simp: bind_res_eq_Inr)
  from 1 2 3 st' that show ?thesis by blast
qed

lemma select_ready_inv:
  assumes os: "posix_documented os opn lim" and inv: "sel_inv opn lim st w"
    and r: "select_ready os s st w = Inr (st', w')"
  shows "sel_inv opn lim st' w'" and "opn w \<subseteq> opn w'"
proof -
  from r obtain stdin w1 incoming st2 w2 fds where
    1: "(if stdin then read_stdin os (client_fds st) w else Inr w) = Inr w1" and
    2: "(if incoming then accept_client os st w1 else (st, w1)) = (st2, w2)" and
    3: "serve_clients os s (client_fds st2) w2 = Inr (fds, w')" and st': "st' = st2\<lparr>client_fds := fds\<rparr>"
    by (rule select_readyE)
  have o1: "opn w1 = opn w" using 1 read_stdin_opn[OF os] by (auto split: if_splits)
  have i1: "sel_inv opn lim st w1" using inv o1 by (rule sel_inv_world)
  have i2: "sel_inv opn lim st2 w2" "opn w \<subseteq> opn w2"
    using 2 i1 o1 accept_client_inv[OF os i1, of st2 w2] by (auto split: if_splits)
  show "sel_inv opn lim st' w'"
    unfolding st' using i2(1) serve_cleared[OF 3] serve_opn[OF os 3] by (rule sel_inv_cleared)
  show "opn w \<subseteq> opn w'" using i2(2) serve_opn[OF os 3] by simp
qed

lemma select_roundE:
  assumes r: "select_round os st w = Inr (st', w')"
  obtains s2 m2 ret s w1 where "s_select os (m2 + 1) s2 w = (ret, s, w1)"
    "(st' = st\<lparr>max_fd := m2\<rparr> \<and> w' = w1) \<or> select_ready os s (st\<lparr>max_fd := m2\<rparr>) w1 = Inr (st', w')"
proof -
  from r obtain s2 m2 where
    rest: "(let st1 = st\<lparr>max_fd := m2\<rparr>; (ret, s, w1) = s_select os (m2 + 1) s2 w
       in if ret < 0 then Inr (st1, w1) else if ret = 0 then Inr (st1, w1) else select_ready os s st1 w1) = Inr (st', w')"
    unfolding select_round_def bind_res_eq_Inr Let_def by (auto simp: Let_def)
  obtain ret s w1 where sel: "s_select os (m2 + 1) s2 w = (ret, s, w1)" by (metis prod.collapse)
  with rest have
    c: "(st' = st\<lparr>max_fd := m2\<rparr> \<and> w' = w1) \<or> select_ready os s (st\<lparr>max_fd := m2\<rparr>) w1 = Inr (st', w')"
    by (auto simp: Let_def split: if_splits)
  from sel c that show ?thesis by blast
qed

lemma select_round_inv:
  assumes os: "posix_documented os opn lim" and inv: "sel_inv opn lim st w"
    and r: "select_round os st w = Inr (st', w')"
  shows "sel_inv opn lim st' w' \<and> opn w \<subseteq> opn w'"
proof -
  from r obtain s2 m2 ret s w1 where sel: "s_select os (m2 + 1) s2 w = (ret, s, w1)" and
    c: "(st' = st\<lparr>max_fd := m2\<rparr> \<and> w' = w1) \<or> select_ready os s (st\<lparr>max_fd := m2\<rparr>) w1 = Inr (st', w')"
    by (rule select_roundE)
  have o: "opn w1 = opn w" using posix_documentedD(9)[OF os sel] .
  have i: "sel_inv opn lim (st\<lparr>max_fd := m2\<rparr>) w1" using inv o by (simp add: sel_inv_world)
  from c show ?thesis
  proof
    assume "st' = st\<lparr>max_fd := m2\<rparr> \<and> w' = w1"
    with i o show ?thesis by simp
  next
    assume "select_ready os s (st\<lparr>max_fd := m2\<rparr>) w1 = Inr (st', w')"
    from select_ready_inv[OF os i this] o show ?thesis by simp
  qed
qed

text \<open>Faults of a round: the command that ends the server, or a client that fills the receive buffer.\<close>

definition fills_buffer :: "'w sock_api \<Rightarrow> bool" where
  "fills_buffer os \<longleftrightarrow> (\<exists>fd w bs w'. s_recv os fd BUFFER_SIZE w = (RecvData bs, w') \<and> length bs = BUFFER_SIZE)"

lemma select_ready_fault:
  assumes os: "posix_documented os opn lim" and lim: "lim \<le> FD_SETSIZE" and inv: "sel_inv opn lim st w"
    and r: "select_ready os s st w = Inl e"
  shows "e = Exited 0 \<or> e = OutOfBounds \<and> fills_buffer os"
proof -
  have zero: "FD_ISSET 0 s = Inr (0 \<in> set s)" by (simp add: FD_ISSET_def FD_SETSIZE_def)
  have srv: "FD_ISSET (server_sock_fd st) s = Inr (server_sock_fd st \<in> set s)"
    using inv lim by (simp add: FD_ISSET_def sel_inv_def)
  show ?thesis
  proof (cases "if 0 \<in> set s then read_stdin os (client_fds st) w else Inr w")
    case (Inl e')
    with r zero show ?thesis
      by (auto simp: select_ready_def read_stdin_def Let_def split: if_splits prod.splits)
  next
    case (Inr w1)
    then have o1: "opn w1 = opn w" using read_stdin_opn[OF os] by (auto split: if_splits)
    obtain st2 w2 where st2: "(if server_sock_fd st \<in> set s then accept_client os st w1 else (st, w1)) = (st2, w2)"
      by fastforce
    have i2: "sel_inv opn lim st2 w2"
      using st2 sel_inv_world[OF inv o1] accept_client_inv(1)[OF os] by (auto split: if_splits)
    from r zero srv Inr st2 have "serve_clients os s (client_fds st2) w2 = Inl e"
      by (auto simp: select_ready_def bind_res_eq_Inl)
    from serve_fault[OF this] obtain c where e: "e = OutOfBounds" and c: "c \<in> set (client_fds st2)" "c \<noteq> 0"
      "c < 0 \<or> FD_SETSIZE \<le> c \<or> (\<exists>w0 bs w1. s_recv os c BUFFER_SIZE w0 = (RecvData bs, w1) \<and> BUFFER_SIZE \<le> length bs)"
      by blast
    then have "fills_buffer os"
      using i2 lim recv_documentedD(2)[OF posix_documentedD(1)[OF os]]
      unfolding sel_inv_def fills_buffer_def by (smt (verit) DiffI le_antisym singletonD)
    with e show ?thesis by simp
  qed
qed

lemma select_round_fault:
  assumes os: "posix_documented os opn lim" and lim: "lim \<le> FD_SETSIZE" and inv: "sel_inv opn lim st w"
    and r: "select_round os st w = Inl e"
  shows "e = Exited 0 \<or> e = OutOfBounds \<and> fills_buffer os"
proof -
  have zero: "FD_SET 0 [] = Inr [0]" by (simp add: FD_SET_def FD_SETSIZE_def)
  have srv: "\<And>s. FD_SET (server_sock_fd st) s = Inr (server_sock_fd st # s)"
    using inv lim by (simp add: FD_SET_def sel_inv_def)
  define m where "m = (let m0 = (if max_fd st < 0 then 0 else max_fd st) in if m0 < server_sock_fd st then server_sock_fd st else m0)"
  have "\<forall>c \<in> set (client_fds st) - {0}. 0 < c \<and> c < FD_SETSIZE"
    using inv lim unfolding sel_inv_def by (blast intro: less_le_trans)
  from watch_ok[OF this] obtain s2 m2 where
    wt: "watch_clients (client_fds st) [server_sock_fd st, 0] m = Inr (s2, m2)" by blast
  obtain ret s w1 where sel: "s_select os (m2 + 1) s2 w = (ret, s, w1)" by (metis prod.collapse)
  have "select_ready os s (st\<lparr>max_fd := m2\<rparr>) w1 = Inl e"
    using r zero srv wt sel unfolding select_round_def m_def by (auto simp: Let_def split: if_splits)
  moreover have "sel_inv opn lim (st\<lparr>max_fd := m2\<rparr>) w1"
    using inv posix_documentedD(9)[OF os sel] by (simp add: sel_inv_world)
  ultimately show ?thesis using select_ready_fault[OF os lim] by blast
qed

lemma select_ready_server: "select_ready os s st w = Inr (st', w') \<Longrightarrow> server_sock_fd st' = server_sock_fd st"
  by (erule select_readyE) (auto simp: accept_client_def Let_def split: if_splits prod.splits)

lemma select_round_server: "select_round os st w = Inr (st', w') \<Longrightarrow> server_sock_fd st' = server_sock_fd st"
  by (erule select_roundE) (auto dest: select_ready_server)

lemma sel_step_inv:
  assumes "posix_documented os opn lim" and "sel_step os (st, w) (st', w')" and "sel_inv opn lim st w"
  shows "sel_inv opn lim st' w' \<and> opn w \<subseteq> opn w' \<and> server_sock_fd st' = server_sock_fd st"
  using assms(2)
proof (cases rule: sel_step.cases)
  case round
  then show ?thesis using select_round_inv[OF assms(1,3) round(2)] select_round_server[OF round(2)] by simp
next
  case (signal sig)
  then show ?thesis using assms(3) by (simp add: sel_inv_def sig_handle_def)
qed

text \<open>The loop as a machine: no step closes a descriptor or changes the listening one.\<close>

interpretation sel: growing_machine "sel_step os"
    "\<lambda>s. posix_documented os opn lim \<and> sel_inv opn lim (fst s) (snd s)"
    "\<lambda>s t. opn (snd s) \<subseteq> opn (snd t) \<and> server_sock_fd (fst t) = server_sock_fd (fst s)"
  for os :: "'w sock_api" and opn lim
proof (unfold_locales, goal_cases)
  case (1 s s')
  then show ?case using sel_step_inv[of os opn lim "fst s" "snd s" "fst s'" "snd s'"] by simp
next
  case (4 s s')
  then show ?case using sel_step_inv[of os opn lim "fst s" "snd s" "fst s'" "snd s'"] by simp
qed auto

lemma sel_reach_inv:
  assumes "posix_documented os opn lim" and "sel_inv opn lim st0 w0" and "sel_reach os (st0, w0) x"
  shows "sel_inv opn lim (fst x) (snd x) \<and> opn w0 \<subseteq> opn (snd x) \<and> server_sock_fd (fst x) = server_sock_fd st0"
  using sel.inv_run[OF assms(3), of opn lim] sel.le_run[OF assms(3), of opn lim] assms(1,2) by simp

lemma select_init_inv:
  assumes "posix_documented os opn lim" and "select_init os w = (Some st, w')"
  shows "sel_inv opn lim st w'"
proof -
  obtain fd w1 where 1: "s_socket os w = (fd, w1)" by fastforce
  obtain r2 w2 where 2: "s_bind os fd w1 = (r2, w2)" by fastforce
  obtain r3 w3 where 3: "s_listen os fd 5 w2 = (r3, w3)" by fastforce
  have "opn w3 = opn w1" using posix_documentedD(15)[OF assms(1) 2] posix_documentedD(16)[OF assms(1) 3] by simp
  moreover have "fd \<noteq> - 1" "st = \<lparr>client_fds = replicate CONCURRENT_MAX 0, keep_running = True, server_sock_fd = fd, max_fd = - 1\<rparr>"
    "w' = w3" using assms(2) 1 2 3 by (auto simp: select_init_def Let_def split: if_splits)
  ultimately show ?thesis using posix_documentedD(14)[OF assms(1) 1] by (auto simp: sel_inv_def)
qed

section \<open>Echo\<close>

text \<open>A log in which every receipt of data is at once sent back where it came from.\<close>

fun echo_trace :: "io list \<Rightarrow> bool" where
  "echo_trace [] = True"
| "echo_trace (IoRecv fd [] # evs) = echo_trace evs"
| "echo_trace (IoRecvErr fd # evs) = echo_trace evs"
| "echo_trace (IoRecv fd (b # bs) # IoSend fd' bs' r # evs) = (fd' = fd \<and> bs' = b # bs \<and> echo_trace evs)"
| "echo_trace evs = False"

fun received_from :: "io list \<Rightarrow> int list" where
  "received_from [] = []"
| "received_from (IoRecv fd bs # evs) = fd # received_from evs"
| "received_from (IoRecvErr fd # evs) = fd # received_from evs"
| "received_from (_ # evs) = received_from evs"

lemma logged_recvD:
  "s_recv (logged os) fd n (l, w) = (r, x) \<Longrightarrow> \<exists>w'. x = (l @ [recv_event fd r], w') \<and> s_recv os fd n w = (r, w')"
  by (auto simp: logged_def split: prod.splits)

lemma logged_sendD:
  "s_send (logged os) fd bs (l, w) = (r, x) \<Longrightarrow> \<exists>w'. x = (l @ [IoSend fd bs r], w') \<and> s_send os fd bs w = (r, w')"
  by (auto simp: logged_def split: prod.splits)

lemma received_from_set: "IoRecv c [] \<in> set evs \<Longrightarrow> c \<in> set (received_from evs)"
  by (induction evs rule: received_from.induct) auto

text \<open>
  What one client adds to the log: \<open>evs1\<close> before the events \<open>evs\<close> of the clients after it, whose set of ready
  descriptors \<open>s'\<close> differs from \<open>s\<close> at most by the client itself.
\<close>

lemma echo_step:
  assumes IH: "echo_trace evs" "received_from evs = filter (\<lambda>c. c \<in> set s') (nonzero cs)"
      "cs1 = map (\<lambda>d. if IoRecv d [] \<in> set evs then 0 else d) cs"
    and d: "distinct (nonzero (c # cs))" and s': "set s - {c} \<subseteq> set s'" "set s' \<subseteq> set s"
    and evs1: "echo_trace (evs1 @ evs)" "received_from (evs1 @ evs) = (if c \<noteq> 0 \<and> c \<in> set s then [c] else []) @ received_from evs"
    and gone: "\<forall>d. IoRecv d [] \<in> set evs1 \<longrightarrow> d = c" "c' = (if IoRecv c [] \<in> set evs1 then 0 else c)"
  shows "echo_trace (evs1 @ evs) \<and> received_from (evs1 @ evs) = filter (\<lambda>c. c \<in> set s) (nonzero (c # cs))
      \<and> c' # cs1 = map (\<lambda>d. if IoRecv d [] \<in> set (evs1 @ evs) then 0 else d) (c # cs)"
proof (intro conjI)
  have nc: "c = 0 \<or> c \<notin> set cs" using d by auto
  have f: "filter (\<lambda>c. c \<in> set s') (nonzero cs) = filter (\<lambda>c. c \<in> set s) (nonzero cs)"
    using s' nc by (intro filter_cong) auto
  show "received_from (evs1 @ evs) = filter (\<lambda>c. c \<in> set s) (nonzero (c # cs))"
    using evs1(2) IH(2) f by auto
  have "IoRecv c [] \<notin> set evs \<or> c = 0" using received_from_set[of c evs] IH(2) nc by auto
  then have "c' = (if IoRecv c [] \<in> set (evs1 @ evs) then 0 else c)" using gone(2) by auto
  moreover have "cs1 = map (\<lambda>d. if IoRecv d [] \<in> set (evs1 @ evs) then 0 else d) cs"
    unfolding IH(3) by (rule map_cong) (use gone(1) nc in auto)
  ultimately show "c' # cs1 = map (\<lambda>d. if IoRecv d [] \<in> set (evs1 @ evs) then 0 else d) (c # cs)" by simp
qed (rule evs1(1))

lemma serve_echo:
  assumes os: "recv_documented (s_recv os)"
  shows "distinct (nonzero cs) \<Longrightarrow> serve_clients (logged os) s cs (l, w) = Inr (cs', l', w') \<Longrightarrow>
    \<exists>evs. l' = l @ evs \<and> echo_trace evs \<and> received_from evs = filter (\<lambda>c. c \<in> set s) (nonzero cs)
      \<and> cs' = map (\<lambda>c. if IoRecv c [] \<in> set evs then 0 else c) cs"
proof (induction cs arbitrary: s l w cs')
  case (Cons c cs)
  have d: "distinct (nonzero cs)" using Cons.prems(1) by (auto split: if_splits)
  note IH = Cons.IH[OF d] and step = echo_step[OF _ _ _ Cons.prems(1)]
  from Cons.prems(2) show ?case
  proof (cases rule: serve_ConsE)
    case (idle cs1)
    from IH[OF idle(2)] obtain evs where e: "l' = l @ evs" "echo_trace evs"
      "received_from evs = filter (\<lambda>c. c \<in> set s) (nonzero cs)" "cs1 = map (\<lambda>c. if IoRecv c [] \<in> set evs then 0 else c) cs"
      by blast
    from step[OF e(2,3,4), of s "[]" c] e(1,2) idle(1,3) show ?thesis by auto
  next
    case (data bs w1 r w2 cs1)
    from logged_recvD[OF data(3)] obtain u1 where u1: "w1 = (l @ [IoRecv c bs], u1)" "s_recv os c BUFFER_SIZE w = (RecvData bs, u1)"
      by auto
    from logged_sendD data(5) u1 obtain u2 where u2: "w2 = (l @ [IoRecv c bs, IoSend c bs r], u2)" by fastforce
    obtain b bs' where bs: "bs = b # bs'" using recv_documentedD(1)[OF os u1(2)] by (cases bs) auto
    from IH data(6) u2 obtain evs where e: "l' = (l @ [IoRecv c bs, IoSend c bs r]) @ evs" "echo_trace evs"
      "received_from evs = filter (\<lambda>c. c \<in> set s) (nonzero cs)" "cs1 = map (\<lambda>c. if IoRecv c [] \<in> set evs then 0 else c) cs"
      by blast
    from step[OF e(2,3,4), of s "[IoRecv c bs, IoSend c bs r]" c] e(1,2) data(1,2,7) bs show ?thesis by auto
  next
    case (failed er w1 cs1)
    from logged_recvD[OF failed(3)] obtain u1 where u1: "w1 = (l @ [IoRecvErr c], u1)" by auto
    from IH failed(4) u1 obtain evs where e: "l' = (l @ [IoRecvErr c]) @ evs" "echo_trace evs"
      "received_from evs = filter (\<lambda>c. c \<in> set s) (nonzero cs)" "cs1 = map (\<lambda>c. if IoRecv c [] \<in> set evs then 0 else c) cs"
      by blast
    from step[OF e(2,3,4), of s "[IoRecvErr c]" c] e(1,2) failed(1,2,5) show ?thesis by auto
  next
    case (left w1 cs1)
    from logged_recvD[OF left(3)] obtain u1 where u1: "w1 = (l @ [IoRecv c []], u1)" by auto
    from IH left(4) u1 obtain evs where e: "l' = (l @ [IoRecv c []]) @ evs" "echo_trace evs"
      "received_from evs = filter (\<lambda>d. d \<in> set (removeAll c s)) (nonzero cs)" "cs1 = map (\<lambda>c. if IoRecv c [] \<in> set evs then 0 else c) cs"
      by blast
    from step[OF e(2,3,4), of s "[IoRecv c []]" 0] e(1,2) left(1,2,5) show ?thesis by auto
  qed
qed simp

section \<open>Properties\<close>


text \<open>
  C33. Serving the clients of a round: every ready client is read exactly once, in slot order; data that
  arrives is sent back to the client it came from, before the next client is read; exactly the slots of the clients
  at end of stream are cleared.
\<close>

theorem select_echoes:
  assumes "recv_documented (s_recv os)" and "distinct (nonzero cs)"
    and "serve_clients (logged os) s cs ([], w) = Inr (cs', evs, w')"
  shows "echo_trace evs \<and> received_from evs = filter (\<lambda>c. c \<in> set s) (nonzero cs)
      \<and> cs' = map (\<lambda>c. if IoRecv c [] \<in> set evs then 0 else c) cs"
  using serve_echo[OF assms(1-3)] by simp



lemma close_clients_opn:
  assumes "posix_documented os opn lim"
  shows "opn (close_clients os cs w) = opn w - (set cs - {0})"
  by (induction cs arbitrary: w) (auto simp: posix_documentedD(6)[OF assms])

text \<open>
  C34. A descriptor that is in the table at one point of the run and no longer at a later one is still open
  then, and after the shutdown code too: the loop clears the slot of a client that left and nothing
  closes its socket.
\<close>

theorem select_leaks_departed:
  assumes "posix_documented os opn lim" and "select_init os w = (Some st0, w0)"
    and "sel_reach os (st0, w0) (st1, w1)" and "sel_reach os (st1, w1) (st2, w2)"
    and "c \<in> set (nonzero (client_fds st1))" and "c \<notin> set (client_fds st2)"
  shows "c \<in> opn (select_finish os st2 w2)"
proof -
  have i1: "sel_inv opn lim st1 w1"
    using sel_reach_inv[OF assms(1) select_init_inv[OF assms(1,2)] assms(3)] by simp
  have "opn w1 \<subseteq> opn w2" using sel_reach_inv[OF assms(1) i1 assms(4)] by simp
  moreover have "server_sock_fd st2 = server_sock_fd st1" using sel_reach_inv[OF assms(1) i1 assms(4)] by simp
  ultimately show ?thesis using i1 assms(5,6)
    by (auto simp: select_finish_def posix_documentedD(6)[OF assms(1)] close_clients_opn[OF assms(1)] sel_inv_def)
qed

lemma select_overflow:
  "s_recv os c BUFFER_SIZE w = (RecvData bs, w1) \<Longrightarrow> length bs = BUFFER_SIZE \<Longrightarrow> 0 < c \<Longrightarrow> c < FD_SETSIZE \<Longrightarrow> c \<in> set s
     \<Longrightarrow> serve_clients os s (c # cs) w = Inl OutOfBounds"
  by (simp add: FD_ISSET_def)

text \<open>The quit command as a typed line keeps its newline and is never recognised.\<close>

lemma c_bytes_pad: "0 \<notin> set l \<Longrightarrow> c_bytes (pad_msg l) = l"
proof -
  assume "0 \<notin> set l"
  moreover have "takeWhile (\<lambda>b. b \<noteq> 0) (replicate n (0 :: byte)) = []" for n by (cases n) simp_all
  ultimately show ?thesis
    unfolding pad_msg_def c_bytes_def by (subst takeWhile_append2) auto
qed

lemma quit_line_ignored:
  assumes "s_fgets os BUFFER_SIZE w = (Some (l @ [10]), w1)" and "0 \<notin> set l"
  shows "read_stdin os fds w = Inr (send_clients os (pad_msg (l @ [10])) fds w1)"
proof -
  have "c_bytes (pad_msg (l @ [10])) = l @ [10]" using assms(2) by (intro c_bytes_pad) simp
  moreover have "10 \<notin> set QUIT_CMD" by (simp add: QUIT_CMD_def ascii_def)
  ultimately have "c_bytes (pad_msg (l @ [10])) \<noteq> QUIT_CMD" by (metis in_set_conv_decomp)
  with assms(1) show ?thesis by (simp add: read_stdin_def)
qed

section \<open>A concrete run\<close>

text \<open>
  Descriptor 3 listens; in the first round client 4 is accepted, in the second it sends two bytes, in the third it
  leaves.
\<close>

lemma serve_zeros [simp]: "serve_clients os s (replicate n 0) w = Inr (replicate n 0, w)"
  by (induction n) simp_all

lemma watch_zeros [simp]: "watch_clients (replicate n 0) s m = Inr (s, m)"
  by (induction n) simp_all

lemma slots: "replicate CONCURRENT_MAX (0 :: int) = 0 # replicate 9999 0"
proof -
  have "CONCURRENT_MAX = Suc 9999" by (simp add: CONCURRENT_MAX_def)
  then show ?thesis by (metis replicate_Suc)
qed

definition demo_in :: "nat \<Rightarrow> int \<Rightarrow> byte list list" where
  "demo_in k fd = (if fd = 4 then drop k [[104, 105], []] else [])"

definition demo_world :: "int list \<Rightarrow> int list \<Rightarrow> nat \<Rightarrow> nat \<Rightarrow> toy_world" where
  "demo_world opens accs k r = \<lparr>tw_open = opens, tw_accepts = accs, tw_input = demo_in k, tw_lines = [],
     tw_ready = drop r [[3], [4], [4]]\<rparr>"

definition demo_srv :: "int \<Rightarrow> int \<Rightarrow> select_srv" where
  "demo_srv c m = \<lparr>client_fds = c # replicate 9999 0, keep_running = True, server_sock_fd = 3, max_fd = m\<rparr>"

lemma demo_init: "select_init toy_os (demo_world [0] [4] 0 0) = (Some (demo_srv 0 (- 1)), demo_world [3, 0] [4] 0 0)"
  by (simp add: select_init_def toy_os_def demo_world_def demo_srv_def slots)


lemmas demo_defs = select_round_def select_ready_def accept_client_def FD_SET_def FD_ISSET_def FD_SETSIZE_def
  demo_srv_def demo_world_def toy_os_def toy_accept_def toy_ready_def toy_recv_def BUFFER_SIZE_def

lemma demo_rounds:
  "select_round toy_os (demo_srv 0 (- 1)) (demo_world [3, 0] [4] 0 0) = Inr (demo_srv 4 3, demo_world [4, 3, 0] [] 0 1)"
  "select_round toy_os (demo_srv 4 3) (demo_world [4, 3, 0] [] 0 1) = Inr (demo_srv 4 4, demo_world [4, 3, 0] [] 1 2)"
  "select_round toy_os (demo_srv 4 4) (demo_world [4, 3, 0] [] 1 2) = Inr (demo_srv 0 4, demo_world [4, 3, 0] [] 1 3)"
proof -
  show "select_round toy_os (demo_srv 0 (- 1)) (demo_world [3, 0] [4] 0 0) = Inr (demo_srv 4 3, demo_world [4, 3, 0] [] 0 1)"
    by (simp add: demo_defs Let_def)
  show "select_round toy_os (demo_srv 4 3) (demo_world [4, 3, 0] [] 0 1) = Inr (demo_srv 4 4, demo_world [4, 3, 0] [] 1 2)"
    by (simp add: demo_defs Let_def demo_in_def fun_eq_iff)
  show "select_round toy_os (demo_srv 4 4) (demo_world [4, 3, 0] [] 1 2) = Inr (demo_srv 0 4, demo_world [4, 3, 0] [] 1 3)"
    by (simp add: demo_defs Let_def demo_in_def fun_eq_iff)
qed

lemma demo_reach:
  "sel_reach toy_os (demo_srv 0 (- 1), demo_world [3, 0] [4] 0 0) (demo_srv 4 3, demo_world [4, 3, 0] [] 0 1)"
  "sel_reach toy_os (demo_srv 4 3, demo_world [4, 3, 0] [] 0 1) (demo_srv 0 4, demo_world [4, 3, 0] [] 1 3)"
proof -
  have k: "keep_running (demo_srv c m)" for c m by (simp add: demo_srv_def)
  show "sel_reach toy_os (demo_srv 0 (- 1), demo_world [3, 0] [4] 0 0) (demo_srv 4 3, demo_world [4, 3, 0] [] 0 1)"
    by (rule r_into_rtranclp[of "sel_step toy_os", OF sel_step.round[OF k demo_rounds(1)]])
  show "sel_reach toy_os (demo_srv 4 3, demo_world [4, 3, 0] [] 0 1) (demo_srv 0 4, demo_world [4, 3, 0] [] 1 3)"
    by (rule rtranclp.rtrancl_into_rtrancl[OF r_into_rtranclp[of "sel_step toy_os", OF sel_step.round[OF k demo_rounds(2)]]
        sel_step.round[OF k demo_rounds(3)]])
qed


theorem select_echoes_witness:
  "serve_clients (logged toy_os) [4] [4, 0, 5] ([], demo_world [4, 3, 0] [] 0 1)
       = Inr ([4, 0, 5], [IoRecv 4 [104, 105], IoSend 4 [104, 105] 2], demo_world [4, 3, 0] [] 1 1)
     \<and> echo_trace [IoRecv 4 [104, 105], IoSend 4 [104, 105] 2]"
proof -

  have run: "serve_clients (logged toy_os) [4] [4, 0, 5] ([], demo_world [4, 3, 0] [] 0 1)
       = Inr ([4, 0, 5], [IoRecv 4 [104, 105], IoSend 4 [104, 105] 2], demo_world [4, 3, 0] [] 1 1)"
    by (simp add: demo_defs logged_def Let_def demo_in_def fun_eq_iff)
  have "distinct (nonzero [4, 0, 5])" by simp
  from select_echoes[OF posix_documentedD(1)[OF toy_os_documented] this run] run show ?thesis by simp
qed

theorem select_leaks_departed_witness:
  "4 \<in> set (tw_open (select_finish toy_os (demo_srv 0 4) (demo_world [4, 3, 0] [] 1 3)))"
proof -
  have "4 \<in> set (nonzero (client_fds (demo_srv 4 3)))" "4 \<notin> set (client_fds (demo_srv 0 4))"
    by (simp_all add: demo_srv_def)
  then show ?thesis by (rule select_leaks_departed[OF toy_os_documented demo_init demo_reach])
qed

end
