(* ===== verification/EpollChat.thy ===== *)
theory EpollChat
  imports SocketApi Machines
begin

text \<open>
  The chat room of linux_tcp/epoll.cc: the global list of clients, the broadcast, and the event loop.
  \<^verbatim>\<open>addfd\<close> and \<^verbatim>\<open>sendBroadcastmessage\<close> have no return statement; the value their caller sees is indeterminate and
  is an argument \<open>junk\<close> of the loop. The lemmas show that the client list is a set of open descriptors in every
  state the loop reaches, whom a broadcast reaches, and what ends the program.
\<close>

section \<open>The program\<close>

definition BUF_SIZE :: nat where
  "BUF_SIZE = 208"

definition EPOLLIN :: u32 where
  "EPOLLIN = 1"

definition EPOLLET :: u32 where
  "EPOLLET = push_bit 31 1"

definition addfd :: "'w sock_api \<Rightarrow> int \<Rightarrow> int \<Rightarrow> bool \<Rightarrow> 'w \<Rightarrow> 'w" where
  "addfd os epollfd fd enable_et w =
     s_nonblock os fd (s_epoll_ctl os epollfd fd (Some (if enable_et then EPOLLIN OR EPOLLET else EPOLLIN)) w)"

definition bytes_of :: "string \<Rightarrow> byte list" where
  "bytes_of s = map of_char s"

definition response :: "int \<Rightarrow> byte list" where
  "response fd = bytes_of (''send frome (clientfd '' @ dec_int fd @ ''), helololo'' @ [CHR 0x0A])"

definition welcome_msg :: "int \<Rightarrow> byte list" where
  "welcome_msg fd = bytes_of (''welcome message: '' @ dec_int fd)"

text \<open>
  The loop over the clients. When a send fails, \<^verbatim>\<open>fprintf\<close> takes \<^verbatim>\<open>errno\<close> for the address of a string.
\<close>

fun broadcast :: "'w sock_api \<Rightarrow> byte list \<Rightarrow> int list \<Rightarrow> 'w \<Rightarrow> 'w res" where
  "broadcast os msg [] w = Inr w"
| "broadcast os msg (c # cs) w =
     (let (len, w1) = s_send os c msg w
      in if len \<le> 0 then Inl NullDeref else broadcast os msg cs w1)"

text \<open>\<^verbatim>\<open>printf("%s")\<close> of the received buffer reads on behind it when it holds no NUL.\<close>

definition sendBroadcastmessage :: "'w sock_api \<Rightarrow> int \<Rightarrow> int \<Rightarrow> int list \<Rightarrow> 'w \<Rightarrow> (int list \<times> 'w) res" where
  "sendBroadcastmessage os epollfd fd clients w =
     (case s_recv os fd BUF_SIZE w of
        (RecvData bs, w1) \<Rightarrow>
          if BUF_SIZE \<le> length bs \<and> 0 \<notin> set bs then Inl OutOfBounds
          else bind_res (broadcast os (response fd) clients w1) (\<lambda>w2. Inr (clients, w2))
      | (_, w1) \<Rightarrow> Inr (removeAll fd clients, s_close os fd (s_epoll_ctl os epollfd fd None w1)))"

definition epoll_accept :: "'w sock_api \<Rightarrow> int \<Rightarrow> int \<Rightarrow> int list \<Rightarrow> 'w \<Rightarrow> (int list \<times> 'w) res" where
  "epoll_accept os epfd listener clients w =
     (let (clientfd, w1) = s_accept os listener w;
          w2 = addfd os epfd clientfd True w1;
          (ret, w3) = s_send os clientfd (welcome_msg clientfd) w2
      in if ret < 0 then Inl (Exited (- 1)) else Inr (clients @ [clientfd], w3))"

fun epoll_events :: "'w sock_api \<Rightarrow> ('w \<Rightarrow> int) \<Rightarrow> int \<Rightarrow> int \<Rightarrow> int list \<Rightarrow> int list \<Rightarrow> 'w \<Rightarrow> (int list \<times> 'w) res" where
  "epoll_events os junk epfd listener [] clients w = Inr (clients, w)"
| "epoll_events os junk epfd listener (sockfd # evs) clients w =
     bind_res
       (if sockfd = listener then epoll_accept os epfd listener clients w
        else bind_res (sendBroadcastmessage os epfd sockfd clients w) (\<lambda>(clients', w').
               if junk w' < 0 then Inl (Exited (- 1)) else Inr (clients', w')))
       (\<lambda>(clients', w'). epoll_events os junk epfd listener evs clients' w')"

text \<open>One turn of the loop; \<open>Inr None\<close> is the break.\<close>

definition epoll_turn ::
  "'w sock_api \<Rightarrow> ('w \<Rightarrow> int) \<Rightarrow> int \<Rightarrow> int \<Rightarrow> int list \<times> 'w \<Rightarrow> (int list \<times> 'w) option res" where
  "epoll_turn os junk epfd listener s =
     (let (clients, w) = s; (n, events, w1) = s_epoll_wait os epfd w
      in if n < 0 then Inr None
         else bind_res (epoll_events os junk epfd listener (take (nat n) events) clients w1) (\<lambda>s'. Inr (Some s')))"

text \<open>\<^verbatim>\<open>main\<close> up to the loop: the listener and the epoll descriptor; none of the calls is checked.\<close>

definition epoll_init :: "'w sock_api \<Rightarrow> 'w \<Rightarrow> int \<times> int \<times> 'w" where
  "epoll_init os w =
     (let (listener, w1) = s_socket os w;
          (_, w2) = s_bind os listener w1;
          (_, w3) = s_listen os listener 5 w2;
          (epfd, w4) = s_epoll_create os w3
      in (listener, epfd, addfd os epfd listener True w4))"

definition epoll_step ::
  "'w sock_api \<Rightarrow> ('w \<Rightarrow> int) \<Rightarrow> int \<Rightarrow> int \<Rightarrow> int list \<times> 'w \<Rightarrow> int list \<times> 'w \<Rightarrow> bool" where
  "epoll_step os junk epfd listener s s' \<longleftrightarrow> epoll_turn os junk epfd listener s = Inr (Some s')"

section \<open>The client list\<close>

text \<open>\<open>old\<close>: the descriptors open before the first client came.\<close>

definition room_ok :: "('w \<Rightarrow> int set) \<Rightarrow> int set \<Rightarrow> int list \<times> 'w \<Rightarrow> bool" where
  "room_ok opn old s \<longleftrightarrow> distinct (fst s) \<and> set (fst s) \<subseteq> opn (snd s) \<and> opn (snd s) \<subseteq> old \<union> set (fst s)"

lemma broadcast_opn:
  assumes "posix_documented os opn lim"
  shows "broadcast os msg cs w = Inr w' \<Longrightarrow> opn w' = opn w"
proof (induction cs arbitrary: w)
  case (Cons c cs)
  then show ?case
    by (auto simp: Let_def dest: posix_documentedD(5)[OF assms] split: prod.splits if_splits)
qed simp

lemma addfd_opn: "posix_documented os opn lim \<Longrightarrow> opn (addfd os ep fd et w) = opn w"
  by (simp add: addfd_def posix_documentedD)

lemma sendBroadcast_ok:
  assumes os: "posix_documented os opn lim" and ok: "room_ok opn old (clients, w)"
    and r: "sendBroadcastmessage os ep fd clients w = Inr (clients', w')"
  shows "room_ok opn old (clients', w')"
proof -
  obtain q w1 where q: "s_recv os fd BUF_SIZE w = (q, w1)" by fastforce
  have o1: "opn w1 = opn w" using posix_documentedD(4)[OF os q] .
  show ?thesis
  proof (cases q)
    case (RecvData bs)
    with r q o1 ok broadcast_opn[OF os] show ?thesis
      by (auto simp: sendBroadcastmessage_def room_ok_def bind_res_eq_Inr split: if_splits)
  qed (use r q o1 ok in \<open>auto simp: sendBroadcastmessage_def room_ok_def posix_documentedD[OF os] distinct_removeAll\<close>)
qed

lemma epoll_accept_ok:
  assumes os: "posix_documented os opn lim" and ok: "room_ok opn old (clients, w)"
    and r: "epoll_accept os ep l clients w = Inr (clients', w')"
  shows "room_ok opn old (clients', w')"
proof -
  obtain c w1 where c: "s_accept os l w = (c, w1)" by fastforce
  obtain ret w3 where s: "s_send os c (welcome_msg c) (addfd os ep c True w1) = (ret, w3)" by fastforce
  have "c \<noteq> - 1" using r c s posix_documentedD(18)[OF os, of "welcome_msg c" "addfd os ep c True w1"] by (auto simp: epoll_accept_def Let_def)
  moreover have "clients' = clients @ [c]" "opn w' = opn w1"
    using r c s posix_documentedD(5)[OF os s] addfd_opn[OF os] by (auto simp: epoll_accept_def Let_def split: if_splits)
  ultimately show ?thesis using posix_documentedD(3)[OF os c] ok by (auto simp: room_ok_def)
qed

lemma epoll_events_ok:
  assumes os: "posix_documented os opn lim"
  shows "room_ok opn old (clients, w) \<Longrightarrow> epoll_events os junk ep l evs clients w = Inr s' \<Longrightarrow> room_ok opn old s'"
proof (induction evs arbitrary: clients w)
  case (Cons fd evs)
  from Cons.prems(2) obtain clients1 w1 where
    one: "(if fd = l then epoll_accept os ep l clients w
        else bind_res (sendBroadcastmessage os ep fd clients w) (\<lambda>(clients', w').
               if junk w' < 0 then Inl (Exited (- 1)) else Inr (clients', w'))) = Inr (clients1, w1)" and
    rest: "epoll_events os junk ep l evs clients1 w1 = Inr s'"
    by (auto simp: bind_res_eq_Inr)
  have "room_ok opn old (clients1, w1)"
    using one epoll_accept_ok[OF os Cons.prems(1)] sendBroadcast_ok[OF os Cons.prems(1)]
    by (auto simp: bind_res_eq_Inr split: if_splits)
  from Cons.IH[OF this rest] show ?case .
qed simp

lemma epoll_turn_ok:
  assumes "posix_documented os opn lim" and "room_ok opn old s" and "epoll_turn os junk ep l s = Inr (Some s')"
  shows "room_ok opn old s'"
proof -
  obtain clients w where s: "s = (clients, w)" by (cases s)
  obtain n evs w1 where wt: "s_epoll_wait os ep w = (n, evs, w1)" by (metis prod.collapse)
  have "room_ok opn old (clients, w1)"
    using assms(2) posix_documentedD(12)[OF assms(1) wt] by (simp add: s room_ok_def)
  then show ?thesis
    using assms(3) wt epoll_events_ok[OF assms(1)] by (auto simp: epoll_turn_def s Let_def bind_res_eq_Inr split: if_splits)
qed

interpretation room: machine "epoll_step os junk epfd listener" "\<lambda>s. posix_documented os opn lim \<and> room_ok opn old s"
  for os :: "'w sock_api" and junk epfd listener opn lim old
  by unfold_locales (auto simp: epoll_step_def intro: epoll_turn_ok)

section \<open>Properties\<close>

text \<open>
  C35. In every state the chat room's loop reaches, the client list has no duplicates and holds open
  descriptors only, and every descriptor opened since the start is in it: a client that leaves, or fails, is
  closed and forgotten together.
\<close>

theorem epoll_room:
  assumes "posix_documented os opn lim" and "epoll_init os w = (listener, epfd, w0)"
    and "(epoll_step os junk epfd listener)\<^sup>*\<^sup>* ([], w0) (clients, w')"
  shows "distinct clients \<and> set clients \<subseteq> opn w' \<and> opn w' - opn w0 \<subseteq> set clients"
proof -
  have "room_ok opn (opn w0) ([], w0)" by (simp add: room_ok_def)
  with room.inv_run[OF assms(3), of opn lim "opn w0"] assms(1) show ?thesis by (auto simp: room_ok_def)
qed

lemma broadcast_log:
  "(\<exists>ks w'. broadcast (logged os) msg cs (l, w) = Inr (l @ map2 (\<lambda>c k. IoSend c msg k) cs ks, w')
       \<and> length ks = length cs \<and> (\<forall>k \<in> set ks. 0 < k))
   \<or> broadcast (logged os) msg cs (l, w) = Inl NullDeref \<and> (\<exists>c \<in> set cs. \<exists>v. fst (s_send os c msg v) \<le> 0)"
proof (induction cs arbitrary: l w)
  case (Cons c cs)
  obtain k w1 where k: "s_send os c msg w = (k, w1)" by fastforce
  show ?case
  proof (cases "k \<le> 0")
    case True
    then show ?thesis using k by (auto intro!: exI[of _ w])
  next
    case False
    from Cons[of "l @ [IoSend c msg k]" w1] show ?thesis
    proof (elim disjE exE conjE)
      fix ks w'
      assume "broadcast (logged os) msg cs (l @ [IoSend c msg k], w1) = Inr ((l @ [IoSend c msg k]) @ map2 (\<lambda>c k. IoSend c msg k) cs ks, w')"
        "length ks = length cs" "\<forall>k \<in> set ks. 0 < k"
      with False k show ?thesis by (intro disjI1 exI[of _ "k # ks"] exI[of _ w']) simp
    qed (use False k in auto)
  qed
qed simp


text \<open>The descriptor -1 of a failed accept ends the program at the welcome message.\<close>

lemma failed_accept_exits:
  assumes "posix_documented os opn lim" and "s_accept os l w = (- 1, w1)"
  shows "epoll_accept os ep l clients w = Inl (Exited (- 1))"
  using assms(2) posix_documentedD(18)[OF assms(1), of "welcome_msg (- 1)" "addfd os ep (- 1) True w1"]
  by (auto simp: epoll_accept_def Let_def split: prod.splits)

section \<open>A concrete run\<close>

definition chat_world :: "int list \<Rightarrow> int list \<Rightarrow> byte list list \<Rightarrow> int list list \<Rightarrow> toy_world" where
  "chat_world opens accs inp ready = \<lparr>tw_open = opens, tw_accepts = accs,
     tw_input = (\<lambda>fd. if fd = 5 then inp else []), tw_lines = [], tw_ready = ready\<rparr>"

lemma chat_init: "epoll_init toy_os (chat_world [0] [5] [] [[3]]) = (3, 4, chat_world [3, 0] [5] [] [[3]])"
  by (simp add: epoll_init_def toy_os_def chat_world_def addfd_def)

lemma chat_turn: "epoll_turn toy_os (\<lambda>_. 0) 4 3 ([], chat_world [3, 0] [5] [] [[3]]) = Inr (Some ([5], chat_world [5, 3, 0] [] [] []))"
  by (simp add: epoll_turn_def epoll_accept_def toy_os_def toy_wait_def toy_accept_def chat_world_def addfd_def)

theorem epoll_room_witness: "distinct [5 :: int] \<and> set [5] \<subseteq> set (tw_open (chat_world [5, 3, 0] [] [] []))"
proof -
  have "(epoll_step toy_os (\<lambda>_. 0) 4 3)\<^sup>*\<^sup>* ([], chat_world [3, 0] [5] [] [[3]]) ([5], chat_world [5, 3, 0] [] [] [])"
    using chat_turn by (intro r_into_rtranclp) (simp add: epoll_step_def)
  from epoll_room[OF toy_os_documented chat_init this] show ?thesis by simp
qed


end
