(* ===== verification/EchoPrograms.thy ===== *)
theory EchoPrograms
  imports SocketApi
begin

text \<open>
  The blocking echo programs: server and client over a Unix socket (unix_tcp/), the Winsock pair of
  catfly/client and catfly/server, the load client linux_tcp/client.cc and the listener of listen_test/.
  Each endless loop is given by its round, and by a \<open>partial_function\<close> where it can end. The buffers are the
  arrays of the source: what a receive does not overwrite stays in them. The lemmas show what the Unix server
  returns to its client and that it ends after one, which rounds stay inside their buffers, and what the
  catfly pair exchanges.
\<close>

section \<open>Arrays as strings\<close>

text \<open>Reading an array as a C string is defined only when it holds a NUL.\<close>

definition read_cstr :: "byte list \<Rightarrow> byte list res" where
  "read_cstr buf = (if 0 \<in> set buf then Inr (c_bytes buf) else Inl OutOfBounds)"

text \<open>The bytes of a C string stored at the start of an array, its NUL included.\<close>

definition store_cstr :: "byte list \<Rightarrow> byte list \<Rightarrow> byte list" where
  "store_cstr s buf = overwrite buf 0 (s @ [0])"

text \<open>The array after a receive whose result is not looked at.\<close>

definition recv_into :: "recv_result \<Rightarrow> byte list \<Rightarrow> byte list" where
  "recv_into r buf = (case r of RecvData bs \<Rightarrow> overwrite buf 0 bs | _ \<Rightarrow> buf)"

section \<open>unix_tcp/server\<close>

definition unix_BUFFER_SIZE :: nat where
  "unix_BUFFER_SIZE = 1024"

definition BACK_LOG :: int where
  "BACK_LOG = 1000"

text \<open>\<^verbatim>\<open>perror\<close> and \<^verbatim>\<open>exit(-1)\<close>.\<close>

definition handleError :: "'a res" where
  "handleError = Inl (Exited (- 1))"

text \<open>The result of \<^verbatim>\<open>write\<close> is printed and not used.\<close>

partial_function (option) unix_echo :: "'w sock_api \<Rightarrow> int \<Rightarrow> 'w \<Rightarrow> (int \<times> 'w) run" where
  "unix_echo os socket w =
     (case s_recv os socket unix_BUFFER_SIZE w of
        (num_read, w1) \<Rightarrow>
          (case num_read of
             RecvErr _ \<Rightarrow> Some handleError
           | RecvEof \<Rightarrow> Some (Inr (- 1, s_close os socket w1))
           | RecvData bs \<Rightarrow> unix_echo os socket (snd (s_send os socket bs w1))))"

definition handleRequest :: "'w sock_api \<Rightarrow> int \<Rightarrow> 'w \<Rightarrow> (int \<times> 'w) run" where
  "handleRequest os server_socket w =
     (let (socket, w1) = s_accept os server_socket w
      in if socket = - 1 then Some handleError else unix_echo os socket w1)"

text \<open>\<open>rm\<close> is \<^verbatim>\<open>remove(path)\<close> with the \<^verbatim>\<open>errno\<close> it leaves; \<^verbatim>\<open>ENOENT\<close> is 2.\<close>

definition bindToAddress :: "'w sock_api \<Rightarrow> ('w \<Rightarrow> int \<times> int \<times> 'w) \<Rightarrow> int \<Rightarrow> 'w \<Rightarrow> 'w res" where
  "bindToAddress os rm server_socket w =
     (let (r, errno, w1) = rm w
      in if r \<noteq> 0 \<and> errno \<noteq> 2 then handleError
         else let (b, w2) = s_bind os server_socket w1 in if b = - 1 then handleError else Inr w2)"

partial_function (option) unix_serve :: "'w sock_api \<Rightarrow> int \<Rightarrow> 'w \<Rightarrow> (int \<times> 'w) run" where
  "unix_serve os server_socket w =
     bind_run (handleRequest os server_socket w) (\<lambda>(r, w1).
       if r = - 1 then Some (Inr (1, w1)) else unix_serve os server_socket w1)"

definition unix_server_main :: "'w sock_api \<Rightarrow> ('w \<Rightarrow> int \<times> int \<times> 'w) \<Rightarrow> 'w \<Rightarrow> (int \<times> 'w) run" where
  "unix_server_main os rm w =
     (let (server_socket, w1) = s_socket os w
      in if server_socket = - 1 then Some handleError
         else bind_run (Some (bindToAddress os rm server_socket w1)) (\<lambda>w2.
           let (r, w3) = s_listen os server_socket BACK_LOG w2
           in if r = - 1 then Some handleError else unix_serve os server_socket w3))"

section \<open>unix_tcp/client\<close>

text \<open>One turn of the loop; the global buffer keeps its content between turns.\<close>

definition unix_client_round :: "'w sock_api \<Rightarrow> int \<Rightarrow> byte list \<Rightarrow> 'w \<Rightarrow> (byte list \<times> 'w) res" where
  "unix_client_round os client_socket buffer w =
     (let (line, w1) = s_fgets os unix_BUFFER_SIZE w;
          buf1 = (case line of None \<Rightarrow> buffer | Some l \<Rightarrow> store_cstr l buffer)
      in bind_res (read_cstr buf1) (\<lambda>msg.
         let (r, w2) = s_send os client_socket msg w1
         in if r = - 1 then handleError
            else (case s_recv os client_socket unix_BUFFER_SIZE w2 of
                    (RecvErr _, w3) \<Rightarrow> handleError
                  | (RecvEof, w3) \<Rightarrow> Inr (buf1[0 := 0], w3)
                  | (RecvData bs, w3) \<Rightarrow>
                      let buf2 = overwrite buf1 0 bs
                      in if unix_BUFFER_SIZE \<le> length bs then Inl OutOfBounds else Inr (buf2[length bs := 0], w3))))"

partial_function (option) unix_client_loop :: "'w sock_api \<Rightarrow> int \<Rightarrow> byte list \<Rightarrow> 'w \<Rightarrow> (int \<times> 'w) run" where
  "unix_client_loop os client_socket buffer w =
     bind_run (Some (unix_client_round os client_socket buffer w)) (\<lambda>(buffer', w').
       unix_client_loop os client_socket buffer' w')"

definition unix_client_main :: "'w sock_api \<Rightarrow> 'w \<Rightarrow> (int \<times> 'w) run" where
  "unix_client_main os w =
     (let (client_socket, w1) = s_socket os w
      in if client_socket = - 1 then Some handleError
         else let (r, w2) = s_connect os client_socket w1
              in if r = - 1 then Some handleError
                 else unix_client_loop os client_socket (replicate unix_BUFFER_SIZE 0) w2)"

section \<open>catfly\<close>

definition MAXBYTE :: nat where
  "MAXBYTE = 255"

definition hello :: "int \<Rightarrow> byte list" where
  "hello i = map of_char (''Hello World: '' @ dec_int i)"

text \<open>The client sends its text with the NUL and prints its buffer, whatever the receive did to it.\<close>

definition catfly_client_round :: "'w sock_api \<Rightarrow> int \<Rightarrow> int \<times> byte list \<Rightarrow> 'w \<Rightarrow> (byte list \<times> (int \<times> byte list) \<times> 'w) res" where
  "catfly_client_round os sock s w =
     (let i = fst s + 1
      in if 2 ^ 31 \<le> i then Inl SignedOverflow
         else let buf1 = store_cstr (hello i) (snd s);
                  (_, w1) = s_send os sock (hello i @ [0]) w;
                  (r, w2) = s_recv os sock MAXBYTE w1;
                  buf2 = recv_into r buf1
              in bind_res (read_cstr buf2) (\<lambda>printed. Inr (printed, (i, buf2), w2)))"

definition catfly_server_round :: "'w sock_api \<Rightarrow> int \<Rightarrow> byte list \<Rightarrow> 'w \<Rightarrow> (byte list \<times> 'w) res" where
  "catfly_server_round os servSock buf w =
     (let (clntSock, w1) = s_accept os servSock w;
          (r, w2) = s_recv os clntSock MAXBYTE w1;
          buf1 = recv_into r buf
      in bind_res (read_cstr buf1) (\<lambda>msg.
         let (_, w3) = s_send os clntSock msg w2 in Inr (buf1, s_close os clntSock w3)))"

text \<open>
  Both programs: \<open>wsa\<close> is \<^verbatim>\<open>WSAStartup\<close>; no result of the set-up is looked at, and what follows the endless loops is not reached.
\<close>

partial_function (option) catfly_client_loop :: "'w sock_api \<Rightarrow> int \<Rightarrow> int \<times> byte list \<Rightarrow> 'w \<Rightarrow> (int \<times> 'w) run" where
  "catfly_client_loop os sock s w =
     bind_run (Some (catfly_client_round os sock s w)) (\<lambda>(_, s', w'). catfly_client_loop os sock s' w')"

definition catfly_client_main :: "'w sock_api \<Rightarrow> ('w \<Rightarrow> 'w) \<Rightarrow> 'w \<Rightarrow> (int \<times> 'w) run" where
  "catfly_client_main os wsa w =
     (let (sock, w1) = s_socket os (wsa w);
          (_, w2) = s_connect os sock w1
      in catfly_client_loop os sock (0, replicate MAXBYTE 0) w2)"

partial_function (option) catfly_server_loop :: "'w sock_api \<Rightarrow> int \<Rightarrow> byte list \<Rightarrow> 'w \<Rightarrow> (int \<times> 'w) run" where
  "catfly_server_loop os servSock buf w =
     bind_run (Some (catfly_server_round os servSock buf w)) (\<lambda>(buf', w'). catfly_server_loop os servSock buf' w')"

definition catfly_server_main :: "'w sock_api \<Rightarrow> ('w \<Rightarrow> 'w) \<Rightarrow> 'w \<Rightarrow> (int \<times> 'w) run" where
  "catfly_server_main os wsa w =
     (let (servSock, w1) = s_socket os (wsa w);
          (_, w2) = s_bind os servSock w1;
          (_, w3) = s_listen os servSock 20 w2
      in catfly_server_loop os servSock (replicate MAXBYTE 0) w3)"

section \<open>linux_tcp/client.cc\<close>

definition linux_client_round :: "'w sock_api \<Rightarrow> int \<Rightarrow> byte list \<Rightarrow> 'w \<Rightarrow> (byte list \<times> 'w) res" where
  "linux_client_round os sock_fd buff w =
     bind_res (read_cstr buff) (\<lambda>msg.
       let (_, w1) = s_send os sock_fd msg w;
           (r, w2) = s_recv os sock_fd 1024 w1;
           buff2 = recv_into r (replicate 1024 0)
       in bind_res (read_cstr buff2) (\<lambda>_. Inr (buff2, w2)))"

partial_function (option) linux_client_loop :: "'w sock_api \<Rightarrow> int \<Rightarrow> byte list \<Rightarrow> 'w \<Rightarrow> 'w run" where
  "linux_client_loop os sock_fd buff w =
     bind_run (Some (linux_client_round os sock_fd buff w)) (\<lambda>(buff', w'). linux_client_loop os sock_fd buff' w')"

definition linux_client :: "'w sock_api \<Rightarrow> 'w \<Rightarrow> 'w run" where
  "linux_client os w =
     (let (sock_fd, w1) = s_socket os w
      in if sock_fd = - 1 then Some (Inl (Exited 1))
         else let (ret, w2) = s_connect os sock_fd w1
              in if ret = - 1 then Some (Inl (Exited 1))
                 else linux_client_loop os sock_fd
                        (store_cstr (map of_char (''helloworld'' @ [CHR 0x0A])) (replicate 1024 0)) w2)"

text \<open>The thread of \<^verbatim>\<open>main\<close>, which runs \<open>n\<close> clients one after the other.\<close>

fun linux_clients :: "'w sock_api \<Rightarrow> nat \<Rightarrow> 'w \<Rightarrow> 'w run" where
  "linux_clients os 0 w = Some (Inr w)"
| "linux_clients os (Suc n) w = bind_run (linux_client os w) (linux_clients os n)"

definition linux_client_main :: "'w sock_api \<Rightarrow> (string \<Rightarrow> int) \<Rightarrow> string list \<Rightarrow> 'w \<Rightarrow> (int \<times> 'w) run" where
  "linux_client_main os atoi argv w =
     (if length argv < 2 then Some (Inr (- 1, w))
      else bind_run (linux_clients os (nat (atoi (argv ! 1))) w) (\<lambda>w'. Some (Inr (0, w'))))"

section \<open>listen_test\<close>

text \<open>\<^verbatim>\<open>argv[argc]\<close> is a null pointer, which \<^verbatim>\<open>atoi\<close> may not be given; the accepted socket is never closed.\<close>

definition listen_main :: "'w sock_api \<Rightarrow> (string \<Rightarrow> int) \<Rightarrow> string list \<Rightarrow> 'w \<Rightarrow> (int \<times> 'w) res" where
  "listen_main os atoi argv w =
     (if length argv < 3 then Inr (1, w)
      else if length argv < 4 then Inl NullDeref
      else let backlog = atoi (argv ! 3);
               (sock, w1) = s_socket os w;
               (_, w2) = s_bind os sock w1;
               (_, w3) = s_listen os sock backlog w2;
               (connfd, w4) = s_accept os sock w3
           in Inr (0, s_close os sock w4))"

section \<open>The Unix server\<close>

text \<open>
  A client that ends: while \<open>live\<close> holds, every receive on \<open>fd\<close> gives data, of which less and less (\<open>rem\<close>) is to come,
  or the end of the stream; sends do not disturb it.
\<close>

definition peer_ends :: "'w sock_api \<Rightarrow> int \<Rightarrow> ('w \<Rightarrow> bool) \<Rightarrow> ('w \<Rightarrow> nat) \<Rightarrow> bool" where
  "peer_ends os fd live rem \<longleftrightarrow>
     (\<forall>n w q w'. live w \<longrightarrow> s_recv os fd n w = (q, w') \<longrightarrow>
        q = RecvEof \<or> (\<exists>bs. q = RecvData bs \<and> rem w' < rem w \<and> live w')) \<and>
     (\<forall>bs w. live w \<longrightarrow> live (snd (s_send os fd bs w)) \<and> rem (snd (s_send os fd bs w)) \<le> rem w)"

text \<open>The log of an echo: every chunk received, and at once the same chunk offered back.\<close>

definition echo_log :: "int \<Rightarrow> (byte list \<times> int) list \<Rightarrow> io list" where
  "echo_log fd xs = concat (map (\<lambda>(bs, r). [IoRecv fd bs, IoSend fd bs r]) xs)"

lemma echo_log_simps [simp]:
  "echo_log fd [] = []"
  "echo_log fd ((bs, r) # xs) = IoRecv fd bs # IoSend fd bs r # echo_log fd xs"
  by (simp_all add: echo_log_def)

lemma unix_echo_log:
  assumes "peer_ends os fd live rem" and "live w"
  shows "\<exists>xs w'. unix_echo (logged os) fd (l, w) = Some (Inr (- 1, l @ echo_log fd xs @ [IoRecv fd [], IoClose fd], w'))"
  using assms(2)
proof (induction "rem w" arbitrary: l w rule: less_induct)
  case less
  obtain q w1 where q: "s_recv os fd unix_BUFFER_SIZE w = (q, w1)" by fastforce
  with assms(1) less.prems consider "q = RecvEof" | bs where "q = RecvData bs" "rem w1 < rem w" "live w1"
    unfolding peer_ends_def by metis
  then show ?case
  proof cases
    case 1
    with q show ?thesis
      by (intro exI[of _ "[]"] exI[of _ "s_close os fd w1"]) (subst unix_echo.simps, simp)
  next
    case (2 bs)
    obtain r w2 where s: "s_send os fd bs w1 = (r, w2)" by fastforce
    have "live w2 \<and> rem w2 \<le> rem w1"
      using assms(1) 2(3) s unfolding peer_ends_def by (metis snd_conv)
    with less.hyps[of w2 "l @ [IoRecv fd bs, IoSend fd bs r]"] 2(2) obtain xs w' where
      "unix_echo (logged os) fd (l @ [IoRecv fd bs, IoSend fd bs r], w2)
         = Some (Inr (- 1, (l @ [IoRecv fd bs, IoSend fd bs r]) @ echo_log fd xs @ [IoRecv fd [], IoClose fd], w'))"
      by auto
    with q 2(1) s show ?thesis
      by (intro exI[of _ "(bs, r) # xs"] exI[of _ w']) (subst unix_echo.simps, simp)
  qed
qed


text \<open>For a concrete run: a pipe of pending bytes.\<close>

definition pipe_os :: "byte list sock_api" where
  "pipe_os = \<lparr>
     s_socket = (\<lambda>w. (3, w)), s_bind = (\<lambda>fd w. (0, w)), s_listen = (\<lambda>fd n w. (0, w)),
     s_connect = (\<lambda>fd w. (0, w)), s_accept = (\<lambda>fd w. (4, w)),
     s_recv = (\<lambda>fd n w. if n = 0 \<or> w = [] then (RecvEof, w) else (RecvData (take n w), drop n w)),
     s_send = (\<lambda>fd bs w. (int (length bs), w)), s_close = (\<lambda>fd w. w), s_fgets = (\<lambda>n w. (None, w)),
     s_select = (\<lambda>n fds w. (0, [], w)), s_epoll_create = (\<lambda>w. (5, w)), s_epoll_ctl = (\<lambda>ep fd c w. w),
     s_epoll_wait = (\<lambda>ep w. (- 1, [], w)), s_nonblock = (\<lambda>fd w. w) \<rparr>"

lemma pipe_ends: "peer_ends pipe_os fd (\<lambda>_. True) length"
  by (auto simp: peer_ends_def pipe_os_def split: if_splits)


section \<open>Buffers as strings\<close>

lemma c_bytes_take_nul: "0 \<notin> set s \<Longrightarrow> c_bytes (overwrite buf 0 (s @ [0])) = s"
  by (simp add: overwrite_def c_bytes_stop)

lemma zero_in_overwrite: "0 \<in> set bs \<Longrightarrow> 0 \<in> set (overwrite buf 0 bs)"
  by (simp add: overwrite_def)

text \<open>The buffer of the Unix client: always its full size, always terminated.\<close>

definition cbuf_ok :: "byte list \<Rightarrow> bool" where
  "cbuf_ok buf \<longleftrightarrow> length buf = unix_BUFFER_SIZE \<and> 0 \<in> set buf"

lemma cbuf_ok_store: "cbuf_ok buf \<Longrightarrow> length l < unix_BUFFER_SIZE \<Longrightarrow> cbuf_ok (store_cstr l buf)"
  by (simp add: cbuf_ok_def store_cstr_def zero_in_overwrite)

lemma zero_in_update: "i < length xs \<Longrightarrow> 0 \<in> set (xs[i := 0])"
  by (simp add: set_update_memI)

text \<open>
  A round of the Unix client keeps its buffer whole and terminated; it ends the program when the peer is
  gone, and the one memory error it can run into is a reply that fills the buffer.
\<close>

lemma unix_client_round_ok:
  assumes os: "posix_documented os opn lim" and buf: "cbuf_ok buf"
  shows "case unix_client_round os sock buf w of
      Inr (buf', w') \<Rightarrow> cbuf_ok buf'
    | Inl e \<Rightarrow> e = Exited (- 1) \<or> e = OutOfBounds \<and>
        (\<exists>v bs v'. s_recv os sock unix_BUFFER_SIZE v = (RecvData bs, v') \<and> length bs = unix_BUFFER_SIZE)"
proof -
  obtain line w1 where line: "s_fgets os unix_BUFFER_SIZE w = (line, w1)" by fastforce
  define buf1 where "buf1 = (case line of None \<Rightarrow> buf | Some l \<Rightarrow> store_cstr l buf)"
  have ok1: "cbuf_ok buf1"
    using buf cbuf_ok_store posix_documentedD(8)[OF os] line by (auto simp: buf1_def split: option.splits)
  then have msg: "read_cstr buf1 = Inr (c_bytes buf1)" by (simp add: read_cstr_def cbuf_ok_def)
  obtain r w2 where s: "s_send os sock (c_bytes buf1) w1 = (r, w2)" by fastforce
  obtain q w3 where q: "s_recv os sock unix_BUFFER_SIZE w2 = (q, w3)" by fastforce
  note run = unix_client_round_def line buf1_def[symmetric] msg s q
  show ?thesis
  proof (cases "r = - 1")
    case True
    then show ?thesis by (simp add: run handleError_def)
  next
    case False
    show ?thesis
    proof (cases q)
      case (RecvData bs)
      note le = recv_documentedD(2)[OF posix_documentedD(1)[OF os] q[unfolded RecvData]]
      show ?thesis
      proof (cases "unix_BUFFER_SIZE \<le> length bs")
        case True
        with le have "length bs = unix_BUFFER_SIZE" by simp
        with q RecvData have "\<exists>v bs v'. s_recv os sock unix_BUFFER_SIZE v = (RecvData bs, v') \<and> length bs = unix_BUFFER_SIZE"
          by blast
        with False True RecvData show ?thesis by (simp add: run)
      next
        case short: False
        with False RecvData ok1 show ?thesis
          by (auto simp: run cbuf_ok_def intro!: zero_in_update)
      qed
    next
      case RecvEof
      with False ok1 show ?thesis by (auto simp: run cbuf_ok_def intro!: zero_in_update)
    next
      case (RecvErr e)
      with False show ?thesis by (simp add: run handleError_def)
    qed
  qed
qed

text \<open>The load client never comes to its end, so that at most one of the clients of \<^verbatim>\<open>main\<close> is ever started.\<close>

lemma linux_client_loop_never_ends: "linux_client_loop os fd buff w \<noteq> Some (Inr w')"
proof
  assume "linux_client_loop os fd buff w = Some (Inr w')"
  then have "\<exists>e. (Inr w' :: 'a res) = Inl e"
    by (rule linux_client_loop.raw_induct[rotated, where P = "\<lambda>_ _ _ _ r. \<exists>e. r = Inl e"])
      (auto simp: bind_run_def split: option.splits sum.splits)
  then show False by simp
qed

lemma linux_client_never_ends: "linux_client os w \<noteq> Some (Inr w')"
  by (simp add: linux_client_def Let_def linux_client_loop_never_ends split: prod.splits)

lemma linux_clients_only_first: "linux_clients os (Suc n) w = linux_clients os 1 w"
proof (cases "linux_client os w")
  case (Some r)
  with linux_client_never_ends[of os w] show ?thesis by (cases r) auto
qed simp

section \<open>The catfly exchange\<close>

lemma nul_free_bytes: "nul_free s \<Longrightarrow> 0 \<notin> set (map of_char s :: byte list)"
proof -
  have "of_char c \<noteq> (0 :: byte)" if "c \<noteq> CHR 0x00" for c
  proof
    assume "of_char c = (0 :: byte)"
    then have "(of_nat (of_char c) :: byte) = 0" by (simp only: of_nat_of_char)
    then have "256 dvd (of_char c :: nat)" by (simp only: word_of_nat_eq_0_iff) simp
    then have "(of_char c :: nat) = 0" using nat_dvd_not_less[of "of_char c" 256] by (cases "of_char c = (0::nat)") auto
    then have "(of_char c :: nat) = of_char (CHR 0x00)" by simp
    with that show False by (simp only: of_char_eq_iff)
  qed
  then show "nul_free s \<Longrightarrow> 0 \<notin> set (map of_char s :: byte list)"
    by (force simp: nul_free_def list_all_iff)
qed

lemma hello_no_zero: "0 \<notin> set (hello i)"
  unfolding hello_def by (rule nul_free_bytes) simp

lemma length_hello: "0 \<le> i \<Longrightarrow> i < 2 ^ 31 \<Longrightarrow> length (hello i) < MAXBYTE - 1"
proof -
  assume "0 \<le> i" "i < 2 ^ 31"
  then have "nat i < 10 ^ Suc 9" by simp
  from length_dec_nat[OF this] \<open>0 \<le> i\<close> show ?thesis by (simp add: hello_def dec_int_def MAXBYTE_def)
qed

text \<open>The server answers the client's message with its text, whatever its buffer held before.\<close>

lemma catfly_server_reply:
  assumes "s_accept os servSock w = (c, w1)" and "s_recv os c MAXBYTE w1 = (RecvData (hello i @ [0]), w2)"
  shows "\<exists>r w'. catfly_server_round (logged os) servSock buf ([], w)
     = Inr (overwrite buf 0 (hello i @ [0]), [IoRecv c (hello i @ [0]), IoSend c (hello i) r, IoClose c], w')"
proof -
  obtain r w3 where "s_send os c (hello i) w2 = (r, w3)" by fastforce
  with assms show ?thesis
    by (auto simp: catfly_server_round_def recv_into_def read_cstr_def zero_in_overwrite c_bytes_take_nul[OF hello_no_zero])
qed

text \<open>
  The client prints its own text, both when the server sends that text back and when the receive fails or
  finds the connection closed, as it is from the second message on: the two cannot be told apart.
\<close>

lemma catfly_client_prints:
  assumes "i + 1 < 2 ^ 31"
    and "s_send os sock (hello (i + 1) @ [0]) w = (r, w1)" and "s_recv os sock MAXBYTE w1 = (q, w2)"
    and "q = RecvData (hello (i + 1)) \<or> q = RecvEof \<or> (\<exists>e. q = RecvErr e)"
  shows "catfly_client_round os sock (i, buf) w = Inr (hello (i + 1), (i + 1, store_cstr (hello (i + 1)) buf), w2)"
proof -
  have same: "overwrite (store_cstr m buf) 0 m = store_cstr m buf" for m :: "byte list"
    by (simp add: store_cstr_def overwrite_def)
  have "read_cstr (store_cstr (hello (i + 1)) buf) = Inr (hello (i + 1))"
    by (simp add: read_cstr_def store_cstr_def zero_in_overwrite c_bytes_take_nul[OF hello_no_zero])
  with assms show ?thesis
    by (auto simp: catfly_client_round_def recv_into_def same Let_def)
qed

text \<open>
  So the client goes on, whether there is a server or not, until its counter overflows: as long as each receive after a message
  gives that message back or fails, \<^verbatim>\<open>main\<close> ends in the overflow of \<^verbatim>\<open>i++\<close>.
\<close>

lemma catfly_client_loop_overflows:
  assumes "\<And>m w r w1 q w2. s_send os sock (m @ [0]) w = (r, w1) \<Longrightarrow> s_recv os sock MAXBYTE w1 = (q, w2)
      \<Longrightarrow> q = RecvData m \<or> q = RecvEof \<or> (\<exists>e. q = RecvErr e)"
  shows "i < 2 ^ 31 \<Longrightarrow> catfly_client_loop os sock (i, buf) w = Some (Inl SignedOverflow)"
proof (induction "nat (2 ^ 31 - i)" arbitrary: i buf w)
  case 0
  then show ?case by simp
next
  case (Suc k)
  show ?case
  proof (cases "i + 1 < 2 ^ 31")
    case True
    obtain r w1 q w2 where c: "s_send os sock (hello (i + 1) @ [0]) w = (r, w1)" "s_recv os sock MAXBYTE w1 = (q, w2)" by fastforce
    from catfly_client_prints[OF True c assms[OF c]] have
      "catfly_client_loop os sock (i, buf) w = catfly_client_loop os sock (i + 1, store_cstr (hello (i + 1)) buf) w2"
      by (subst catfly_client_loop.simps) simp
    with Suc.hyps(1)[of "i + 1" "store_cstr (hello (i + 1)) buf" w2] Suc.hyps(2) True show ?thesis by simp
  next
    case False
    then show ?thesis by (subst catfly_client_loop.simps) (simp add: catfly_client_round_def)
  qed
qed

text \<open>A message of 255 bytes without a NUL makes the server read beyond its buffer.\<close>

lemma catfly_server_overreads:
  assumes "s_accept os servSock w = (c, w1)" and "s_recv os c MAXBYTE w1 = (RecvData m, w2)"
    and "length m = MAXBYTE" and "0 \<notin> set m" and "length buf = MAXBYTE"
  shows "catfly_server_loop os servSock buf w = Some (Inl OutOfBounds)"
  using assms by (subst catfly_server_loop.simps) (simp add: catfly_server_round_def recv_into_def read_cstr_def overwrite_def)

text \<open>The accepted socket of the listener stays open.\<close>

lemma listen_leaks:
  assumes os: "posix_documented os opn lim" and "length argv = 4" and r: "listen_main os atoi argv w = Inr (0, w')"
    and "s_socket os w = (sock, w1)" and "s_bind os sock w1 = (b, w2)" and "s_listen os sock (atoi (argv ! 3)) w2 = (l, w3)"
    and "s_accept os sock w3 = (connfd, w4)" and "0 \<le> connfd" and "0 < sock"
  shows "connfd \<in> opn w'"
proof -
  have "opn w3 = opn w1" using posix_documentedD(15)[OF os assms(5)] posix_documentedD(16)[OF os assms(6)] by simp
  moreover have "sock \<in> opn w1" using posix_documentedD(14)[OF os assms(4)] assms(9) by auto
  ultimately have "connfd \<in> opn w4" "connfd \<noteq> sock" using posix_documentedD(3)[OF os assms(7)] assms(8) by auto
  moreover have "w' = s_close os sock w4" using r assms by (simp add: listen_main_def)
  ultimately show ?thesis by (simp add: posix_documentedD(6)[OF os])
qed

lemma listen_three_arguments: "length argv = 3 \<Longrightarrow> listen_main os atoi argv w = Inl NullDeref"
  by (simp add: listen_main_def)

end
