(* ===== verification/LibeventApp.thy ===== *)
theory LibeventApp
  imports Prelude
begin

text \<open>
  The libevent programs of libevent_test/: the echo client (client/main.cpp and the class of client/src), the server
  class of server/src, the single-file server of server/main.cpp, and the timer. libevent itself is
  the argument \<open>le\<close>, an interface over a state \<open>'w\<close>; \<open>libevent_documented\<close> states what its headers under
  src/inc/libevent say of the input and output buffers. \<^verbatim>\<open>event_base_dispatch\<close>, which runs the callbacks, is a
  field of the interface. The lemmas say exactly for which input the read callbacks stay inside their
  arrays and what they then do, and what becomes of data written before a bufferevent is freed.
\<close>

section \<open>The libevent interface\<close>

text \<open>Handles are natural numbers, \<open>None\<close> is a null pointer. \<open>le_dispatch\<close> may not return or fault inside a callback.\<close>

record 'w libevent =
  le_base_new :: "'w \<Rightarrow> nat option \<times> 'w"
  le_base_free :: "nat option \<Rightarrow> 'w \<Rightarrow> 'w"
  le_dispatch :: "nat option \<Rightarrow> 'w \<Rightarrow> 'w run"
  le_loopexit :: "nat option \<Rightarrow> nat \<Rightarrow> 'w \<Rightarrow> 'w"
  le_socket_new :: "nat option \<Rightarrow> int \<Rightarrow> 'w \<Rightarrow> nat option \<times> 'w"
  le_setcb :: "nat \<Rightarrow> bool \<Rightarrow> bool \<Rightarrow> bool \<Rightarrow> 'w \<Rightarrow> 'w"
  le_enable :: "nat \<Rightarrow> 'w \<Rightarrow> 'w"
  le_connect :: "nat \<Rightarrow> 'w \<Rightarrow> int \<times> 'w"
  le_input_len :: "nat \<Rightarrow> 'w \<Rightarrow> nat"
  le_output_len :: "nat \<Rightarrow> 'w \<Rightarrow> nat"
  le_read :: "nat \<Rightarrow> nat \<Rightarrow> 'w \<Rightarrow> byte list \<times> 'w"
  le_write :: "nat \<Rightarrow> byte list \<Rightarrow> 'w \<Rightarrow> 'w"
  le_free :: "nat \<Rightarrow> 'w \<Rightarrow> 'w"
  le_listener_new :: "nat option \<Rightarrow> 'w \<Rightarrow> nat option \<times> 'w"
  le_listener_free :: "nat option \<Rightarrow> 'w \<Rightarrow> 'w"
  le_signal_new :: "nat option \<Rightarrow> 'w \<Rightarrow> nat option \<times> 'w"
  le_timer_set :: "nat \<Rightarrow> nat option \<Rightarrow> 'w \<Rightarrow> 'w"
  le_event_add :: "nat \<Rightarrow> nat option \<Rightarrow> 'w \<Rightarrow> int \<times> 'w"
  le_event_free :: "nat option \<Rightarrow> 'w \<Rightarrow> 'w"

section \<open>The client callbacks\<close>

definition MESSAGE :: "byte list" where
  "MESSAGE = map of_char ''Hello world!''"

definition BEV_EVENT_EOF :: "16 word" where
  "BEV_EVENT_EOF = 0x10"

definition BEV_EVENT_ERROR :: "16 word" where
  "BEV_EVENT_ERROR = 0x20"

text \<open>The line an event callback prints first; \<open>other\<close> is the text of the last branch, if there is one.\<close>

definition event_report :: "16 word \<Rightarrow> string \<Rightarrow> string" where
  "event_report events other =
     (if events AND BEV_EVENT_EOF \<noteq> 0 then ''Connection close.''
      else if events AND BEV_EVENT_ERROR \<noteq> 0 then ''Got an error on the connection: ''
      else other)"

text \<open>
  \<open>fill cap bs\<close>: a zeroed array of \<open>cap\<close> bytes after \<^verbatim>\<open>bufferevent_read\<close> stored \<open>bs\<close> in it; \<open>print_array\<close> reads it as a C
  string, which is defined only if it holds a NUL.
\<close>

definition fill :: "nat \<Rightarrow> byte list \<Rightarrow> byte list res" where
  "fill cap bs = (if cap < length bs then Inl OutOfBounds else Inr (overwrite (replicate cap 0) 0 bs))"

definition print_array :: "byte list \<Rightarrow> byte list res" where
  "print_array buf = (if 0 \<in> set buf then Inr (c_bytes buf) else Inl OutOfBounds)"

definition client_readcb :: "'w libevent \<Rightarrow> nat \<Rightarrow> 'w \<Rightarrow> 'w res" where
  "client_readcb le bev w =
     (let sz = le_input_len le bev w
      in if 0 < sz then
           let (bs, w1) = le_read le bev sz w
           in bind_res (fill 256 bs) (\<lambda>read_msg.
              bind_res (print_array read_msg) (\<lambda>str. Inr (le_write le bev str w1)))
         else Inr w)"

text \<open>client/main.cpp: the event callback writes and frees at once; the write callback frees too.\<close>

definition client_eventcb :: "'w libevent \<Rightarrow> nat \<Rightarrow> 16 word \<Rightarrow> 'w \<Rightarrow> string list \<times> 'w" where
  "client_eventcb le bev events w =
     ([event_report events '''', ''conn_eventcb''], le_free le bev (le_write le bev MESSAGE w))"

definition client_writecb :: "'w libevent \<Rightarrow> nat \<Rightarrow> 'w \<Rightarrow> 'w" where
  "client_writecb le bev w = (if le_output_len le bev w = 0 then le_free le bev w else w)"

definition event_client_main :: "'w libevent \<Rightarrow> 'w \<Rightarrow> (int \<times> 'w) run" where
  "event_client_main le w =
     (let (base, w1) = le_base_new le w;
          (bev, w2) = le_socket_new le base (- 1) w1
      in (case bev of
            None \<Rightarrow> Some (Inr (- 1, w2))
          | Some b \<Rightarrow>
              let (flag, w3) = le_connect le b (le_setcb le b True True True w2)
              in if flag = - 1 then Some (Inr (1, w3))
                 else bind_run (le_dispatch le base (le_enable le b w3)) (\<lambda>w4. Some (Inr (1, le_base_free le base w4)))))"

section \<open>The client class\<close>

text \<open>
  client/src/TcpConnection.cpp. \<open>init\<close> and \<open>sendMsg\<close> have no return statement at their end: \<open>junk\<close> is the indeterminate
  value the caller sees. \<open>None\<close> in \<open>cc_bev\<close> is the null pointer or the member before \<open>init\<close>.
\<close>

record client_conn =
  cc_base :: "nat option"
  cc_bev :: "nat option"
  cc_msg_buffer :: "byte list"

definition mk_client_conn :: "'w libevent \<Rightarrow> 'w \<Rightarrow> client_conn \<times> 'w" where
  "mk_client_conn le w =
     (let (base, w1) = le_base_new le w in (\<lparr>cc_base = base, cc_bev = None, cc_msg_buffer = replicate 4096 0\<rparr>, w1))"

definition client_conn_destroy :: "'w libevent \<Rightarrow> client_conn \<Rightarrow> 'w \<Rightarrow> 'w" where
  "client_conn_destroy le c w = le_base_free le (cc_base c) w"

definition class_conn_cb :: "'w libevent \<Rightarrow> nat \<Rightarrow> 16 word \<Rightarrow> 'w \<Rightarrow> string list \<times> 'w" where
  "class_conn_cb le bev events w = ([event_report events '''', ''conn_eventcb''], le_write le bev MESSAGE w)"

definition class_readcb :: "'w libevent \<Rightarrow> nat \<Rightarrow> 'w \<Rightarrow> 'w res" where
  "class_readcb le bev w =
     (let sz = le_input_len le bev w
      in if 0 < sz then
           let (bs, w1) = le_read le bev sz w
           in bind_res (fill 256 bs) (\<lambda>read_msg.
              bind_res (print_array read_msg) (\<lambda>str. Inr (le_write le bev str w1)))
         else Inr w)"

definition class_writecb :: "'w libevent \<Rightarrow> nat \<Rightarrow> 'w \<Rightarrow> string list \<times> 'w" where
  "class_writecb le bev w = (if le_output_len le bev w = 0 then [''flushed answer''] else [], w)"

definition client_init :: "'w libevent \<Rightarrow> int \<Rightarrow> client_conn \<Rightarrow> 'w \<Rightarrow> int \<times> client_conn \<times> 'w" where
  "client_init le junk c w =
     (let (bev, w1) = le_socket_new le (cc_base c) (- 1) w; c1 = c\<lparr>cc_bev := bev\<rparr>
      in (case bev of
            None \<Rightarrow> (- 1, c1, w1)
          | Some b \<Rightarrow>
              let (flags, w2) = le_connect le b (le_setcb le b True True True w1)
              in if flags = - 1 then (- 1, c1, w2) else (junk, c1, le_enable le b w2)))"

definition client_start :: "'w libevent \<Rightarrow> client_conn \<Rightarrow> 'w \<Rightarrow> 'w run" where
  "client_start le c w = le_dispatch le (cc_base c) w"

definition sendMsg :: "'w libevent \<Rightarrow> byte list \<Rightarrow> client_conn \<Rightarrow> 'w \<Rightarrow> 'w res" where
  "sendMsg le msg c w = (case cc_bev c of None \<Rightarrow> Inl NullDeref | Some b \<Rightarrow> Inr (le_write le b msg w))"

text \<open>The thread of client/src/main.cpp, and one pass of its main loop over the connections in the map.\<close>

definition client_thread :: "'w libevent \<Rightarrow> int \<Rightarrow> int \<Rightarrow> (int, client_conn) std_map \<Rightarrow> 'w \<Rightarrow> (int \<times> (int, client_conn) std_map) \<times> 'w run" where
  "client_thread le junk n conn_map w =
     (let n1 = n + 1;
          (c, w1) = mk_client_conn le w;
          (_, c1, w2) = client_init le junk c w1
      in ((n1, map_put n1 c1 conn_map), client_start le c1 w2))"

fun send_pass :: "'w libevent \<Rightarrow> (int \<times> client_conn) list \<Rightarrow> 'w \<Rightarrow> 'w res" where
  "send_pass le [] w = Inr w"
| "send_pass le ((k, c) # cs) w =
     bind_res (sendMsg le (map of_char (''22222222222222222222222'' @ [CHR 0x0A])) c w) (send_pass le cs)"

text \<open>
  The endless loop of \<^verbatim>\<open>main\<close> over the connections that are in the map by then; the race between this loop and the thread that
  fills the map is left out.
\<close>

partial_function (option) send_forever :: "'w libevent \<Rightarrow> (int, client_conn) std_map \<Rightarrow> 'w \<Rightarrow> 'w run" where
  "send_forever le conn_map w = bind_run (Some (send_pass le conn_map w)) (send_forever le conn_map)"

section \<open>The server\<close>

definition MAX_BUFFER :: nat where
  "MAX_BUFFER = 48000"

record event_server =
  es_base :: "nat option"
  es_listen :: "nat option"
  es_signal_event :: "nat option"

definition mk_event_server :: "'w libevent \<Rightarrow> 'w \<Rightarrow> event_server \<times> 'w" where
  "mk_event_server le w =
     (let (base, w1) = le_base_new le w in (\<lparr>es_base = base, es_listen = None, es_signal_event = None\<rparr>, w1))"

text \<open>The destructor frees the base before the listener and the signal event that live on it.\<close>

definition event_server_destroy :: "'w libevent \<Rightarrow> event_server \<Rightarrow> 'w \<Rightarrow> 'w" where
  "event_server_destroy le s w =
     le_event_free le (es_signal_event s) (le_listener_free le (es_listen s) (le_base_free le (es_base s) w))"

definition server_conn_cb :: "'w libevent \<Rightarrow> nat \<Rightarrow> 16 word \<Rightarrow> 'w \<Rightarrow> string list \<times> 'w" where
  "server_conn_cb le bev events w = ([event_report events ''a new conn ''], le_free le bev w)"

text \<open>The text printed, and the state; nothing is written back.\<close>

definition server_readcb :: "'w libevent \<Rightarrow> nat \<Rightarrow> 'w \<Rightarrow> (byte list \<times> 'w) res" where
  "server_readcb le bev w =
     (let sz = le_input_len le bev w;
          (bs, w1) = (if 0 < sz then le_read le bev sz w else ([], w))
      in bind_res (fill MAX_BUFFER bs) (\<lambda>arr.
         bind_res (print_array arr) (\<lambda>str. Inr (str, w1))))"

definition server_writecb :: "'w libevent \<Rightarrow> nat \<Rightarrow> 'w \<Rightarrow> 'w" where
  "server_writecb le bev w = (if le_output_len le bev w = 0 then le_free le bev w else w)"

definition listen_cb :: "'w libevent \<Rightarrow> nat option \<Rightarrow> int \<Rightarrow> 'w \<Rightarrow> 'w" where
  "listen_cb le base fd w =
     (let (bev, w1) = le_socket_new le base fd w
      in (case bev of None \<Rightarrow> w1 | Some b \<Rightarrow> le_enable le b (le_setcb le b True False True w1)))"

definition signal_cb :: "'w libevent \<Rightarrow> nat option \<Rightarrow> 'w \<Rightarrow> 'w" where
  "signal_cb le base w = le_loopexit le base 2 w"

text \<open>
  \<^verbatim>\<open>if (!listen)\<close> tests the address of the library function \<^verbatim>\<open>listen\<close>, which is never null, instead of \<^verbatim>\<open>listen_\<close>.
\<close>

definition server_init :: "'w libevent \<Rightarrow> int \<Rightarrow> event_server \<Rightarrow> 'w \<Rightarrow> int \<times> event_server \<times> 'w" where
  "server_init le junk s w =
     (let (lst, w1) = le_listener_new le (es_base s) w;
          (sig, w2) = le_signal_new le (es_base s) w1;
          s2 = s\<lparr>es_listen := lst, es_signal_event := sig\<rparr>
      in (case sig of
            None \<Rightarrow> (- 1, s2, w2)
          | Some e \<Rightarrow>
              let (r, w3) = le_event_add le e None w2
              in if r < 0 then (- 1, s2, w3) else (junk, s2, w3)))"

definition event_server_start :: "'w libevent \<Rightarrow> event_server \<Rightarrow> 'w \<Rightarrow> 'w run" where
  "event_server_start le s w = le_dispatch le (es_base s) w"

definition event_server_main :: "'w libevent \<Rightarrow> int \<Rightarrow> 'w \<Rightarrow> (int \<times> 'w) run" where
  "event_server_main le junk w =
     (let (s, w1) = mk_event_server le w;
          (_, s1, w2) = server_init le junk s w1
      in bind_run (event_server_start le s1 w2) (\<lambda>w3. Some (Inr (1, event_server_destroy le s1 w3))))"

section \<open>The server in one file\<close>

text \<open>
  libevent_test/server/main.cpp repeats the callbacks of the class as functions; its \<^verbatim>\<open>main\<close> tests the right variable, returns
  without freeing what it has, and at its end frees the listener and the signal event before their base. (\<^verbatim>\<open>main\<close> passes a
  callback \<^verbatim>\<open>listen_cb\<close> that the file does not declare; \<open>Tcplisten_cb\<close> is the one it defines.)
\<close>

definition conn_writecb :: "'w libevent \<Rightarrow> nat \<Rightarrow> 'w \<Rightarrow> string list \<times> 'w" where
  "conn_writecb le bev w = (if le_output_len le bev w = 0 then ([''flushed answer''], le_free le bev w) else ([], w))"

definition conn_readcb :: "'w libevent \<Rightarrow> nat \<Rightarrow> 'w \<Rightarrow> (byte list \<times> 'w) res" where
  "conn_readcb le bev w =
     (let sz = le_input_len le bev w;
          (bs, w1) = (if 0 < sz then le_read le bev sz w else ([], w))
      in bind_res (fill MAX_BUFFER bs) (\<lambda>read.
         bind_res (print_array read) (\<lambda>str. Inr (str, w1))))"

definition conn_eventcb :: "'w libevent \<Rightarrow> nat \<Rightarrow> 16 word \<Rightarrow> 'w \<Rightarrow> string list \<times> 'w" where
  "conn_eventcb le bev events w = ([event_report events ''a new conn ''], le_free le bev w)"

definition Tcplisten_cb :: "'w libevent \<Rightarrow> nat option \<Rightarrow> int \<Rightarrow> 'w \<Rightarrow> 'w" where
  "Tcplisten_cb le base fd w =
     (let (bev, w1) = le_socket_new le base fd w
      in (case bev of None \<Rightarrow> w1 | Some b \<Rightarrow> le_enable le b (le_setcb le b True False True w1)))"

definition single_signal_cb :: "'w libevent \<Rightarrow> nat option \<Rightarrow> 'w \<Rightarrow> 'w" where
  "single_signal_cb le base w = le_loopexit le base 2 w"

definition single_server_main :: "'w libevent \<Rightarrow> 'w \<Rightarrow> (int \<times> 'w) run" where
  "single_server_main le w =
     (let (base, w1) = le_base_new le w;
          (lst, w2) = le_listener_new le base w1
      in if lst = None then Some (Inr (- 1, w2))
         else let (sig, w3) = le_signal_new le base w2
              in (case sig of
                    None \<Rightarrow> Some (Inr (- 1, w3))
                  | Some e \<Rightarrow>
                      let (r, w4) = le_event_add le e None w3
                      in if r < 0 then Some (Inr (- 1, w4))
                         else bind_run (le_dispatch le base w4) (\<lambda>w5.
                           Some (Inr (1, le_base_free le base (le_event_free le sig (le_listener_free le lst w5)))))))"

section \<open>The timer\<close>

text \<open>The timer event is handle 0; its callback arms it again for \<open>tv\<close> seconds.\<close>

definition time_cb :: "'w libevent \<Rightarrow> nat \<Rightarrow> 'w \<Rightarrow> 'w" where
  "time_cb le tv w = snd (le_event_add le 0 (Some tv) w)"

definition timer_main :: "'w libevent \<Rightarrow> 'w \<Rightarrow> (int \<times> 'w) run" where
  "timer_main le w =
     (let (base, w1) = le_base_new le w;
          w2 = le_timer_set le 0 base w1;
          (_, w3) = le_event_add le 0 (Some 2) w2
      in bind_run (le_dispatch le base w3) (\<lambda>w4. Some (Inr (1, le_base_free le base w4))))"

section \<open>What the headers promise\<close>

text \<open>
  \<open>inp\<close>, \<open>out\<close>: the content of the two buffers of each bufferevent; \<open>alive\<close>: those not yet freed.
\<close>

definition libevent_documented ::
  "'w libevent \<Rightarrow> ('w \<Rightarrow> nat \<Rightarrow> byte list) \<Rightarrow> ('w \<Rightarrow> nat \<Rightarrow> byte list) \<Rightarrow> ('w \<Rightarrow> nat set) \<Rightarrow> bool" where
  "libevent_documented le inp out alive \<longleftrightarrow>
     (\<forall>b w. le_input_len le b w = length (inp w b)) \<and>
     (\<forall>b w. le_output_len le b w = length (out w b)) \<and>
     (\<forall>b n w bs w'. le_read le b n w = (bs, w') \<longrightarrow>
        bs = take n (inp w b) \<and> inp w' = (inp w)(b := drop n (inp w b)) \<and> out w' = out w \<and> alive w' = alive w) \<and>
     (\<forall>b bs w. inp (le_write le b bs w) = inp w \<and> out (le_write le b bs w) = (out w)(b := out w b @ bs)
        \<and> alive (le_write le b bs w) = alive w) \<and>
     (\<forall>b w. alive (le_free le b w) = alive w - {b})"

lemma libevent_documentedD:
  assumes "libevent_documented le inp out alive"
  shows "le_input_len le b w = length (inp w b)"
    and "le_output_len le b w = length (out w b)"
    and "le_read le b n w = (bs, w') \<Longrightarrow>
        bs = take n (inp w b) \<and> inp w' = (inp w)(b := drop n (inp w b)) \<and> out w' = out w \<and> alive w' = alive w"
    and "inp (le_write le b bs w) = inp w"
    and "out (le_write le b bs w) = (out w)(b := out w b @ bs)"
    and "alive (le_write le b bs w) = alive w"
    and "alive (le_free le b w) = alive w - {b}"
  using assms unfolding libevent_documented_def by metis+

section \<open>The read callbacks\<close>

text \<open>Input that an array of \<open>cap\<close> bytes can take and print.\<close>

definition fits :: "nat \<Rightarrow> byte list \<Rightarrow> bool" where
  "fits cap m \<longleftrightarrow> length m < cap \<or> length m = cap \<and> 0 \<in> set m"

lemma fill_print:
  "bind_res (fill cap m) print_array = (if fits cap m then Inr (c_bytes m) else Inl OutOfBounds)"
proof (cases "cap < length m")
  case True
  then show ?thesis by (auto simp: fill_def fits_def)
next
  case False
  then have f: "fill cap m = Inr (m @ replicate (cap - length m) 0)"
    by (simp add: fill_def overwrite_def)
  show ?thesis
  proof (cases "length m < cap")
    case True
    then obtain k where k: "cap - length m = Suc k" by (metis Suc_diff_Suc)
    have "c_bytes (m @ 0 # zs) = c_bytes m" for zs
    proof (cases "0 \<in> set m")
      case True
      then show ?thesis by (auto simp: c_bytes_def takeWhile_append1)
    next
      case False
      then have "c_bytes m = m" by (auto simp: c_bytes_def takeWhile_eq_all_conv)
      with False show ?thesis by (simp add: c_bytes_stop)
    qed
    with f k True show ?thesis by (simp add: print_array_def fits_def)
  next
    case False
    with \<open>\<not> cap < length m\<close> f show ?thesis by (auto simp: print_array_def fits_def)
  qed
qed

text \<open>
  C40. The read callback of the libevent echo client, for every content \<open>m\<close> of the input buffer: if \<open>m\<close> fits the
  256-byte array with a terminating zero, the callback drains the input, appends the text of \<open>m\<close> up to its first
  zero byte to the output of the same bufferevent, and touches no other; otherwise it writes or reads behind the
  array. (The peer controls \<open>m\<close>.)
\<close>

theorem client_readcb_echo:
  assumes "libevent_documented le inp out alive"
  shows "if fits 256 (inp w bev)
         then \<exists>w'. client_readcb le bev w = Inr w' \<and> inp w' = (inp w)(bev := [])
              \<and> out w' = (out w)(bev := out w bev @ c_bytes (inp w bev)) \<and> alive w' = alive w
         else client_readcb le bev w = Inl OutOfBounds"
proof -
  note d = libevent_documentedD[OF assms]
  let ?m = "inp w bev"
  obtain bs w1 where r: "le_read le bev (length ?m) w = (bs, w1)" by fastforce
  have bs: "bs = ?m" "inp w1 = (inp w)(bev := [])" "out w1 = out w" "alive w1 = alive w"
    using d(3)[OF r] by simp_all
  have run: "client_readcb le bev w = (if ?m = [] then Inr w
      else bind_res (bind_res (fill 256 ?m) print_array) (\<lambda>str. Inr (le_write le bev str w1)))"
    using r bs(1) by (simp add: client_readcb_def d(1) bind_res_assoc)
  show ?thesis
  proof (cases "?m = []")
    case True
    then have "out w = (out w)(bev := out w bev @ c_bytes ?m)" "inp w = (inp w)(bev := [])"
      by (auto simp: c_bytes_def fun_eq_iff)
    with True run show ?thesis by (auto simp: fits_def)
  next
    case False
    then show ?thesis by (simp add: run fill_print d(4-6) bs)
  qed
qed

text \<open>The callback of the class has the same body.\<close>

lemma class_readcb_eq: "class_readcb = client_readcb"
  by (simp add: class_readcb_def client_readcb_def fun_eq_iff)

text \<open>The server prints and never answers; its array has 48000 bytes.\<close>

lemma server_readcb_prints:
  assumes "libevent_documented le inp out alive"
  shows "if fits MAX_BUFFER (inp w bev)
         then \<exists>w'. server_readcb le bev w = Inr (c_bytes (inp w bev), w') \<and> inp w' = (inp w)(bev := []) \<and> out w' = out w
         else server_readcb le bev w = Inl OutOfBounds"
proof -
  note d = libevent_documentedD[OF assms]
  let ?m = "inp w bev"
  obtain bs w1 where r: "le_read le bev (length ?m) w = (bs, w1)" by fastforce
  have bs: "bs = ?m" "inp w1 = (inp w)(bev := [])" "out w1 = out w" using d(3)[OF r] by simp_all
  obtain w2 where w2: "(if 0 < length ?m then le_read le bev (length ?m) w else ([], w)) = (?m, w2)"
      "inp w2 = (inp w)(bev := [])" "out w2 = out w"
    using r bs by (cases "?m = []") (auto simp: fun_eq_iff)
  have "server_readcb le bev w = bind_res (bind_res (fill MAX_BUFFER ?m) print_array) (\<lambda>str. Inr (str, w2))"
    using w2(1) by (simp add: server_readcb_def d(1) bind_res_assoc)
  then show ?thesis by (simp add: fill_print w2)
qed

text \<open>
  In client/main.cpp the greeting goes into the output buffer of a bufferevent that the same callback frees, on every
  event, the one that reports the established connection included.
\<close>

lemma client_eventcb_frees:
  assumes "libevent_documented le inp out alive"
  shows "bev \<notin> alive (snd (client_eventcb le bev events w))"
    and "out (le_write le bev MESSAGE w) bev \<noteq> []"
  by (simp_all add: client_eventcb_def libevent_documentedD[OF assms] MESSAGE_def)

text \<open>The class keeps the bufferevent alive and its greeting in the output buffer.\<close>

lemma class_conn_cb_keeps:
  assumes "libevent_documented le inp out alive"
  shows "alive (snd (class_conn_cb le bev events w)) = alive w"
    and "out (snd (class_conn_cb le bev events w)) bev = out w bev @ MESSAGE"
  by (simp_all add: class_conn_cb_def libevent_documentedD[OF assms])

text \<open>
  The thread of client/src/main.cpp stores its connection whatever \<open>init\<close> returned; when the bufferevent could not be made, the
  next pass of the main loop dereferences the null pointer.
\<close>

lemma failed_client_crashes:
  assumes "le_base_new le w = (base, w1)" and "le_socket_new le base (- 1) w1 = (None, w2)"
    and "client_thread le junk n [] w = ((n', conn_map), r)"
  shows "send_forever le conn_map v = Some (Inl NullDeref)"
  using assms by (subst send_forever.simps) (auto simp: client_thread_def mk_client_conn_def client_init_def sendMsg_def Let_def)

lemma no_client_sends_nothing: "send_forever le [] w = None"
proof -
  have "send_forever le c w = Some r \<Longrightarrow> c = [] \<longrightarrow> False" for c r
    by (rule send_forever.raw_induct[where P = "\<lambda>le c w r. c = [] \<longrightarrow> False", rotated]) (assumption, fastforce)
  then show ?thesis by (cases "send_forever le [] w") auto
qed

text \<open>A listener that could not be created goes unnoticed.\<close>

lemma server_init_ignores_listener:
  assumes "le_listener_new le (es_base s) w = (None, w1)" and "le_signal_new le (es_base s) w1 = (Some e, w2)"
    and "le_event_add le e None w2 = (0, w3)"
  shows "server_init le junk s w = (junk, s\<lparr>es_listen := None, es_signal_event := Some e\<rparr>, w3)"
  using assms by (simp add: server_init_def)

text \<open>
  The single file does what the class does, callback by callback, apart from the line its write callback prints; but it does not
  start without a listener, while the class dispatches all the same.
\<close>

lemma single_callbacks:
  "conn_readcb = server_readcb" "conn_eventcb = server_conn_cb" "Tcplisten_cb = listen_cb" "single_signal_cb = signal_cb"
  "snd (conn_writecb le bev w) = server_writecb le bev w"
  by (simp_all add: fun_eq_iff conn_readcb_def server_readcb_def conn_eventcb_def server_conn_cb_def Tcplisten_cb_def
      listen_cb_def single_signal_cb_def signal_cb_def conn_writecb_def server_writecb_def)

lemma single_server_no_listener:
  assumes "le_base_new le w = (base, w1)" and "le_listener_new le base w1 = (None, w2)"
    and "le_signal_new le base w2 = (Some e, w3)" and "le_event_add le e None w3 = (0, w4)"
  shows "single_server_main le w = Some (Inr (- 1, w2))"
    and "event_server_main le junk w = bind_run (le_dispatch le base w4) (\<lambda>w5.
      Some (Inr (1, le_event_free le (Some e) (le_listener_free le None (le_base_free le base w5)))))"
  using assms by (simp_all add: single_server_main_def event_server_main_def mk_event_server_def server_init_def
      event_server_start_def event_server_destroy_def)

section \<open>A concrete run\<close>

definition bev_read :: "nat \<Rightarrow> nat \<Rightarrow> (nat \<Rightarrow> byte list) \<times> (nat \<Rightarrow> byte list) \<times> nat set
     \<Rightarrow> byte list \<times> (nat \<Rightarrow> byte list) \<times> (nat \<Rightarrow> byte list) \<times> nat set" where
  "bev_read b n w = (case w of (i, ou, al) \<Rightarrow> (take n (i b), i(b := drop n (i b)), ou, al))"

definition table_libevent :: "((nat \<Rightarrow> byte list) \<times> (nat \<Rightarrow> byte list) \<times> nat set) libevent" where
  "table_libevent = \<lparr>
     le_base_new = (\<lambda>w. (Some 0, w)), le_base_free = (\<lambda>b w. w), le_dispatch = (\<lambda>b w. Some (Inr w)),
     le_loopexit = (\<lambda>b t w. w), le_socket_new = (\<lambda>b fd w. (Some 1, w)), le_setcb = (\<lambda>b r wr e w. w),
     le_enable = (\<lambda>b w. w), le_connect = (\<lambda>b w. (0, w)),
     le_input_len = (\<lambda>b w. length (fst w b)), le_output_len = (\<lambda>b w. length (fst (snd w) b)),
     le_read = bev_read,
     le_write = (\<lambda>b bs w. case w of (i, ou, al) \<Rightarrow> (i, ou(b := ou b @ bs), al)),
     le_free = (\<lambda>b w. case w of (i, ou, al) \<Rightarrow> (i, ou, al - {b})),
     le_listener_new = (\<lambda>b w. (Some 2, w)), le_listener_free = (\<lambda>b w. w), le_signal_new = (\<lambda>b w. (Some 3, w)),
     le_timer_set = (\<lambda>e b w. w), le_event_add = (\<lambda>e t w. (0, w)), le_event_free = (\<lambda>e w. w) \<rparr>"

lemma table_libevent_documented:
  "libevent_documented table_libevent fst (\<lambda>w. fst (snd w)) (\<lambda>w. snd (snd w))"
  by (auto simp: libevent_documented_def table_libevent_def bev_read_def split: prod.splits)

theorem client_readcb_echo_witness:
  "\<exists>w'. client_readcb table_libevent 1 ((\<lambda>_. [104, 105]), (\<lambda>_. []), {1}) = Inr w' \<and> fst (snd w') 1 = [104, 105]"
proof -
  let ?w = "((\<lambda>_. [104, 105]), (\<lambda>_. []), {1}) :: (nat \<Rightarrow> byte list) \<times> (nat \<Rightarrow> byte list) \<times> nat set"
  have "fits 256 (fst ?w 1)" by (simp add: fits_def)
  with client_readcb_echo[OF table_libevent_documented, of ?w 1] show ?thesis
    by (auto simp: c_bytes_def)
qed

end
