(* ===== verification/Exercises.thy ===== *)
theory Exercises
  imports Prelude
begin

text \<open>
  The single-function programs: the erase loop of test/inc/solution.hpp, the addition of linux_tcp/testasm.cc, and the
  name-and-age file of linux_tcp/fileio.cpp. Iterators are positions, C++ streams are the characters still
  to come with their state flag. The lemmas give the exact result of the erase loop and the condition under which
  the file is read back as it was written.
\<close>

section \<open>test/inc/solution.hpp\<close>

text \<open>
  \<^verbatim>\<open>itor = words.erase(itor)\<close> and then \<^verbatim>\<open>itor++\<close>; incrementing the end iterator is undefined.
\<close>

function erase_loop :: "nat \<Rightarrow> 'a list \<Rightarrow> 'a list res" where
  "erase_loop itor words =
     (if length words \<le> itor then Inr words
      else let words' = take itor words @ drop (Suc itor) words
           in if length words' \<le> itor then Inl OutOfBounds else erase_loop (Suc itor) words')"
  by pat_completeness auto
termination by (relation "measure (\<lambda>(i, ws). length ws)") auto

declare erase_loop.simps [simp del]

definition findAndReplacePattern :: "string list \<Rightarrow> string \<Rightarrow> string list res" where
  "findAndReplacePattern words pat = erase_loop 0 words"

text \<open>Every second element, from the second on.\<close>

fun seconds :: "'a list \<Rightarrow> 'a list" where
  "seconds (x # y # zs) = y # seconds zs"
| "seconds _ = []"

lemma erase_loop_seconds:
  "erase_loop (length pre) (pre @ ws) = (if even (length ws) then Inr (pre @ seconds ws) else Inl OutOfBounds)"
proof (induction ws arbitrary: pre rule: seconds.induct)
  case (1 x y zs)
  have "erase_loop (length pre) (pre @ x # y # zs) = erase_loop (length (pre @ [y])) ((pre @ [y]) @ zs)"
    by (subst erase_loop.simps) simp
  with 1[of "pre @ [y]"] show ?case by simp
qed (subst erase_loop.simps; simp)+

text \<open>The pattern is ignored: every other word is dropped, and an odd number of words runs past the end.\<close>

lemma findAndReplacePattern_result:
  "findAndReplacePattern words pat = (if even (length words) then Inr (seconds words) else Inl OutOfBounds)"
  using erase_loop_seconds[of "[]" words] by (simp add: findAndReplacePattern_def)

section \<open>linux_tcp/testasm.cc\<close>

definition add_a_and_b :: "int \<Rightarrow> int \<Rightarrow> int res" where
  "add_a_and_b a b = (if - (2 ^ 31) \<le> a + b \<and> a + b < 2 ^ 31 then Inr (a + b) else Inl SignedOverflow)"

definition testasm_main :: "int res" where
  "testasm_main = add_a_and_b 2 3"

lemma testasm_main_is_5: "testasm_main = Inr 5"
  by (simp add: testasm_main_def add_a_and_b_def)

section \<open>linux_tcp/fileio.cpp\<close>

text \<open>A stream: the characters to come and whether no error or end-of-file flag is set.\<close>

type_synonym istream = "string \<times> bool"

definition isspace :: "char \<Rightarrow> bool" where
  "isspace c \<longleftrightarrow> c \<in> {CHR '' '', CHR 0x09, CHR 0x0A, CHR 0x0B, CHR 0x0C, CHR 0x0D}"

text \<open>\<^verbatim>\<open>getline(data, 100)\<close>: up to 99 characters; a longer line, or nothing before the end of the input, sets a flag.\<close>

definition getline :: "istream \<Rightarrow> string \<times> istream" where
  "getline s =
     (let line = takeWhile (\<lambda>c. c \<noteq> CHR 0x0A) (fst s); rest = dropWhile (\<lambda>c. c \<noteq> CHR 0x0A) (fst s)
      in if \<not> snd s then ('''', s)
         else if length line \<le> 99 then (line, (case rest of [] \<Rightarrow> ([], False) | c # cs \<Rightarrow> (cs, True)))
         else (take 99 line, drop 99 (fst s), False))"

text \<open>
  \<^verbatim>\<open>stream >> data\<close> into an array of 100 characters (unbounded before C++20): on a stream with a flag set the array is
  left alone; \<open>None\<close> is an array that was never written.
\<close>

definition read_word :: "istream \<Rightarrow> string option \<Rightarrow> (string option \<times> istream) res" where
  "read_word s data =
     (if \<not> snd s then Inr (data, s)
      else let r = dropWhile isspace (fst s); word = takeWhile (\<lambda>c. \<not> isspace c) r; rest = dropWhile (\<lambda>c. \<not> isspace c) r
           in if r = [] then Inr (data, [], False)
              else if 100 \<le> length word then Inl OutOfBounds
              else Inr (Some word, rest, rest \<noteq> []))"

text \<open>\<open>file\<close> is the content of text.txt, opened for appending.\<close>

definition writefile :: "istream \<Rightarrow> string \<Rightarrow> (string \<times> istream) res" where
  "writefile cin file =
     (let (name, s1) = getline cin
      in bind_res (read_word s1 (Some name)) (\<lambda>(age, s2).
         let s3 = (if snd s2 then (tl (fst s2), snd s2) else s2)
         in Inr (file @ name @ [CHR 0x0A] @ the age @ [CHR 0x0A], s3)))"

definition print_data :: "string option \<Rightarrow> string res" where
  "print_data data = (case data of None \<Rightarrow> Inl OutOfBounds | Some s \<Rightarrow> Inr s)"

definition readfile :: "string \<Rightarrow> (string \<times> string) res" where
  "readfile file =
     bind_res (read_word (file, True) None) (\<lambda>(d1, s1).
     bind_res (print_data d1) (\<lambda>first.
     bind_res (read_word s1 d1) (\<lambda>(d2, s2).
     bind_res (print_data d2) (\<lambda>second. Inr (first, second)))))"

text \<open>A word: not empty, without white space, fitting the array.\<close>

definition is_word :: "string \<Rightarrow> bool" where
  "is_word w \<longleftrightarrow> w \<noteq> [] \<and> list_all (\<lambda>c. \<not> isspace c) w \<and> length w < 100"

lemma is_word_span:
  assumes "is_word w" and "isspace c"
  shows "dropWhile isspace (w @ c # cs) = w @ c # cs"
    and "takeWhile (\<lambda>c. \<not> isspace c) (w @ c # cs) = w" and "dropWhile (\<lambda>c. \<not> isspace c) (w @ c # cs) = c # cs"
proof -
  obtain x xs where "w = x # xs" using assms(1) by (cases w) (auto simp: is_word_def)
  with assms(1) show "dropWhile isspace (w @ c # cs) = w @ c # cs" by (simp add: is_word_def)
  have "\<forall>c \<in> set w. \<not> isspace c" using assms(1) by (simp add: is_word_def list_all_iff)
  with assms(2) show "takeWhile (\<lambda>c. \<not> isspace c) (w @ c # cs) = w" "dropWhile (\<lambda>c. \<not> isspace c) (w @ c # cs) = c # cs"
    by (simp_all add: takeWhile_append2 dropWhile_append2)
qed

lemma read_word_next:
  assumes "is_word w" and "isspace c"
  shows "read_word (w @ c # cs, True) d = Inr (Some w, c # cs, True)"
  using assms is_word_span[OF assms] by (auto simp: read_word_def is_word_def Let_def)

lemma read_word_skip:
  assumes "isspace c" shows "read_word (c # cs, True) d = read_word (cs, True) d"
  using assms by (simp add: read_word_def)

lemma isspace_newline [simp]: "isspace (CHR 0x0A)"
  by (simp add: isspace_def)

text \<open>
  A name of one word and an age, typed on two lines, are written to an empty file and read back. A name of two
  words is not: reading stops at the blank.
\<close>

lemma fileio_roundtrip:
  assumes "is_word name" and "is_word age"
  shows "\<exists>file s. writefile (name @ [CHR 0x0A] @ age @ [CHR 0x0A] @ more, True) '''' = Inr (file, s)
      \<and> readfile file = Inr (name, age)"
proof -
  have nl: "\<forall>c \<in> set name. c \<noteq> CHR 0x0A" using assms(1) by (auto simp: is_word_def list_all_iff)
  have "getline (name @ CHR 0x0A # age @ CHR 0x0A # more, True) = (name, age @ CHR 0x0A # more, True)"
    using nl assms(1) by (simp add: getline_def Let_def takeWhile_append2 dropWhile_append2 is_word_def)
  then have "writefile (name @ [CHR 0x0A] @ age @ [CHR 0x0A] @ more, True) ''''
      = Inr (name @ [CHR 0x0A] @ age @ [CHR 0x0A], more, True)"
    by (simp add: writefile_def read_word_next[OF assms(2)])
  moreover have "readfile (name @ [CHR 0x0A] @ age @ [CHR 0x0A]) = Inr (name, age)"
    by (simp add: readfile_def print_data_def read_word_next[OF assms(1)] read_word_skip read_word_next[OF assms(2)])
  ultimately show ?thesis by blast
qed

lemma fileio_two_words:
  "readfile (''Ada Byron'' @ [CHR 0x0A] @ ''36'' @ [CHR 0x0A]) = Inr (''Ada'', ''Byron'')"
  by (simp add: readfile_def read_word_def print_data_def isspace_def)

end
